(* ===== verification/Prelude.thy ===== *)
theory Prelude
  imports Main "HOL-Library.Word" "HOL-Library.List_Lexorder" "HOL-Library.Monad_Syntax"
begin

text \<open>
  Shared vocabulary of the development: the C integer types as words, C division, \<open>memcmp\<close>,
  the eight-byte identifiers of Link, and the table scans (\<open>for (i = 0; i < MAX; i++)\<close>) that every
  module of the firmware writes out by hand.

  A result of type \<open>'a option\<close> is \<open>None\<close> where the C code would leave its defined behaviour: a
  read outside the received datagram, or a pointer that leaves the 32-bit address space.
\<close>

section \<open>Machine integers\<close>

type_synonym u8 = "8 word"
type_synonym u16 = "16 word"
type_synonym u32 = "32 word"
type_synonym u64 = "64 word"

text \<open>
  \<open>int64_t\<close> is a 64-bit word read with \<open>sint\<close>; arithmetic on it wraps as the RV32 code does.
\<close>

type_synonym i64 = "64 word"

named_theorems wf_intro \<open>operations keep the well-formedness of their state\<close>
named_theorems frame_simps \<open>what an operation does not change\<close>

text \<open>C division truncates towards zero.\<close>

definition c_div :: "int \<Rightarrow> int \<Rightarrow> int" where
  "c_div a b = sgn a * sgn b * (\<bar>a\<bar> div \<bar>b\<bar>)"

definition sdiv64 :: "i64 \<Rightarrow> i64 \<Rightarrow> i64" where
  "sdiv64 a b = word_of_int (c_div (sint a) (sint b))"

lemma c_div_nonneg: "0 \<le> a \<Longrightarrow> 0 < b \<Longrightarrow> c_div a b = a div b"
  by (cases "a = 0") (simp_all add: c_div_def)

lemma c_div_2_bounds: "2 * c_div a 2 \<in> {a - 1 .. a + 1}"
proof (cases "0 \<le> a")
  case True
  then show ?thesis by (simp add: c_div_nonneg) presburger
next
  case False
  then have "c_div a 2 = - ((- a) div 2)" by (simp add: c_div_def)
  then show ?thesis by simp presburger
qed

lemma c_div_2_between: "2 * l \<le> s \<Longrightarrow> s \<le> 2 * u \<Longrightarrow> l \<le> c_div s 2 \<and> c_div s 2 \<le> u"
proof (cases "0 \<le> s")
  case True
  then show "2 * l \<le> s \<Longrightarrow> s \<le> 2 * u \<Longrightarrow> ?thesis" by (simp add: c_div_nonneg) presburger
next
  case False
  then have "c_div s 2 = - ((- s) div 2)" by (simp add: c_div_def)
  then show "2 * l \<le> s \<Longrightarrow> s \<le> 2 * u \<Longrightarrow> ?thesis" by simp presburger
qed

lemma int_div_le: "0 \<le> a \<Longrightarrow> 0 < k \<Longrightarrow> a div k \<le> (a :: int)"
  using zdiv_mono2 [of a 1 k] by simp

abbreviation i64_range :: "int \<Rightarrow> bool" where
  "i64_range x \<equiv> - (2 ^ 63) \<le> x \<and> x < 2 ^ 63"

lemma i64_range_sint [simp]: "i64_range (sint (x :: i64))"
  using sint_greater_eq [of x] sint_lt [of x] by simp

lemma sint_word_of_int_small: "i64_range x \<Longrightarrow> sint (word_of_int x :: i64) = x"
  by (simp add: sint_sbintrunc' signed_take_bit_int_eq_self)

lemma sint_add_small: "i64_range (sint a + sint b) \<Longrightarrow> sint (a + b :: i64) = sint a + sint b"
  using sint_word_of_int_small [of "sint a + sint b"] by simp

lemma sint_diff_small: "i64_range (sint a - sint b) \<Longrightarrow> sint (a - b :: i64) = sint a - sint b"
  using sint_word_of_int_small [of "sint a - sint b"] by simp

lemma sint_sdiv64_2: "sint (sdiv64 a 2) = c_div (sint a) 2"
proof -
  have "i64_range (c_div (sint a) 2)"
    using i64_range_sint [of a] c_div_2_bounds [of "sint a"] by auto
  then show ?thesis by (simp add: sdiv64_def sint_word_of_int_small)
qed

lemma unat_of_nat_small: "n < 2 ^ LENGTH('a) \<Longrightarrow> unat (of_nat n :: 'a::len word) = n"
  by (simp add: unat_of_nat)

lemma unat_add_small:
  "unat a + unat b < 2 ^ LENGTH('a) \<Longrightarrow> unat (a + b :: 'a::len word) = unat a + unat b"
  by (simp add: unat_word_ariths)

section \<open>Table scans\<close>

text \<open>The loop \<open>for (i = 0; i < MAX; i++) if (P(&t[i])) return &t[i];\<close>: the index found.\<close>

primrec find_index :: "('a \<Rightarrow> bool) \<Rightarrow> 'a list \<Rightarrow> nat option" where
  "find_index P [] = None"
| "find_index P (x # xs) = (if P x then Some 0 else map_option Suc (find_index P xs))"

lemma find_index_None: "find_index P xs = None \<longleftrightarrow> (\<forall>x\<in>set xs. \<not> P x)"
  by (induction xs) auto

lemma find_index_SomeD:
  "find_index P xs = Some i \<Longrightarrow> i < length xs \<and> P (xs ! i) \<and> (\<forall>j<i. \<not> P (xs ! j))"
proof (induction xs arbitrary: i)
  case (Cons x xs)
  show ?case
  proof (cases "P x")
    case False
    with Cons.prems obtain k where k: "find_index P xs = Some k" "i = Suc k" by auto
    with False Cons.IH [OF k(1)] show ?thesis by (auto simp: less_Suc_eq_0_disj)
  qed (use Cons.prems in auto)
qed simp

lemma find_index_bound: "find_index P xs = Some i \<Longrightarrow> i < length xs"
  by (simp add: find_index_SomeD)

lemma find_index_hit: "find_index P xs = Some i \<Longrightarrow> P (xs ! i)"
  by (simp add: find_index_SomeD)

lemma find_index_eq_Some:
  "i < length xs \<Longrightarrow> P (xs ! i) \<Longrightarrow> (\<And>j. j < i \<Longrightarrow> \<not> P (xs ! j)) \<Longrightarrow> find_index P xs = Some i"
proof (induction xs arbitrary: i)
  case (Cons x xs)
  show ?case
  proof (cases i)
    case 0
    with Cons.prems show ?thesis by simp
  next
    case (Suc k)
    have "\<not> P x" using Cons.prems(3) [of 0] Suc by simp
    moreover have "find_index P xs = Some k"
    proof (rule Cons.IH)
      show "\<not> P (xs ! j)" if "j < k" for j
        using Cons.prems(3) [of "Suc j"] that Suc by simp
    qed (use Cons.prems Suc in auto)
    ultimately show ?thesis using Suc by simp
  qed
qed simp

text \<open>
  The combined scan \<open>find_or_alloc_peer\<close> and \<open>ann_handler\<close> use: stop at the first entry that
  matches, remembering on the way the first free one.
\<close>

fun scan_slots :: "('a \<Rightarrow> bool) \<Rightarrow> ('a \<Rightarrow> bool) \<Rightarrow> 'a list \<Rightarrow> nat \<Rightarrow> nat option \<Rightarrow> nat option \<times> nat option"
where
  "scan_slots hit free [] i slot = (None, slot)"
| "scan_slots hit free (x # xs) i slot =
     (if hit x then (Some i, slot)
      else scan_slots hit free xs (Suc i) (if free x \<and> slot = None then Some i else slot))"

lemma map_option_0_add: "map_option ((+) (0::nat)) x = x"
  by (cases x) simp_all

lemma scan_slots_general:
  "scan_slots hit free xs i slot =
     (case find_index hit xs of
        Some k \<Rightarrow> (Some (i + k),
                  case slot of Some s \<Rightarrow> Some s
                  | None \<Rightarrow> map_option ((+) i) (find_index free (take k xs)))
      | None \<Rightarrow> (None,
                  case slot of Some s \<Rightarrow> Some s
                  | None \<Rightarrow> map_option ((+) i) (find_index free xs)))"
  by (induction xs arbitrary: i slot)
    (auto split: option.splits simp: option.map_comp o_def intro!: map_option_cong)

lemma scan_slots_hit: "fst (scan_slots hit free xs 0 None) = find_index hit xs"
  by (auto simp: scan_slots_general split: option.splits)

lemma scan_slots_miss:
  "find_index hit xs = None \<Longrightarrow> scan_slots hit free xs 0 None = (None, find_index free xs)"
  by (simp add: scan_slots_general map_option_0_add)

lemma in_set_updateD: "x \<in> set (xs[i := y]) \<Longrightarrow> x = y \<or> x \<in> set xs"
  using set_update_subset_insert [of xs i y] by auto

text \<open>A loop over \<open>xs\<close> whose body may leave C's defined behaviour.\<close>

fun fold_option :: "('b \<Rightarrow> 's \<Rightarrow> 's option) \<Rightarrow> 'b list \<Rightarrow> 's \<Rightarrow> 's option" where
  "fold_option f [] s = Some s"
| "fold_option f (x # xs) s = do { s \<leftarrow> f x s; fold_option f xs s }"

lemma fold_option_append: "fold_option f (xs @ ys) s = do { s \<leftarrow> fold_option f xs s; fold_option f ys s }"
proof (induction xs arbitrary: s)
  case (Cons x xs)
  then show ?case by (cases "f x s") simp_all
qed simp

lemma fold_option_inv:
  assumes "\<And>x s t. x \<in> set xs \<Longrightarrow> P s \<Longrightarrow> f x s = Some t \<Longrightarrow> P t"
  shows "P s \<Longrightarrow> fold_option f xs s = Some t \<Longrightarrow> P t"
  using assms by (induction xs arbitrary: s) (auto simp: bind_eq_Some_conv)

lemma fold_inv: "(\<And>x s. x \<in> set xs \<Longrightarrow> P s \<Longrightarrow> P (f x s)) \<Longrightarrow> P s \<Longrightarrow> P (fold f xs s)"
  by (induction xs arbitrary: s) auto

section \<open>Byte strings and identifiers\<close>

text \<open>\<open>memcmp\<close>: the sign of the first difference, bytes compared as unsigned.\<close>

fun memcmp :: "u8 list \<Rightarrow> u8 list \<Rightarrow> int" where
  "memcmp (a # as) (b # bs) = (if a = b then memcmp as bs else if a < b then - 1 else 1)"
| "memcmp _ _ = 0"

lemma memcmp_eq_0: "length xs = length ys \<Longrightarrow> memcmp xs ys = 0 \<longleftrightarrow> xs = ys"
  by (induction xs ys rule: memcmp.induct) auto

lemma memcmp_less: "length xs = length ys \<Longrightarrow> memcmp xs ys < 0 \<longleftrightarrow> xs < ys"
  by (induction xs ys rule: memcmp.induct) auto

text \<open>\<open>link_id_t\<close> (link.h): \<open>uint8_t bytes[8]\<close>, a node, session or channel identifier.\<close>

datatype link_id = Link_id u8 u8 u8 u8 u8 u8 u8 u8

fun id_bytes :: "link_id \<Rightarrow> u8 list" where
  "id_bytes (Link_id a b c d e f g h) = [a, b, c, d, e, f, g, h]"

text \<open>\<open>memcpy(id.bytes, p, 8)\<close>\<close>

definition id_of_bytes :: "u8 list \<Rightarrow> link_id" where
  "id_of_bytes p = Link_id (p ! 0) (p ! 1) (p ! 2) (p ! 3) (p ! 4) (p ! 5) (p ! 6) (p ! 7)"

definition zero_id :: link_id where
  "zero_id = Link_id 0 0 0 0 0 0 0 0"

lemma length_id_bytes [simp]: "length (id_bytes i) = 8"
  by (cases i) simp

lemma id_of_bytes_bytes [simp]: "id_of_bytes (id_bytes i @ rest) = i" "id_of_bytes (id_bytes i) = i"
  by (cases i; simp add: id_of_bytes_def)+

lemma id_bytes_inject [simp]: "id_bytes i = id_bytes j \<longleftrightarrow> i = j"
  by (metis id_of_bytes_bytes(2))

instantiation link_id :: linorder
begin

definition less_eq_link_id :: "link_id \<Rightarrow> link_id \<Rightarrow> bool" where
  "less_eq_link_id i j \<longleftrightarrow> id_bytes i \<le> id_bytes j"

definition less_link_id :: "link_id \<Rightarrow> link_id \<Rightarrow> bool" where
  "less_link_id i j \<longleftrightarrow> id_bytes i < id_bytes j"

instance
  by standard (auto simp: less_eq_link_id_def less_link_id_def simp flip: id_bytes_inject)

end

text \<open>\<open>memcmp(a.bytes, b.bytes, 8)\<close> separates and orders the identifiers.\<close>

definition id_cmp :: "link_id \<Rightarrow> link_id \<Rightarrow> int" where
  "id_cmp i j = memcmp (id_bytes i) (id_bytes j)"

lemma id_cmp_eq_0 [simp]: "id_cmp i j = 0 \<longleftrightarrow> i = j"
  by (simp add: id_cmp_def memcmp_eq_0)

lemma id_cmp_less [simp]: "id_cmp i j < 0 \<longleftrightarrow> i < j"
  by (simp add: id_cmp_def memcmp_less less_link_id_def)

section \<open>Tables keyed by an identifier\<close>

text \<open>No two used entries of a table carry the same identifier.\<close>

definition distinct_keys :: "('r \<Rightarrow> bool) \<Rightarrow> ('r \<Rightarrow> link_id) \<Rightarrow> 'r list \<Rightarrow> bool" where
  "distinct_keys used key xs \<longleftrightarrow>
     (\<forall>i<length xs. \<forall>j<length xs. used (xs ! i) \<and> used (xs ! j) \<and> key (xs ! i) = key (xs ! j) \<longrightarrow> i = j)"

lemma distinct_keysD:
  "distinct_keys used key xs \<Longrightarrow> i < length xs \<Longrightarrow> j < length xs \<Longrightarrow> used (xs ! i) \<Longrightarrow> used (xs ! j) \<Longrightarrow>
   key (xs ! i) = key (xs ! j) \<Longrightarrow> i = j"
  unfolding distinct_keys_def by blast

text \<open>
  The interface of the firmware's flat tables (peers, remote channels): an entry is free or carries
  an identifier, and a slot is taken by writing an entry with the wanted identifier into it.
\<close>

locale slot_table =
  fixes used :: "'r \<Rightarrow> bool" and key :: "'r \<Rightarrow> link_id" and free :: 'r
    and claim :: "link_id \<Rightarrow> 'r \<Rightarrow> 'r"
  assumes free_unused: "\<not> used free"
    and claim_used: "used (claim k r)"
    and claim_key: "key (claim k r) = k"
begin

lemma distinct_free: "distinct_keys used key (replicate n free)"
  by (simp add: distinct_keys_def free_unused)

lemma distinct_claim:
  assumes "distinct_keys used key xs" "find_index (\<lambda>r. used r \<and> key r = k) xs = None" "i < length xs"
  shows "distinct_keys used key (xs[i := claim k r])"
proof -
  have "\<not> (used (xs ! j) \<and> key (xs ! j) = k)" if "j < length xs" for j
    using assms(2) that by (auto simp: find_index_None)
  then show ?thesis
    using assms(1,3) by (auto simp: distinct_keys_def nth_list_update claim_key)
qed

lemma distinct_release:
  "distinct_keys used key xs \<Longrightarrow> \<not> used r \<Longrightarrow> distinct_keys used key (xs[i := r])"
proof (cases "i < length xs")
  case True
  assume "distinct_keys used key xs" and r: "\<not> used r"
  then show ?thesis
    unfolding distinct_keys_def
    by (metis length_list_update nth_list_update_eq nth_list_update_neq)
qed (simp add: list_update_beyond)

lemma distinct_rewrite:
  assumes "distinct_keys used key xs" "used r = used (xs ! i)" "key r = key (xs ! i)"
  shows "distinct_keys used key (xs[i := r])"
proof -
  have "used (xs[i := r] ! j) = used (xs ! j)" "key (xs[i := r] ! j) = key (xs ! j)" for j
    by (metis assms(2,3) list_update_beyond not_le nth_list_update_eq nth_list_update_neq)+
  then show ?thesis
    using assms(1) unfolding distinct_keys_def by (metis length_list_update)
qed

lemma distinct_map:
  assumes "distinct_keys used key xs" "\<And>r. used (f r) \<Longrightarrow> used r \<and> key (f r) = key r"
  shows "distinct_keys used key (map f xs)"
  unfolding distinct_keys_def
proof (intro allI impI)
  fix i j
  assume "i < length (map f xs)" "j < length (map f xs)"
    and "used (map f xs ! i) \<and> used (map f xs ! j) \<and> key (map f xs ! i) = key (map f xs ! j)"
  then show "i = j"
    using assms(2) [of "xs ! i"] assms(2) [of "xs ! j"] by (intro distinct_keysD [OF assms(1)]) auto
qed

lemma release_gone:
  assumes "distinct_keys used key xs" "i < length xs" "used (xs ! i)" "r \<in> set (xs[i := free])" "used r"
  shows "key r \<noteq> key (xs ! i)"
proof -
  obtain j where j: "j < length xs" "r = xs[i := free] ! j"
    using assms(4) by (auto simp: in_set_conv_nth)
  then have "j \<noteq> i" using assms(2,5) free_unused by auto
  with j assms show ?thesis
    using distinct_keysD [OF assms(1), of j i] by auto
qed

lemma find_own:
  assumes "distinct_keys used key xs" "i < length xs" "used (xs ! i)"
  shows "find_index (\<lambda>r. used r \<and> key r = key (xs ! i)) xs = Some i"
proof (rule find_index_eq_Some)
  show "\<not> (used (xs ! j) \<and> key (xs ! j) = key (xs ! i))" if "j < i" for j
    using distinct_keysD [OF assms(1), of j i] assms(2,3) that by fastforce
qed (use assms in auto)

end

section \<open>Tables as finite maps\<close>

text \<open>
  What a table of distinct used entries stands for: the map from identifiers to entries.
\<close>

definition lookup :: "('r \<Rightarrow> bool) \<Rightarrow> ('r \<Rightarrow> 'k) \<Rightarrow> 'r list \<Rightarrow> 'k \<Rightarrow> 'r option" where
  "lookup used key xs k = map_option (nth xs) (find_index (\<lambda>r. used r \<and> key r = k) xs)"

lemma lookup_Some:
  assumes "distinct_keys used key xs"
  shows "lookup used key xs k = Some r \<longleftrightarrow> r \<in> set xs \<and> used r \<and> key r = k"
proof -
  have "r \<in> set xs \<and> used r \<and> key r = k" if "lookup used key xs k = Some r"
    using that by (auto simp: lookup_def dest: find_index_SomeD find_index_bound)
  moreover have "lookup used key xs k = Some r" if "r \<in> set xs" "used r" "key r = k"
  proof -
    from that(1) obtain i where i: "i < length xs" "xs ! i = r" by (auto simp: in_set_conv_nth)
    have "find_index (\<lambda>r. used r \<and> key r = k) xs = Some i"
    proof (rule find_index_eq_Some)
      show "\<not> (used (xs ! j) \<and> key (xs ! j) = k)" if "j < i" for j
        using distinct_keysD [OF assms, of j i] that i \<open>used r\<close> \<open>key r = k\<close> by auto
    qed (use i that in auto)
    then show ?thesis by (simp add: lookup_def i)
  qed
  ultimately show ?thesis by blast
qed

lemma lookup_None: "lookup used key xs k = None \<longleftrightarrow> (\<forall>r\<in>set xs. used r \<longrightarrow> key r \<noteq> k)"
  by (auto simp: lookup_def find_index_None)

lemma lookup_cong:
  assumes "distinct_keys used key xs" "distinct_keys used key ys"
    "\<And>r. used r \<Longrightarrow> key r = k \<Longrightarrow> r \<in> set xs \<longleftrightarrow> r \<in> set ys"
  shows "lookup used key xs k = lookup used key ys k"
proof (cases "lookup used key ys k")
  case None
  then have "\<forall>r\<in>set ys. used r \<longrightarrow> key r \<noteq> k" by (simp only: lookup_None)
  then have "\<forall>r\<in>set xs. used r \<longrightarrow> key r \<noteq> k" using assms(3) by metis
  then show ?thesis unfolding None by (simp only: lookup_None)
next
  case (Some r)
  then have "r \<in> set ys \<and> used r \<and> key r = k" by (simp only: lookup_Some [OF assms(2)])
  then have "r \<in> set xs \<and> used r \<and> key r = k" using assms(3) by metis
  then show ?thesis unfolding Some by (simp only: lookup_Some [OF assms(1)])
qed

lemma set_update_iff:
  assumes "i < length xs"
  shows "r \<in> set (xs[i := x]) \<longleftrightarrow> r = x \<or> (\<exists>j<length xs. j \<noteq> i \<and> r = xs ! j)"
proof
  assume "r \<in> set (xs[i := x])"
  then obtain j where "j < length xs" "r = xs[i := x] ! j" by (auto simp: in_set_conv_nth)
  then show "r = x \<or> (\<exists>j<length xs. j \<noteq> i \<and> r = xs ! j)" by (cases "j = i") auto
next
  assume "r = x \<or> (\<exists>j<length xs. j \<noteq> i \<and> r = xs ! j)"
  then show "r \<in> set (xs[i := x])"
  proof
    assume "\<exists>j<length xs. j \<noteq> i \<and> r = xs ! j"
    then obtain j where "j < length (xs[i := x])" "xs[i := x] ! j = r" by auto
    then show ?thesis using nth_mem by blast
  qed (simp add: assms set_update_memI)
qed

text \<open>Writing an entry in its own slot, or in a free slot under a new identifier.\<close>

lemma lookup_write:
  assumes "distinct_keys used key xs" "i < length xs" "used r"
    "used (xs ! i) \<and> key (xs ! i) = key r \<or> \<not> used (xs ! i) \<and> lookup used key xs (key r) = None"
  shows "distinct_keys used key (xs[i := r]) \<and> lookup used key (xs[i := r]) = (lookup used key xs)(key r \<mapsto> r)"
proof
  show d: "distinct_keys used key (xs[i := r])"
    unfolding distinct_keys_def
  proof (intro allI impI, elim conjE)
    fix a b
    assume "a < length (xs[i := r])" "b < length (xs[i := r])" "used (xs[i := r] ! a)" "used (xs[i := r] ! b)"
      "key (xs[i := r] ! a) = key (xs[i := r] ! b)"
    then show "a = b"
      using assms distinct_keysD [OF assms(1), of a b] distinct_keysD [OF assms(1), of i b] distinct_keysD [OF assms(1), of a i]
      by (auto simp: nth_list_update lookup_None split: if_splits)
  qed
  show "lookup used key (xs[i := r]) = (lookup used key xs)(key r \<mapsto> r)"
  proof
    fix k
    show "lookup used key (xs[i := r]) k = ((lookup used key xs)(key r \<mapsto> r)) k"
    proof (cases "k = key r")
      case True
      then show ?thesis using assms(2,3) by (simp add: lookup_Some [OF d] set_update_memI)
    next
      case False
      have "x \<in> set (xs[i := r]) \<longleftrightarrow> x \<in> set xs" if "used x" "key x = k" for x
        using that False assms(4) unfolding set_update_iff [OF assms(2)] by (metis in_set_conv_nth)
      with False show ?thesis by (simp add: lookup_cong [OF d assms(1)])
    qed
  qed
qed

text \<open>Freeing the entries with one identifier.\<close>

lemma lookup_drop:
  assumes "distinct_keys used key xs"
    "\<And>r. \<not> (used r \<and> key r = k) \<Longrightarrow> f r = r" "\<And>r. used r \<Longrightarrow> key r = k \<Longrightarrow> \<not> used (f r)"
  shows "distinct_keys used key (map f xs) \<and> lookup used key (map f xs) = (lookup used key xs)(k := None)"
proof
  have keep: "used (f r) \<Longrightarrow> f r = r \<and> key r \<noteq> k" for r using assms(2,3) by metis
  show d: "distinct_keys used key (map f xs)"
    using assms(1) keep unfolding distinct_keys_def by (metis length_map nth_map)
  show "lookup used key (map f xs) = (lookup used key xs)(k := None)"
  proof
    fix j
    have "x \<in> set (map f xs) \<longleftrightarrow> x \<in> set xs" if "used x" "key x \<noteq> k" for x
      using keep that assms(2) by (metis image_eqI image_iff list.set_map)
    moreover have "lookup used key (map f xs) k = None"
      unfolding lookup_None using keep by (metis (no_types, lifting) imageE list.set_map)
    ultimately show "lookup used key (map f xs) j = ((lookup used key xs)(k := None)) j"
      by (cases "j = k") (simp_all add: lookup_cong [OF d assms(1)])
  qed
qed

section \<open>Bounded queues\<close>

text \<open>
  The interface of a ring buffer that overwrites its oldest entry: what the two operations do to the
  list of entries held. Its client facts are about runs of operations.
\<close>

definition latest :: "nat \<Rightarrow> 'a list \<Rightarrow> 'a list" where
  "latest n xs = drop (length xs - n) xs"

lemma latest_short [simp]: "length xs \<le> n \<Longrightarrow> latest n xs = xs"
  by (simp add: latest_def)

lemma length_latest [simp]: "length (latest n xs) = min n (length xs)"
  by (simp add: latest_def)

lemma latest_snoc: "latest n (latest n xs @ [x]) = latest n (xs @ [x])"
  by (cases "n < length xs") (auto simp: latest_def Suc_diff_le)

lemma latest_append: "latest n (latest n xs @ ys) = latest n (xs @ ys)"
proof (induction ys rule: rev_induct)
  case (snoc y ys)
  have "latest n (latest n xs @ ys @ [y]) = latest n (latest n (latest n xs @ ys) @ [y])"
    by (simp add: latest_snoc)
  also have "\<dots> = latest n (xs @ ys @ [y])"
    unfolding snoc.IH by (simp add: latest_snoc)
  finally show ?case by simp
qed (cases "n < length xs", simp_all add: latest_def)

locale bounded_queue =
  fixes push :: "'a \<Rightarrow> 'q \<Rightarrow> 'q"
    and pop :: "'q \<Rightarrow> ('a \<times> 'q) option"
    and items :: "'q \<Rightarrow> 'a list"
    and ok :: "'q \<Rightarrow> bool"
    and cap :: nat
  assumes push_ok: "ok q \<Longrightarrow> ok (push x q)"
    and push_items: "ok q \<Longrightarrow> items (push x q) = latest cap (items q @ [x])"
    and items_bound: "ok q \<Longrightarrow> length (items q) \<le> cap"
    and pop_items: "ok q \<Longrightarrow> case pop q of None \<Rightarrow> items q = [] | Some (x, r) \<Rightarrow> ok r \<and> items q = x # items r"
begin

lemma push_all: "ok q \<Longrightarrow> ok (fold push xs q) \<and> items (fold push xs q) = latest cap (items q @ xs)"
proof (induction xs rule: rev_induct)
  case (snoc x xs)
  then show ?case by (simp add: push_ok push_items latest_snoc)
qed (simp add: items_bound)

lemma pop_None: "ok q \<Longrightarrow> pop q = None \<longleftrightarrow> items q = []"
  using pop_items [of q] by (auto split: option.splits)

lemma pop_Some: "ok q \<Longrightarrow> items q = x # xs \<Longrightarrow> \<exists>r. pop q = Some (x, r) \<and> ok r \<and> items r = xs"
  using pop_items [of q] by (auto split: option.splits)

text \<open>Everything pushed comes out in order, as long as it fits.\<close>

lemma first_out: "ok q \<Longrightarrow> items q = [] \<Longrightarrow> length (x # xs) \<le> cap \<Longrightarrow>
  \<exists>r. pop (fold push (x # xs) q) = Some (x, r) \<and> ok r \<and> items r = xs"
  using push_all [of q "x # xs"] by (intro pop_Some) auto

end

end
