(* ===== verification/Tlv.thy ===== *)
theory Tlv
  imports Prelude
begin

text \<open>
  \<^verbatim>\<open>firmware/tlv.h\<close> and \<^verbatim>\<open>firmware/tlv.c\<close>: the big-endian accessors, the TLV encoders and the
  walker \<open>tlv_walk\<close> that every receive path of the firmware runs over untrusted bytes.

  A message under construction is the byte list from the start of the buffer to \<open>*pp\<close>, so an
  encoder appends. A received buffer is the byte list from the walker's pointer to \<open>end\<close>.

  The walker is modelled twice. \<open>tlv_walk\<close> carries the address of its pointer and is \<open>None\<close> as soon
  as \<open>vp + size\<close> (or \<open>p + 8\<close>) would not fit in 32 bits, where C gives the comparison no meaning.
  \<open>tlv_walk_rv32\<close> is the loop as the 32-bit target runs it, over a flat memory with wrapping
  pointers; \<open>None\<close> there is a loop that does not return.
\<close>

unbundle bit_operations_syntax

section \<open>Big-endian accessors\<close>

definition be16 :: "u8 list \<Rightarrow> u16" where
  "be16 p = push_bit 8 (ucast (p ! 0)) OR ucast (p ! 1)"

definition be32 :: "u8 list \<Rightarrow> u32" where
  "be32 p = push_bit 24 (ucast (p ! 0)) OR push_bit 16 (ucast (p ! 1))
            OR push_bit 8 (ucast (p ! 2)) OR ucast (p ! 3)"

definition be64 :: "u8 list \<Rightarrow> u64" where
  "be64 p = push_bit 32 (ucast (be32 p)) OR ucast (be32 (drop 4 p))"

definition put_be16 :: "u16 \<Rightarrow> u8 list" where
  "put_be16 v = [ucast (drop_bit 8 v), ucast v]"

definition put_be32 :: "u32 \<Rightarrow> u8 list" where
  "put_be32 v = [ucast (drop_bit 24 v), ucast (drop_bit 16 v), ucast (drop_bit 8 v), ucast v]"

definition put_be64 :: "u64 \<Rightarrow> u8 list" where
  "put_be64 v = put_be32 (ucast (drop_bit 32 v)) @ put_be32 (ucast v)"

lemma length_put_be [simp]:
  "length (put_be16 a) = 2" "length (put_be32 b) = 4" "length (put_be64 c) = 8"
  by (simp_all add: put_be16_def put_be32_def put_be64_def)

lemma be16_put [simp]: "be16 (put_be16 v @ rest) = v"
  unfolding be16_def put_be16_def
  by (rule bit_word_eqI) (auto simp: bit_simps)

lemma u32_of_bytes:
  "push_bit 24 (ucast (ucast (drop_bit 24 v) :: u8)) OR push_bit 16 (ucast (ucast (drop_bit 16 v) :: u8))
   OR push_bit 8 (ucast (ucast (drop_bit 8 v) :: u8)) OR ucast (ucast v :: u8) = (v :: u32)" (is "?bytes = v")
proof (rule bit_word_eqI)
  fix n :: nat
  assume n: "n < LENGTH(32)"
  have "16 + (n - 16) = n" if "16 \<le> n" using that by simp
  moreover have "8 + (n - 8) = n" if "8 \<le> n" using that by simp
  moreover have "24 + (n - 24) = n" if "24 \<le> n" using that by simp
  moreover have "n < 8 \<or> 8 \<le> n \<and> n < 16 \<or> 16 \<le> n \<and> n < 24 \<or> 24 \<le> n" by linarith
  ultimately show "bit ?bytes n = bit v n"
    using n by (elim disjE conjE) (auto simp: bit_simps)
qed

lemma be32_put [simp]: "be32 (put_be32 v @ rest) = v"
  using u32_of_bytes [of v] by (simp add: be32_def put_be32_def)

lemma be64_put [simp]: "be64 (put_be64 v @ rest) = v"
proof -
  have "drop 4 (put_be64 v @ rest) = put_be32 (ucast v) @ rest"
    by (simp add: put_be64_def)
  moreover have "be32 (put_be64 v @ rest) = ucast (drop_bit 32 v)"
    by (simp add: put_be64_def)
  ultimately have "be64 (put_be64 v @ rest) = push_bit 32 (ucast (ucast (drop_bit 32 v) :: u32)) OR ucast (ucast v :: u32)"
    by (simp add: be64_def)
  also have "\<dots> = v"
    by (rule bit_word_eqI) (auto simp: bit_simps)
  finally show ?thesis .
qed

lemma bytes_of_u32:
  fixes a b c d :: u8
  defines "w \<equiv> push_bit 24 (ucast a) OR push_bit 16 (ucast b) OR push_bit 8 (ucast c) OR (ucast d :: u32)"
  shows "ucast (drop_bit 24 w) = a" "ucast (drop_bit 16 w) = b" "ucast (drop_bit 8 w) = c" "ucast w = d"
  unfolding w_def by (rule bit_word_eqI; auto simp: bit_simps dest: bit_imp_le_length)+

lemma put_be32_be32: "4 \<le> length p \<Longrightarrow> put_be32 (be32 p) = take 4 p"
proof -
  assume "4 \<le> length p"
  then have "take 4 p = [p ! 0, p ! 1, p ! 2, p ! 3]"
    by (intro nth_equalityI) (auto simp: less_Suc_eq numeral_eq_Suc)
  then show ?thesis
    using bytes_of_u32 [of "p ! 0" "p ! 1" "p ! 2" "p ! 3"] by (simp add: put_be32_def be32_def)
qed

text \<open>The accessors read their bytes and nothing after them.\<close>

lemma be16_cong: assumes "take 2 p = take 2 q" shows "be16 p = be16 q"
proof -
  have "p ! i = q ! i" if "i < 2" for i
    using assms that by (metis nth_take)
  then show ?thesis by (simp add: be16_def)
qed

lemma be32_cong: assumes "take 4 p = take 4 q" shows "be32 p = be32 q"
proof -
  have "p ! i = q ! i" if "i < 4" for i
    using assms that by (metis nth_take)
  then show ?thesis by (simp add: be32_def)
qed

lemma be64_cong: assumes "take 8 p = take 8 q" shows "be64 p = be64 q"
proof -
  have "take 4 p = take 4 q" "take 4 (drop 4 p) = take 4 (drop 4 q)"
    using arg_cong [OF assms, of "take 4"] arg_cong [OF assms, of "drop 4"]
    by (simp_all add: min_def drop_take)
  then show ?thesis
    unfolding be64_def by (metis be32_cong)
qed

text \<open>A value cut to its declared length reads the same.\<close>

lemma be_take:
  "2 \<le> n \<Longrightarrow> be16 (take n v) = be16 v"
  "4 \<le> n \<Longrightarrow> be32 (take n v) = be32 v"
  "8 \<le> n \<Longrightarrow> be64 (take n v) = be64 v"
  by (auto intro!: be16_cong be32_cong be64_cong simp: min_absorb1)

lemma id_of_bytes_take: "8 \<le> n \<Longrightarrow> id_of_bytes (take n v) = id_of_bytes v"
  by (simp add: id_of_bytes_def)

section \<open>Encoders\<close>

definition tlv_emit_header :: "u32 \<Rightarrow> u32 \<Rightarrow> u8 list \<Rightarrow> u8 list" where
  "tlv_emit_header key sz p = p @ put_be32 key @ put_be32 sz"

definition tlv_emit_u8 :: "u32 \<Rightarrow> u8 \<Rightarrow> u8 list \<Rightarrow> u8 list" where
  "tlv_emit_u8 key v p = tlv_emit_header key 1 p @ [v]"

definition tlv_emit_u32be :: "u32 \<Rightarrow> u32 \<Rightarrow> u8 list \<Rightarrow> u8 list" where
  "tlv_emit_u32be key v p = tlv_emit_header key 4 p @ put_be32 v"

definition tlv_emit_u64be :: "u32 \<Rightarrow> u64 \<Rightarrow> u8 list \<Rightarrow> u8 list" where
  "tlv_emit_u64be key v p = tlv_emit_header key 8 p @ put_be64 v"

text \<open>The copy loop of \<open>tlv_emit_bytes\<close> reads \<open>n\<close> bytes of \<open>src\<close>.\<close>

definition tlv_emit_bytes :: "u32 \<Rightarrow> u8 list \<Rightarrow> u32 \<Rightarrow> u8 list \<Rightarrow> u8 list" where
  "tlv_emit_bytes key src n p =
     tlv_emit_header key n p @ map (\<lambda>i. src ! i) [0..<unat n]"

text \<open>One encoded entry, and a payload as the concatenation of its entries (spec section 3.6).\<close>

definition tlv_entry :: "u32 \<times> u8 list \<Rightarrow> u8 list" where
  "tlv_entry e = put_be32 (fst e) @ put_be32 (of_nat (length (snd e))) @ snd e"

definition tlv_payload :: "(u32 \<times> u8 list) list \<Rightarrow> u8 list" where
  "tlv_payload es = concat (map tlv_entry es)"

lemma tlv_payload_simps [simp]:
  "tlv_payload [] = []"
  "tlv_payload (e # es) = tlv_entry e @ tlv_payload es"
  "tlv_payload (es @ fs) = tlv_payload es @ tlv_payload fs"
  by (simp_all add: tlv_payload_def)

lemma length_tlv_entry [simp]: "length (tlv_entry e) = 8 + length (snd e)"
  by (simp add: tlv_entry_def)

lemma tlv_entry_fields:
  "be32 (tlv_entry e @ rest) = fst e"
  "be32 (drop 4 (tlv_entry e @ rest)) = of_nat (length (snd e))"
  "drop 8 (tlv_entry e @ rest) = snd e @ rest"
  by (simp_all add: tlv_entry_def)

text \<open>Every encoder appends exactly one entry.\<close>

lemma tlv_emit_entries:
  "tlv_emit_u8 key a p = p @ tlv_entry (key, [a])"
  "tlv_emit_u32be key b p = p @ tlv_entry (key, put_be32 b)"
  "tlv_emit_u64be key c p = p @ tlv_entry (key, put_be64 c)"
  by (simp_all add: tlv_emit_u8_def tlv_emit_u32be_def tlv_emit_u64be_def tlv_emit_header_def
      tlv_entry_def)

lemma tlv_emit_header_entry:
  "tlv_emit_header key sz p @ v = p @ tlv_entry (key, v)" if "sz = of_nat (length v)"
  by (simp add: tlv_emit_header_def tlv_entry_def that)

lemma tlv_emit_bytes_entry:
  "tlv_emit_bytes key src n p = p @ tlv_entry (key, src)" if "length src = unat n"
proof -
  have "map (\<lambda>i. src ! i) [0..<unat n] = src"
    by (simp flip: that add: map_nth)
  then show ?thesis
    by (simp add: tlv_emit_bytes_def tlv_emit_header_def tlv_entry_def that)
qed

section \<open>The walker\<close>

text \<open>
  A callback gets the key, the bytes from the value to the end of the received buffer and \<open>vlen\<close>;
  it returns its C result and the updated context, or \<open>None\<close> if it reads outside the buffer.
\<close>

type_synonym 'c tlv_cb = "u32 \<Rightarrow> u8 list \<Rightarrow> u32 \<Rightarrow> 'c \<Rightarrow> (int \<times> 'c) option"

function (sequential) tlv_walk :: "u32 \<Rightarrow> 'c tlv_cb \<Rightarrow> u8 list \<Rightarrow> 'c \<Rightarrow> (int \<times> 'c) option" where
  "tlv_walk a cb p ctx =
     (if 2 ^ 32 \<le> unat a + 8 then None
      else if length p < 8 then Some (if p = [] then 0 else - 1, ctx)
      else let key = be32 p; sz = be32 (drop 4 p); vp = drop 8 p in
        if 2 ^ 32 \<le> unat a + 8 + unat sz then None
        else if length vp < unat sz then Some (- 1, ctx)
        else do {
          (r, ctx') \<leftarrow> cb key vp sz ctx;
          if r \<noteq> 0 then Some (- 1, ctx')
          else tlv_walk (a + 8 + sz) cb (drop (unat sz) vp) ctx'
        })"
  by pat_completeness auto
termination
  by (relation "measure (\<lambda>(a, cb, p, ctx). length p)") auto

declare tlv_walk.simps [simp del]

text \<open>The fields of the entry a pointer stands at, and the four ways one turn of the loop can go.\<close>

abbreviation tlv_key :: "u8 list \<Rightarrow> u32" where "tlv_key p \<equiv> be32 p"
abbreviation tlv_size :: "u8 list \<Rightarrow> u32" where "tlv_size p \<equiv> be32 (drop 4 p)"
abbreviation tlv_next :: "u8 list \<Rightarrow> u8 list" where "tlv_next p \<equiv> drop (unat (tlv_size p)) (drop 8 p)"

lemma tlv_walk_end:
  "unat a + 8 < 2 ^ 32 \<Longrightarrow> length p < 8 \<Longrightarrow>
   tlv_walk a cb p ctx = Some (if p = [] then 0 else - 1, ctx)"
  by (subst tlv_walk.simps) simp

lemma tlv_walk_short:
  "unat a + 8 + unat (tlv_size p) < 2 ^ 32 \<Longrightarrow> 8 \<le> length p \<Longrightarrow> length p - 8 < unat (tlv_size p) \<Longrightarrow>
   tlv_walk a cb p ctx = Some (- 1, ctx)"
  by (subst tlv_walk.simps) (simp add: Let_def)

lemma tlv_walk_step:
  "unat a + 8 + unat (tlv_size p) < 2 ^ 32 \<Longrightarrow> 8 \<le> length p \<Longrightarrow> unat (tlv_size p) \<le> length p - 8 \<Longrightarrow>
   tlv_walk a cb p ctx = do {
     (r, ctx') \<leftarrow> cb (tlv_key p) (drop 8 p) (tlv_size p) ctx;
     if r \<noteq> 0 then Some (- 1, ctx') else tlv_walk (a + 8 + tlv_size p) cb (tlv_next p) ctx'
   }"
  by (subst tlv_walk.simps) (simp add: Let_def)

lemma tlv_walk_SomeE:
  assumes "tlv_walk a cb p ctx = Some (r, ctx')"
  obtains (stop) "length p < 8" "ctx' = ctx" "r = (if p = [] then 0 else - 1)"
  | (short) "8 \<le> length p" "length p - 8 < unat (tlv_size p)" "ctx' = ctx" "r = - 1"
  | (reject) x where "8 \<le> length p" "unat (tlv_size p) \<le> length p - 8"
      "cb (tlv_key p) (drop 8 p) (tlv_size p) ctx = Some (x, ctx')" "x \<noteq> 0" "r = - 1"
  | (step) ctx1 where "8 \<le> length p" "unat (tlv_size p) \<le> length p - 8"
      "unat a + 8 + unat (tlv_size p) < 2 ^ 32"
      "cb (tlv_key p) (drop 8 p) (tlv_size p) ctx = Some (0, ctx1)"
      "tlv_walk (a + 8 + tlv_size p) cb (tlv_next p) ctx1 = Some (r, ctx')"
proof -
  have a: "unat a + 8 < 2 ^ 32"
    using assms by (subst (asm) tlv_walk.simps) (auto split: if_splits)
  show thesis
  proof (cases "length p < 8")
    case True
    with assms a stop show thesis by (auto simp: tlv_walk_end)
  next
    case False
    then have b: "unat a + 8 + unat (tlv_size p) < 2 ^ 32"
      using assms a by (subst (asm) tlv_walk.simps) (auto simp: Let_def split: if_splits)
    show thesis
    proof (cases "length p - 8 < unat (tlv_size p)")
      case True
      with assms b False short show thesis by (simp add: tlv_walk_short)
    next
      case fits: False
      with assms b False obtain x c where cb: "cb (tlv_key p) (drop 8 p) (tlv_size p) ctx = Some (x, c)"
        and rest: "(if x \<noteq> 0 then Some (- 1, c)
                    else tlv_walk (a + 8 + tlv_size p) cb (tlv_next p) c) = Some (r, ctx')"
        by (auto simp: tlv_walk_step bind_eq_Some_conv)
      show thesis
      proof (cases "x = 0")
        case True
        with cb rest fits False b show thesis by (intro step) auto
      next
        case nonzero: False
        with cb rest fits False show thesis by (intro reject [of x]) auto
      qed
    qed
  qed
qed

text \<open>The loop over a flat 32-bit memory; \<open>None\<close> is a loop that does not return.\<close>

definition mem_be32 :: "(u32 \<Rightarrow> u8) \<Rightarrow> u32 \<Rightarrow> u32" where
  "mem_be32 mem p = be32 [mem p, mem (p + 1), mem (p + 2), mem (p + 3)]"

partial_function (option) tlv_walk_rv32 ::
  "(u32 \<Rightarrow> u8) \<Rightarrow> (u32 \<Rightarrow> u32 \<Rightarrow> u32 \<Rightarrow> 'c \<Rightarrow> int \<times> 'c) \<Rightarrow> u32 \<Rightarrow> u32 \<Rightarrow> 'c \<Rightarrow> (int \<times> 'c) option"
where
  "tlv_walk_rv32 mem cb p lim ctx =
     (if p + 8 \<le> lim then
        let key = mem_be32 mem p; sz = mem_be32 mem (p + 4); vp = p + 8 in
        if lim < vp + sz then Some (- 1, ctx)
        else case cb key vp sz ctx of (r, ctx') \<Rightarrow>
          if r \<noteq> 0 then Some (- 1, ctx') else tlv_walk_rv32 mem cb (vp + sz) lim ctx'
      else Some (if p = lim then 0 else - 1, ctx))"

section \<open>What a callback promises, and what the walk then delivers\<close>

text \<open>No header on the walk has a size that carries the pointer out of the address space.\<close>

function (sequential) tlv_no_wrap :: "u32 \<Rightarrow> u8 list \<Rightarrow> bool" where
  "tlv_no_wrap a p =
     (if length p < 8 then unat a + 8 < 2 ^ 32
      else unat a + 8 + unat (tlv_size p) < 2 ^ 32 \<and>
           (if unat (tlv_size p) \<le> length p - 8
            then tlv_no_wrap (a + 8 + tlv_size p) (tlv_next p) else True))"
  by pat_completeness auto
termination
  by (relation "measure (\<lambda>(a, p). length p)") auto

declare tlv_no_wrap.simps [simp del]

text \<open>The entries of a payload handed to the callback in order, stopping at the first rejection.\<close>

fun tlv_fold :: "'c tlv_cb \<Rightarrow> (u32 \<times> u8 list) list \<Rightarrow> 'c \<Rightarrow> (int \<times> 'c) option" where
  "tlv_fold cb [] ctx = Some (0, ctx)"
| "tlv_fold cb ((key, v) # es) ctx = do {
     (r, ctx') \<leftarrow> cb key v (of_nat (length v)) ctx;
     if r \<noteq> 0 then Some (- 1, ctx') else tlv_fold cb es ctx'
   }"

text \<open>
  A callback that reads its own value only, on the entries at hand, is given every entry of an
  encoded payload in order.
\<close>

lemma walk_payload_local:
  assumes "\<And>key v rest c. (key, v) \<in> set es \<Longrightarrow> length v < 2 ^ 32 \<Longrightarrow>
      cb key (v @ rest) (of_nat (length v)) c = cb key v (of_nat (length v)) c"
    and "unat a + length (tlv_payload es) + 8 < 2 ^ 32"
  shows "tlv_walk a cb (tlv_payload es) ctx = tlv_fold cb es ctx"
  using assms
proof (induction es arbitrary: a ctx)
  case Nil
  then show ?case by (simp add: tlv_walk_end)
next
  case (Cons e es)
  obtain key v where e: "e = (key, v)" by (cases e)
  define p where "p = tlv_payload (e # es)"
  let ?n = "of_nat (length v) :: u32"
  have n: "unat ?n = length v"
    using Cons.prems e by (simp add: unat_of_nat_small)
  have len: "length p = 8 + length v + length (tlv_payload es)" "unat a + length p + 8 < 2 ^ 32"
    using Cons.prems by (simp_all add: p_def e)
  have p: "p = tlv_entry (key, v) @ tlv_payload es" by (simp add: p_def e)
  have fields: "tlv_key p = key" "tlv_size p = ?n" "drop 8 p = v @ tlv_payload es"
    unfolding p tlv_entry_fields by simp_all
  have nxt: "drop (unat ?n) (v @ tlv_payload es) = tlv_payload es"
    using n by simp
  have "unat (a + 8 + ?n) = unat a + 8 + length v"
    using len n by (simp add: unat_add_small)
  then have rest: "tlv_walk (a + 8 + ?n) cb (tlv_payload es) c = tlv_fold cb es c" for c
    using len Cons.prems(1) by (intro Cons.IH) simp_all
  have local: "cb key (v @ tlv_payload es) ?n ctx = cb key v ?n ctx"
    using Cons.prems by (intro Cons.prems(1)) (simp_all add: e)
  have "tlv_walk a cb p ctx = tlv_fold cb (e # es) ctx"
    using len n by (subst tlv_walk_step; simp only: fields nxt rest local e tlv_fold.simps)
      (simp_all add: rest cong: if_cong)
  then show ?case by (simp only: p_def)
qed

text \<open>
  The contract of a callback: it keeps an invariant of its context. A safe callback moreover
  reads its own value only.
\<close>

locale tlv_reader =
  fixes cb :: "'c tlv_cb" and Inv :: "'c \<Rightarrow> bool"
  assumes cb_keeps:
    "Inv ctx \<Longrightarrow> unat n \<le> length v \<Longrightarrow> cb key v n ctx = Some (r, ctx') \<Longrightarrow> Inv ctx'"
begin

lemma walk_keeps: "Inv ctx \<Longrightarrow> tlv_walk a cb p ctx = Some (r, ctx') \<Longrightarrow> Inv ctx'"
proof (induction "length p" arbitrary: a p ctx rule: less_induct)
  case less
  from less.prems(2) show ?case
  proof (cases rule: tlv_walk_SomeE)
    case (reject x)
    with less.prems(1) show ?thesis
      using cb_keeps [of ctx "tlv_size p" "drop 8 p"] by simp
  next
    case (step ctx1)
    with less.prems(1) have "Inv ctx1"
      using cb_keeps [of ctx "tlv_size p" "drop 8 p"] by simp
    moreover have "length (tlv_next p) < length p" using step(1) by simp
    ultimately show ?thesis using less.hyps step(5) by blast
  qed (use less.prems in simp_all)
qed

end

locale tlv_safe_reader = tlv_reader +
  assumes cb_total: "Inv ctx \<Longrightarrow> unat n \<le> length v \<Longrightarrow> cb key v n ctx \<noteq> None"
    and cb_local: "unat n \<le> length v \<Longrightarrow> cb key v n ctx = cb key (take (unat n) v) n ctx"
begin

lemma walk_total: "Inv ctx \<Longrightarrow> tlv_no_wrap a p \<Longrightarrow> \<exists>res. tlv_walk a cb p ctx = Some res"
proof (induction "length p" arbitrary: a p ctx rule: less_induct)
  case less
  note wrap = less.prems(2) [unfolded tlv_no_wrap.simps [of a p]]
  consider "length p < 8" | "8 \<le> length p" "length p - 8 < unat (tlv_size p)"
    | "8 \<le> length p" "unat (tlv_size p) \<le> length p - 8" by linarith
  then show ?case
  proof cases
    case 3
    obtain r ctx1 where cb: "cb (tlv_key p) (drop 8 p) (tlv_size p) ctx = Some (r, ctx1)"
      using cb_total [OF less.prems(1), of "tlv_size p" "drop 8 p"] 3 by fastforce
    then have "Inv ctx1"
      using cb_keeps [OF less.prems(1)] 3 by (metis length_drop)
    moreover have "tlv_no_wrap (a + 8 + tlv_size p) (tlv_next p)"
      using wrap 3 by simp
    ultimately have "\<exists>res. tlv_walk (a + 8 + tlv_size p) cb (tlv_next p) ctx1 = Some res"
      using less.hyps 3 by simp
    with cb 3 wrap show ?thesis by (simp add: tlv_walk_step)
  qed (use wrap in \<open>simp_all add: tlv_walk_end tlv_walk_short\<close>)
qed

text \<open>On an encoded payload the walk hands every entry to the callback, in order.\<close>

lemma walk_payload:
  "unat a + length (tlv_payload es) + 8 < 2 ^ 32 \<Longrightarrow>
   tlv_walk a cb (tlv_payload es) ctx = tlv_fold cb es ctx"
proof (rule walk_payload_local)
  fix key and v rest :: "u8 list" and c
  assume "length v < 2 ^ 32"
  then show "cb key (v @ rest) (of_nat (length v)) c = cb key v (of_nat (length v)) c"
    using cb_local [of "of_nat (length v)" "v @ rest"] by (simp add: unat_of_nat_small)
qed

text \<open>Conversely, what the walk accepts is an encoded payload.\<close>

lemma walk_accepted:
  "tlv_walk a cb p ctx = Some (0, ctx') \<Longrightarrow>
   \<exists>es. p = tlv_payload es \<and> tlv_fold cb es ctx = Some (0, ctx')"
proof (induction "length p" arbitrary: a p ctx rule: less_induct)
  case less
  from less.prems show ?case
  proof (cases rule: tlv_walk_SomeE)
    case stop
    then have "p = tlv_payload []" by (auto split: if_splits)
    moreover have "tlv_fold cb [] ctx = Some (0, ctx')" using stop by simp
    ultimately show ?thesis by blast
  next
    case (step ctx1)
    define v where "v = take (unat (tlv_size p)) (drop 8 p)"
    have v: "length v = unat (tlv_size p)" using step(2) by (simp add: v_def)
    obtain es where es: "tlv_next p = tlv_payload es" "tlv_fold cb es ctx1 = Some (0, ctx')"
      using less.hyps [OF _ step(5)] step(1) by fastforce
    have "p = take 4 p @ take 4 (drop 4 p) @ v @ tlv_next p"
      unfolding v_def append_take_drop_id
      by (metis append_take_drop_id drop_drop numeral_Bit0)
    then have "p = tlv_payload ((tlv_key p, v) # es)"
      using step(1) v es(1) by (simp add: tlv_entry_def put_be32_be32)
    moreover have "cb (tlv_key p) v (of_nat (length v)) ctx = Some (0, ctx1)"
      using step(4) cb_local [of "tlv_size p" "drop 8 p"] step(2) v by (simp add: v_def)
    then have "tlv_fold cb ((tlv_key p, v) # es) ctx = Some (0, ctx')"
      using es(2) by simp
    ultimately show ?thesis by blast
  qed simp_all
qed

end

section \<open>The walk on the 32-bit target\<close>

definition mem_at :: "(u32 \<Rightarrow> u8) \<Rightarrow> u32 \<Rightarrow> u8 list \<Rightarrow> bool" where
  "mem_at mem a p \<longleftrightarrow> (\<forall>i<length p. mem (a + of_nat i) = p ! i)"

lemma mem_at_append: "mem_at mem a (p @ q) \<longleftrightarrow> mem_at mem a p \<and> mem_at mem (a + of_nat (length p)) q"
proof -
  have "P i" if "\<forall>i<length p. P i" "\<forall>i<length q. P (length p + i)" "i < length p + length q" for P i
    using that by (metis add_diff_inverse_nat nat_add_left_cancel_less)
  then have "(\<forall>i<length p + length q. P i) \<longleftrightarrow> (\<forall>i<length p. P i) \<and> (\<forall>i<length q. P (length p + i))" for P
    by auto
  then show ?thesis
    by (simp add: mem_at_def nth_append add.assoc)
qed

lemma mem_at_drop: "mem_at mem a p \<Longrightarrow> k \<le> length p \<Longrightarrow> mem_at mem (a + of_nat k) (drop k p)"
  using mem_at_append [of mem a "take k p" "drop k p"] by (simp add: min_absorb2)

lemma mem_be32_at: "mem_at mem a p \<Longrightarrow> 4 \<le> length p \<Longrightarrow> mem_be32 mem a = be32 p"
proof -
  assume "mem_at mem a p" "4 \<le> length p"
  then have "mem (a + of_nat i) = p ! i" if "i < 4" for i
    using that by (simp add: mem_at_def)
  from this [of 0] this [of 1] this [of 2] this [of 3] show ?thesis
    by (simp add: mem_be32_def be32_def)
qed

text \<open>
  Where the byte-list walk stays inside C's defined behaviour, the loop over the flat memory
  returns, with the same result: \<open>tlv_walk\<close> refines to \<open>tlv_walk_rv32\<close>.
\<close>

lemma tlv_walk_rv32_refines:
  assumes "\<And>key b v n c res. mem_at mem b v \<Longrightarrow> unat n \<le> length v \<Longrightarrow>
             cb key v n c = Some res \<Longrightarrow> cbm key b n c = res"
    and "mem_at mem a p" and "unat a + length p < 2 ^ 32" and "tlv_walk a cb p ctx = Some res"
  shows "tlv_walk_rv32 mem cbm a (a + of_nat (length p)) ctx = Some res"
  using assms(2-)
proof (induction "length p" arbitrary: a p ctx rule: less_induct)
  case less
  let ?lim = "a + of_nat (length p)"
  have lim: "unat ?lim = unat a + length p"
    using less.prems(2) by (subst unat_add_small) (simp_all add: unat_of_nat_small)
  obtain r c where res: "res = (r, c)" by (cases res)
  have a8: "unat a + 8 < 2 ^ 32"
    using less.prems(3) by (subst (asm) tlv_walk.simps) (auto split: if_splits)
  then have p8: "a + 8 \<le> ?lim \<longleftrightarrow> 8 \<le> length p"
    by (simp add: word_le_nat_alt lim unat_add_small)
  show ?case
  proof (cases "length p < 8")
    case True
    have "a = ?lim \<longleftrightarrow> p = []"
      using less.prems(2) by (auto simp: lim word_unat_eq_iff simp del: length_0_conv) 
    with True p8 a8 less.prems(3) show ?thesis
      by (subst tlv_walk_rv32.simps) (auto simp: tlv_walk_end)
  next
    case False
    define sz where "sz = tlv_size p"
    have b: "unat a + 8 + unat sz < 2 ^ 32"
      using less.prems(3) a8 False
      by (subst (asm) tlv_walk.simps) (auto simp: Let_def sz_def split: if_splits)
    have vp: "unat (a + 8 + sz) = unat a + 8 + unat sz"
      using a8 b by (simp add: unat_add_small)
    have past: "?lim < a + 8 + sz \<longleftrightarrow> length p - 8 < unat sz"
      using False by (auto simp: word_less_nat_alt lim vp)
    have key: "mem_be32 mem a = tlv_key p"
      using less.prems(1) False by (simp add: mem_be32_at)
    have "mem_at mem (a + 4) (drop 4 p)"
      using mem_at_drop [OF less.prems(1), of 4] False by simp
    then have szm: "mem_be32 mem (a + 4) = sz"
      using False by (simp add: mem_be32_at sz_def)
    have at8: "mem_at mem (a + 8) (drop 8 p)"
      using mem_at_drop [OF less.prems(1), of 8] False by simp
    have unfold: "tlv_walk_rv32 mem cbm a ?lim ctx =
        (if ?lim < a + 8 + sz then Some (- 1, ctx)
         else case cbm (tlv_key p) (a + 8) sz ctx of (r, ctx') \<Rightarrow>
           if r \<noteq> 0 then Some (- 1, ctx') else tlv_walk_rv32 mem cbm (a + 8 + sz) ?lim ctx')"
      using p8 False by (subst tlv_walk_rv32.simps) (simp add: Let_def key szm)
    from less.prems(3) [unfolded res] show ?thesis
    proof (cases rule: tlv_walk_SomeE)
      case (reject x)
      then have "cbm (tlv_key p) (a + 8) sz ctx = (x, c)"
        using assms(1) [OF at8] by (simp add: sz_def)
      with reject past show ?thesis by (simp add: unfold res sz_def)
    next
      case (step ctx1)
      then have cbm: "cbm (tlv_key p) (a + 8) sz ctx = (0, ctx1)"
        using assms(1) [OF at8] by (simp add: sz_def)
      have "mem_at mem (a + 8 + sz) (tlv_next p)"
        using mem_at_drop [OF at8, of "unat sz"] step(2) by (simp add: sz_def)
      moreover have "unat (a + 8 + sz) + length (tlv_next p) < 2 ^ 32"
        using less.prems(2) step(1,2) vp by (simp add: sz_def)
      ultimately have rest: "tlv_walk_rv32 mem cbm (a + 8 + sz)
          (a + 8 + sz + of_nat (length (tlv_next p))) ctx1 = Some res"
        using step(1,5) by (intro less.hyps) (simp_all add: sz_def res)
      have "a + 8 + sz + of_nat (length (tlv_next p)) = ?lim"
        using step(1,2) by (simp add: sz_def of_nat_diff)
      then have "tlv_walk_rv32 mem cbm (a + 8 + sz) ?lim ctx1 = Some res"
        using rest by (simp only:)
      moreover have "\<not> ?lim < a + 8 + sz" using past step(2) by (simp add: sz_def)
      ultimately show ?thesis by (simp only: unfold cbm) simp
    qed (use False past in \<open>auto simp: unfold res sz_def\<close>)
  qed
qed

text \<open>
  Outside it the loop can fail to return. A header of an unknown key with size
  \<open>0xFFFFFFF8\<close> sends the pointer back to the header itself.
\<close>

lemma tlv_walk_rv32_hangs:
  assumes "p + 8 \<le> lim" and "p \<le> p + 8" and "mem_be32 mem (p + 4) = - 8"
    and skip: "\<And>c. cb (mem_be32 mem p) (p + 8) (- 8) c = (0, c)"
  shows "tlv_walk_rv32 mem cb p lim ctx = None"
proof (rule ccontr)
  assume "tlv_walk_rv32 mem cb p lim ctx \<noteq> None"
  then obtain r where ret: "tlv_walk_rv32 mem cb p lim ctx = Some r" by blast
  have "\<not> lim < p" using assms(1,2) by simp
  have "(mem, cb, p, lim) \<noteq> (mem, cb, p, lim)"
    by (rule tlv_walk_rv32.raw_induct
        [where P = "\<lambda>m c q l x r. (m, c, q, l) \<noteq> (mem, cb, p, lim)", OF _ ret])
      (use assms \<open>\<not> lim < p\<close> in \<open>auto simp: Let_def, blast\<close>)
  then show False by simp
qed

section \<open>Properties\<close>

text \<open>A callback that accepts every entry and records it.\<close>

definition tlv_collect :: "(u32 \<times> u8 list) list tlv_cb" where
  "tlv_collect key v n acc = Some (0, acc @ [(key, take (unat n) v)])"

interpretation collector: tlv_safe_reader tlv_collect "\<lambda>_. True"
  by unfold_locales (auto simp: tlv_collect_def)

lemma fold_collect:
  "length (tlv_payload es) < 2 ^ 32 \<Longrightarrow> tlv_fold tlv_collect es acc = Some (0, acc @ es)"
proof (induction es arbitrary: acc)
  case (Cons e es)
  obtain key v where "e = (key, v)" by (cases e)
  with Cons show ?case by (simp add: tlv_collect_def unat_of_nat_small)
qed simp

text \<open>
  C34: The walker reads back any encoded payload: it visits exactly the entries that were encoded, in
  their order, and reports success.
\<close>

theorem tlv_parse_print:
  assumes "unat a + length (tlv_payload es) + 8 < 2 ^ 32"
  shows "tlv_walk a tlv_collect (tlv_payload es) [] = Some (0, es)"
  using assms by (simp add: collector.walk_payload fold_collect)

text \<open>
  Conversely a buffer the walker accepts is the encoding of the entries it visited: no byte of
  it is skipped or read twice.
\<close>

theorem tlv_accepts_only_payloads:
  assumes "tlv_walk a tlv_collect p [] = Some (0, es)" "length p < 2 ^ 32"
  shows "p = tlv_payload es"
proof -
  obtain fs where fs: "p = tlv_payload fs" "tlv_fold tlv_collect fs [] = Some (0, es)"
    using collector.walk_accepted [OF assms(1)] by blast
  then show ?thesis using fold_collect [of fs "[]"] assms(2) by simp
qed

text \<open>
  C35: Where no size in the buffer carries the pointer out of the address space, the loop as the
  32-bit target runs it, over a flat memory with wrapping pointers, returns what the walk over the
  byte list returns.
\<close>

theorem rv32_walk_refines:
  assumes "\<And>key b v n c res. mem_at mem b v \<Longrightarrow> unat n \<le> length v \<Longrightarrow>
             cb key v n c = Some res \<Longrightarrow> cbm key b n c = res"
    and "mem_at mem a p" and "unat a + length p < 2 ^ 32" and "tlv_walk a cb p ctx = Some res"
  shows "tlv_walk_rv32 mem cbm a (a + of_nat (length p)) ctx = Some res"
  using assms by (rule tlv_walk_rv32_refines)

text \<open>
  C36: The bound of the walker can be defeated: a header whose size field is \<open>0xFFFFFFF8\<close>, with a key
  the callback skips, passes the check \<open>vp + size > end\<close> and sends the pointer back to the header,
  so the loop never returns.
\<close>

theorem rv32_walk_hangs:
  assumes "p + 8 \<le> lim" and "p \<le> p + 8" and "mem_be32 mem (p + 4) = - 8"
    and "\<And>c. cb (mem_be32 mem p) (p + 8) (- 8) c = (0, c)"
  shows "tlv_walk_rv32 mem cb p lim ctx = None"
  using assms by (rule tlv_walk_rv32_hangs)

end
