(* ===== verification/Hardware.thy ===== *)
theory Hardware
  imports Tlv
begin

text \<open>
  What the firmware sees of the board: the CSRs of the gateware blocks it reads and writes, and the
  network as lwIP takes its datagrams. \<^verbatim>\<open>firmware/ghost_time.c\<close> and the transmit half of
  \<^verbatim>\<open>firmware/net.c\<close> are modelled here, because every other module calls them.

  The free-running microsecond counter is \<open>host_clk\<close>: its value at the \<open>k\<close>-th access the firmware
  makes to a time register. Nothing is assumed of the sequence. The registers follow
  \<^verbatim>\<open>litex_soc/ghost_time.py\<close>: the snapshot the CSRs show is refreshed on every clock cycle, so the
  low and the high word of one timestamp are two samples of the counter.

  lwIP is not part of the repository. \<open>lwip\<close> gives its answer to the \<open>k\<close>-th transmission;
  \<open>net_log\<close> records each datagram with the code \<open>udp_tx\<close> returned for it. The \<open>src_port\<close> of a datagram is
  the port \<open>udp_tx\<close> asks lwIP to bind; theory Net_Stack looks at the case that lwIP refuses it.
\<close>

unbundle bit_operations_syntax

section \<open>State\<close>

datatype ip_addr = IPv4 u8 u8 u8 u8 | IPv6 "u32 list"

record datagram =
  dst_addr :: ip_addr
  dst_port :: u16
  src_port :: u16
  payload :: "u8 list"

datatype lwip_reply = No_pbuf | No_pcb | Sent bool

record hw =
  host_clk :: "nat \<Rightarrow> u64"
  n_reads :: nat
  inter_lo :: u32
  inter_hi :: u32
  period_beat :: u32
  period_24ppqn :: u32
  period_48ppqn :: u32
  period_96ppqn :: u32
  period_bar :: u32
  soft_resets :: nat
  bp_flags :: u8
  pulse_width :: u16
  netif_ip4 :: u32
  netif_ip6 :: "u8 list"
  lwip :: "nat \<Rightarrow> lwip_reply"
  net_log :: "(datagram \<times> int) list"

section \<open>The ghost-time CSRs (ghost\_time.c)\<close>

definition intercept :: "'a hw_scheme \<Rightarrow> i64" where
  "intercept s = push_bit 32 (ucast (inter_hi s)) OR ucast (inter_lo s)"

definition tick_read :: "'a hw_scheme \<Rightarrow> 'a hw_scheme" where
  "tick_read s = s\<lparr>n_reads := Suc (n_reads s)\<rparr>"

definition host_lo_read :: "'a hw_scheme \<Rightarrow> u32 \<times> 'a hw_scheme" where
  "host_lo_read s = (ucast (host_clk s (n_reads s)), tick_read s)"

definition host_hi_read :: "'a hw_scheme \<Rightarrow> u32 \<times> 'a hw_scheme" where
  "host_hi_read s = (ucast (drop_bit 32 (host_clk s (n_reads s))), tick_read s)"

definition ghost_lo_read :: "'a hw_scheme \<Rightarrow> u32 \<times> 'a hw_scheme" where
  "ghost_lo_read s = (ucast (host_clk s (n_reads s) + intercept s), tick_read s)"

definition ghost_hi_read :: "'a hw_scheme \<Rightarrow> u32 \<times> 'a hw_scheme" where
  "ghost_hi_read s = (ucast (drop_bit 32 (host_clk s (n_reads s) + intercept s)), tick_read s)"

definition host_time_us :: "'a hw_scheme \<Rightarrow> u64 \<times> 'a hw_scheme" where
  "host_time_us s =
     (let (lo, s1) = host_lo_read s; (hi, s2) = host_hi_read s1
      in (push_bit 32 (ucast hi) OR ucast lo, s2))"

definition ghost_time_us :: "'a hw_scheme \<Rightarrow> u64 \<times> 'a hw_scheme" where
  "ghost_time_us s =
     (let (_, s1) = host_lo_read s; (lo, s2) = ghost_lo_read s1; (hi, s3) = ghost_hi_read s2
      in (push_bit 32 (ucast hi) OR ucast lo, s3))"

definition ghost_time_set_intercept :: "i64 \<Rightarrow> 'a hw_scheme \<Rightarrow> 'a hw_scheme" where
  "ghost_time_set_intercept i s =
     s\<lparr>inter_lo := ucast i, inter_hi := ucast (signed_drop_bit 32 i)\<rparr>"

definition ghost_time_get_intercept :: "'a hw_scheme \<Rightarrow> i64" where
  "ghost_time_get_intercept s =
     (let lo = inter_lo s; hi = inter_hi s in push_bit 32 (ucast hi) OR ucast lo)"

text \<open>The value the next \<open>host_time_us\<close> (\<open>ghost_time_us\<close>) returns.\<close>

definition join_words :: "u64 \<Rightarrow> u64 \<Rightarrow> u64" where
  "join_words l h = push_bit 32 (ucast (ucast (drop_bit 32 h) :: u32)) OR ucast (ucast l :: u32)"

definition host_now :: "'a hw_scheme \<Rightarrow> u64" where
  "host_now s = join_words (host_clk s (n_reads s)) (host_clk s (Suc (n_reads s)))"

definition ghost_now :: "'a hw_scheme \<Rightarrow> u64" where
  "ghost_now s = join_words (host_clk s (Suc (n_reads s)) + intercept s)
                            (host_clk s (Suc (Suc (n_reads s))) + intercept s)"

lemma host_time_us_eq: "host_time_us s = (host_now s, s\<lparr>n_reads := n_reads s + 2\<rparr>)"
  by (simp add: host_time_us_def host_lo_read_def host_hi_read_def tick_read_def host_now_def
      join_words_def)

lemma ghost_time_us_eq: "ghost_time_us s = (ghost_now s, s\<lparr>n_reads := n_reads s + 3\<rparr>)"
  by (simp add: ghost_time_us_def host_lo_read_def ghost_lo_read_def ghost_hi_read_def tick_read_def
      ghost_now_def join_words_def intercept_def)

lemma join_words_same: "drop_bit 32 h = drop_bit 32 l \<Longrightarrow> join_words l h = l"
proof -
  assume eq: "drop_bit 32 h = drop_bit 32 l"
  show ?thesis unfolding join_words_def eq
    by (rule bit_word_eqI) (auto simp: bit_simps)
qed

lemma get_set_intercept: "ghost_time_get_intercept (ghost_time_set_intercept i s) = i"
  unfolding ghost_time_get_intercept_def ghost_time_set_intercept_def Let_def
  by (simp, rule bit_word_eqI) (auto simp: bit_simps)

lemma intercept_set [simp]: "intercept (ghost_time_set_intercept i s) = i"
  using get_set_intercept [of i s] by (simp add: ghost_time_get_intercept_def intercept_def)

lemma get_intercept [simp]: "ghost_time_get_intercept s = intercept s"
  by (simp add: ghost_time_get_intercept_def intercept_def)

section \<open>Transmission (net.c)\<close>

definition lwip_htonl :: "u32 \<Rightarrow> u32" where
  "lwip_htonl v = be32 [ucast v, ucast (drop_bit 8 v), ucast (drop_bit 16 v), ucast (drop_bit 24 v)]"

definition net_local_ipv4 :: "'a hw_scheme \<Rightarrow> u32" where
  "net_local_ipv4 s = lwip_htonl (netif_ip4 s)"

definition net_local_ipv6_bytes :: "'a hw_scheme \<Rightarrow> u8 list" where
  "net_local_ipv6_bytes s = netif_ip6 s"

definition udp_ret :: "'a hw_scheme \<Rightarrow> int" where
  "udp_ret s = (case lwip s (length (net_log s)) of
                  No_pbuf \<Rightarrow> - 1 | No_pcb \<Rightarrow> - 2 | Sent ok \<Rightarrow> if ok then 0 else - 3)"

definition udp_tx :: "ip_addr \<Rightarrow> u16 \<Rightarrow> u16 \<Rightarrow> u8 list \<Rightarrow> 'a hw_scheme \<Rightarrow> int \<times> 'a hw_scheme" where
  "udp_tx dst dport sport buf s =
     (let d = \<lparr>dst_addr = dst, dst_port = dport, src_port = sport, payload = buf\<rparr>
      in (udp_ret s, s\<lparr>net_log := net_log s @ [(d, udp_ret s)]\<rparr>))"

text \<open>The octets the \<open>IP_ADDR4\<close> macro is given for a host-order address.\<close>

definition ip4_of :: "u32 \<Rightarrow> ip_addr" where
  "ip4_of addr = IPv4 (ucast (drop_bit 24 addr AND 0xff)) (ucast (drop_bit 16 addr AND 0xff))
                      (ucast (drop_bit 8 addr AND 0xff)) (ucast (addr AND 0xff))"

definition net_udp_send_v4_unicast ::
  "u32 \<Rightarrow> u16 \<Rightarrow> u16 \<Rightarrow> u8 list \<Rightarrow> 'a hw_scheme \<Rightarrow> int \<times> 'a hw_scheme" where
  "net_udp_send_v4_unicast addr dport sport buf s = udp_tx (ip4_of addr) dport sport buf s"

definition net_udp_send_v4_mcast ::
  "u16 \<Rightarrow> u16 \<Rightarrow> u8 list \<Rightarrow> 'a hw_scheme \<Rightarrow> int \<times> 'a hw_scheme" where
  "net_udp_send_v4_mcast dport sport buf s = udp_tx (IPv4 224 76 78 75) dport sport buf s"

definition net_udp_send_v6_mcast ::
  "u16 \<Rightarrow> u16 \<Rightarrow> u8 list \<Rightarrow> 'a hw_scheme \<Rightarrow> int \<times> 'a hw_scheme" where
  "net_udp_send_v6_mcast dport sport buf s =
     udp_tx (IPv6 [0xff120000, 0, 0, 0x00008080]) dport sport buf s"

text \<open>Every caller of the firmware ignores the return code; only the log changes.\<close>

definition sent_to :: "ip_addr \<Rightarrow> u16 \<Rightarrow> u16 \<Rightarrow> u8 list \<Rightarrow> datagram" where
  "sent_to dst dport sport buf =
     \<lparr>dst_addr = dst, dst_port = dport, src_port = sport, payload = buf\<rparr>"

definition logged :: "datagram \<Rightarrow> 'a hw_scheme \<Rightarrow> 'a hw_scheme" where
  "logged d s = s\<lparr>net_log := net_log s @ [(d, udp_ret s)]\<rparr>"

abbreviation sent :: "'a hw_scheme \<Rightarrow> datagram list" where
  "sent s \<equiv> map fst (net_log s)"

lemma sent_logged [simp]: "sent (logged d s) = sent s @ [d]"
  by (simp add: logged_def)

lemma snd_udp_tx [simp]: "snd (udp_tx dst dport sport buf s) = logged (sent_to dst dport sport buf) s"
  by (simp add: udp_tx_def logged_def sent_to_def Let_def)

text \<open>
  The interface the rest of the firmware sends through: a send reports lwIP's answer, appends its
  datagram to the log and leaves the rest of the state alone.
\<close>

locale datagram_sender =
  fixes send :: "'x \<Rightarrow> u8 list \<Rightarrow> 'a hw_scheme \<Rightarrow> int \<times> 'a hw_scheme"
    and dgram :: "'x \<Rightarrow> u8 list \<Rightarrow> datagram"
  assumes send_effect: "send x buf s = (udp_ret s, logged (dgram x buf) s)"
begin

lemma snd_send [simp]: "snd (send x buf s) = logged (dgram x buf) s"
  by (simp add: send_effect)

lemma send_code: "fst (send x buf s) \<in> {- 3 .. 0}"
  by (auto simp: send_effect udp_ret_def split: lwip_reply.splits)

end

interpretation v4_unicast: datagram_sender
  "\<lambda>(addr, dport, sport). net_udp_send_v4_unicast addr dport sport"
  "\<lambda>(addr, dport, sport). sent_to (ip4_of addr) dport sport"
  by unfold_locales
    (auto simp: net_udp_send_v4_unicast_def udp_tx_def logged_def sent_to_def Let_def)

interpretation v4_mcast: datagram_sender
  "\<lambda>(dport, sport). net_udp_send_v4_mcast dport sport"
  "\<lambda>(dport, sport). sent_to (IPv4 224 76 78 75) dport sport"
  by unfold_locales
    (auto simp: net_udp_send_v4_mcast_def udp_tx_def logged_def sent_to_def Let_def)

interpretation v6_mcast: datagram_sender
  "\<lambda>(dport, sport). net_udp_send_v6_mcast dport sport"
  "\<lambda>(dport, sport). sent_to (IPv6 [0xff120000, 0, 0, 0x00008080]) dport sport"
  by unfold_locales
    (auto simp: net_udp_send_v6_mcast_def udp_tx_def logged_def sent_to_def Let_def)

lemmas snd_send_simps [simp] =
  v4_unicast.snd_send [of "(a, dp, sp)" for a dp sp, simplified]
  v4_mcast.snd_send [of "(dp, sp)" for dp sp, simplified]
  v6_mcast.snd_send [of "(dp, sp)" for dp sp, simplified]

section \<open>Properties\<close>

lemma join_words_carry:
  assumes "drop_bit 32 h = drop_bit 32 l + 1" "drop_bit 32 l \<noteq> drop_bit 32 (- 1)"
  shows "join_words l h = l + 2 ^ 32"
proof -
  have split: "l = push_bit 32 (drop_bit 32 l) + take_bit 32 l"
    by (simp add: bits_ident)
  have disj: "push_bit 32 x OR take_bit 32 l = push_bit 32 x + take_bit 32 l" for x :: u64
    by (rule disjunctive_add [symmetric]) (auto simp: bit_simps)
  have "push_bit 32 (ucast (ucast (drop_bit 32 h) :: u32)) = (push_bit 32 (drop_bit 32 h) :: u64)"
    by (rule bit_word_eqI) (auto simp: bit_simps)
  moreover have "(ucast (ucast l :: u32) :: u64) = take_bit 32 l"
    by (rule bit_word_eqI) (auto simp: bit_simps)
  ultimately have "join_words l h = push_bit 32 (drop_bit 32 l + 1) + take_bit 32 l"
    by (simp add: join_words_def assms(1) disj)
  also have "\<dots> = l + 2 ^ 32"
    by (subst (3) split) (simp add: push_bit_eq_mult algebra_simps)
  finally show ?thesis .
qed

text \<open>
  A host timestamp is the counter at its first sample as long as the counter's high word did not
  change between the two register reads; if it did, the result is \<open>2^32\<close> microseconds ahead: the
  read is not latched.
\<close>

theorem host_time_us_torn:
  assumes "drop_bit 32 (host_clk s (Suc (n_reads s))) \<in>
    {drop_bit 32 (host_clk s (n_reads s)), drop_bit 32 (host_clk s (n_reads s)) + 1}"
    "drop_bit 32 (host_clk s (n_reads s)) \<noteq> drop_bit 32 (- 1)"
  shows "fst (host_time_us s) =
    (if drop_bit 32 (host_clk s (Suc (n_reads s))) = drop_bit 32 (host_clk s (n_reads s))
     then host_clk s (n_reads s) else host_clk s (n_reads s) + 2 ^ 32)"
  using assms join_words_same join_words_carry by (auto simp: host_time_us_eq host_now_def)

text \<open>
  The intercept written to the two 32-bit registers reads back unchanged, and the ghost time is
  the host counter plus that intercept, modulo \<open>2^64\<close>, when no carry falls between the two reads.
\<close>

theorem ghost_time_is_host_plus_intercept:
  "ghost_time_get_intercept (ghost_time_set_intercept i s) = i \<and>
   (let t = ghost_time_set_intercept i s; c = host_clk s (n_reads s + 1) + i;
        c' = host_clk s (n_reads s + 2) + i in
    fst (ghost_time_us t) = join_words c c' \<and>
    (drop_bit 32 c' = drop_bit 32 c \<longrightarrow> fst (ghost_time_us t) = c))"
proof -
  have "host_clk (ghost_time_set_intercept i s) = host_clk s"
    "n_reads (ghost_time_set_intercept i s) = n_reads s"
    by (simp_all add: ghost_time_set_intercept_def)
  then show ?thesis
    using get_set_intercept [of i s] join_words_same
    by (simp add: Let_def ghost_time_us_eq ghost_now_def)
qed

end
