(* ===== verification/Beat_Pulse.thy ===== *)
theory Beat_Pulse
  imports Hardware
begin

text \<open>
  \<^verbatim>\<open>firmware/beat_pulse.c\<close>, with the timeline and start/stop types of \<^verbatim>\<open>firmware/link.h\<close> it is
  given: the periods the gateware counts down, and the mirror \<open>s_flags\<close> of its flag register.
\<close>

unbundle bit_operations_syntax

record link_timeline =
  tempo_us_per_beat :: i64
  beat_origin_microbeats :: i64
  time_origin_us_ghost :: i64

record link_startstop =
  is_playing :: u8
  beats_microbeats :: i64
  timestamp_us_ghost :: i64

text \<open>Module state of beat\_pulse.c, on top of the hardware; \<open>s_beats_per_bar\<close> starts as 4.\<close>

record beat_pulse_st = hw +
  s_flags :: u8
  s_beats_per_bar :: "32 word"

definition flags_write :: "u8 \<Rightarrow> 'a beat_pulse_st_scheme \<Rightarrow> 'a beat_pulse_st_scheme" where
  "flags_write f s = s\<lparr>bp_flags := f\<rparr>"

definition beat_pulse_init :: "'a beat_pulse_st_scheme \<Rightarrow> 'a beat_pulse_st_scheme" where
  "beat_pulse_init s =
     (let s = s\<lparr>s_flags := 0\<rparr>; s = flags_write (s_flags s) s in s\<lparr>pulse_width := 1000\<rparr>)"

definition beat_pulse_load_timeline ::
  "link_timeline \<Rightarrow> link_startstop \<Rightarrow> 'a beat_pulse_st_scheme \<Rightarrow> 'a beat_pulse_st_scheme" where
  "beat_pulse_load_timeline tml ss s =
     (let us_per_beat = (if sint (tempo_us_per_beat tml) \<le> 0 then 500000 else tempo_us_per_beat tml);
          s = s\<lparr>period_beat := ucast us_per_beat,
                period_24ppqn := ucast (sdiv64 us_per_beat 24),
                period_48ppqn := ucast (sdiv64 us_per_beat 48),
                period_96ppqn := ucast (sdiv64 us_per_beat 96),
                period_bar := ucast (us_per_beat * scast (s_beats_per_bar s)),
                soft_resets := Suc (soft_resets s)\<rparr>;
          s = s\<lparr>s_flags := (if is_playing ss \<noteq> 0 then s_flags s OR 0x01
                             else s_flags s AND NOT 0x01)\<rparr>
      in flags_write (s_flags s) s)"

definition beat_pulse_set_sync_led :: "bool \<Rightarrow> 'a beat_pulse_st_scheme \<Rightarrow> 'a beat_pulse_st_scheme" where
  "beat_pulse_set_sync_led on s =
     (let s = s\<lparr>s_flags := (if on then s_flags s OR 0x08 else s_flags s AND NOT 0x08)\<rparr>
      in flags_write (s_flags s) s)"

definition beat_pulse_set_peer_led :: "bool \<Rightarrow> 'a beat_pulse_st_scheme \<Rightarrow> 'a beat_pulse_st_scheme" where
  "beat_pulse_set_peer_led on s =
     (let s = s\<lparr>s_flags := (if on then s_flags s OR 0x10 else s_flags s AND NOT 0x10)\<rparr>
      in flags_write (s_flags s) s)"

definition beat_pulse_set_beats_per_bar ::
  "32 word \<Rightarrow> 'a beat_pulse_st_scheme \<Rightarrow> 'a beat_pulse_st_scheme" where
  "beat_pulse_set_beats_per_bar bpb s =
     s\<lparr>s_beats_per_bar := (if sint bpb < 1 then 1 else bpb)\<rparr>"

section \<open>The flag register\<close>

text \<open>The mirror agrees with the register, and only the three documented bits are ever set.\<close>

definition flags_inv :: "'a beat_pulse_st_scheme \<Rightarrow> bool" where
  "flags_inv s \<longleftrightarrow> bp_flags s = s_flags s \<and> s_flags s AND NOT 0x19 = 0"

definition run_bit :: "'a beat_pulse_st_scheme \<Rightarrow> bool" where "run_bit s \<longleftrightarrow> bit (bp_flags s) 0"
definition sync_led :: "'a beat_pulse_st_scheme \<Rightarrow> bool" where "sync_led s \<longleftrightarrow> bit (bp_flags s) 3"
definition peer_led :: "'a beat_pulse_st_scheme \<Rightarrow> bool" where "peer_led s \<longleftrightarrow> bit (bp_flags s) 4"

text \<open>The masks as bit positions.\<close>

lemma bit_masks:
  "bit (1 :: u8) n \<longleftrightarrow> n = 0" "bit (8 :: u8) n \<longleftrightarrow> n = 3" "bit (16 :: u8) n \<longleftrightarrow> n = 4"
  "bit (25 :: u8) n \<longleftrightarrow> n = 0 \<or> n = 3 \<or> n = 4"
proof -
  have shift: "bit (push_bit k 1 :: u8) n \<longleftrightarrow> n = k" if "k < 8" for k
    using that by (auto simp: bit_push_bit_iff bit_1_iff simp del: push_bit_of_1)
  show one: "bit (1 :: u8) n \<longleftrightarrow> n = 0" by (simp add: bit_1_iff)
  show eight: "bit (8 :: u8) n \<longleftrightarrow> n = 3" using shift [of 3] by simp
  show sixteen: "bit (16 :: u8) n \<longleftrightarrow> n = 4" using shift [of 4] by simp
  have "bit (1 OR 8 OR 16 :: u8) n \<longleftrightarrow> n = 0 \<or> n = 3 \<or> n = 4"
    by (simp only: bit_or_iff one eight sixteen)
  then show "bit (25 :: u8) n \<longleftrightarrow> n = 0 \<or> n = 3 \<or> n = 4" by simp
qed

lemma bits_or:
  "bit (f OR 1 :: u8) n \<longleftrightarrow> bit f n \<or> n = 0"
  "bit (f OR 8 :: u8) n \<longleftrightarrow> bit f n \<or> n = 3" "bit (f OR 16 :: u8) n \<longleftrightarrow> bit f n \<or> n = 4"
  by (simp_all only: bit_or_iff bit_masks)

lemma bits_and_not:
  "bit (f AND - 2 :: u8) n \<longleftrightarrow> bit f n \<and> n \<noteq> 0"
  "bit (f AND - 9 :: u8) n \<longleftrightarrow> bit f n \<and> n \<noteq> 3" "bit (f AND - 17 :: u8) n \<longleftrightarrow> bit f n \<and> n \<noteq> 4"
  "bit (f AND - 26 :: u8) n \<longleftrightarrow> bit f n \<and> n \<noteq> 0 \<and> n \<noteq> 3 \<and> n \<noteq> 4"
proof -
  have "bit (f AND NOT m) n \<longleftrightarrow> bit f n \<and> \<not> bit m n" for m
    by (auto simp: bit_and_iff bit_not_iff dest: bit_imp_possible_bit)
  from this [of 1, unfolded bit_masks] this [of 8, unfolded bit_masks]
    this [of 16, unfolded bit_masks] this [of 25, unfolded bit_masks]
  show "bit (f AND - 2 :: u8) n \<longleftrightarrow> bit f n \<and> n \<noteq> 0"
    "bit (f AND - 9 :: u8) n \<longleftrightarrow> bit f n \<and> n \<noteq> 3" "bit (f AND - 17 :: u8) n \<longleftrightarrow> bit f n \<and> n \<noteq> 4"
    "bit (f AND - 26 :: u8) n \<longleftrightarrow> bit f n \<and> n \<noteq> 0 \<and> n \<noteq> 3 \<and> n \<noteq> 4"
    by simp_all
qed

lemmas flag_bits = bits_or bits_and_not

lemma flags_inv_iff:
  "flags_inv s \<longleftrightarrow> bp_flags s = s_flags s \<and> (\<forall>n. bit (s_flags s) n \<longrightarrow> n = 0 \<or> n = 3 \<or> n = 4)"
proof -
  have "s_flags s AND - 26 = 0 \<longleftrightarrow> (\<forall>n. \<not> bit (s_flags s AND - 26) n)"
    by (metis bit_0_eq bit_eqI bot_apply bot_bool_def)
  then show ?thesis by (auto simp: flags_inv_def bits_and_not)
qed

text \<open>The interface of the flag operations: one bit is written, the other bits stay.\<close>

locale flag_writer =
  fixes put :: "'x \<Rightarrow> 'a beat_pulse_st_scheme \<Rightarrow> 'a beat_pulse_st_scheme"
    and pos :: nat and val :: "'x \<Rightarrow> bool"
  assumes mirrored: "bp_flags (put x s) = s_flags (put x s)"
    and put_bit: "bit (s_flags (put x s)) n = (if n = pos then val x else bit (s_flags s) n)"
    and pos_known: "pos = 0 \<or> pos = 3 \<or> pos = 4"
begin

lemma put_inv: "flags_inv s \<Longrightarrow> flags_inv (put x s)"
  using pos_known by (auto simp: flags_inv_iff mirrored put_bit)

lemma put_bp_flags: "bp_flags s = s_flags s \<Longrightarrow>
    bit (bp_flags (put x s)) n = (if n = pos then val x else bit (bp_flags s) n)"
  by (simp add: mirrored put_bit)

end

interpretation run_writer: flag_writer
  "\<lambda>(tml, ss). beat_pulse_load_timeline tml ss" 0 "\<lambda>(tml, ss). is_playing ss \<noteq> 0"
  by unfold_locales
    (simp_all add: beat_pulse_load_timeline_def flags_write_def Let_def flag_bits case_prod_beta)

interpretation sync_writer: flag_writer beat_pulse_set_sync_led 3 "\<lambda>on. on"
  by unfold_locales (auto simp: beat_pulse_set_sync_led_def flags_write_def Let_def flag_bits)

interpretation peer_writer: flag_writer beat_pulse_set_peer_led 4 "\<lambda>on. on"
  by unfold_locales (auto simp: beat_pulse_set_peer_led_def flags_write_def Let_def flag_bits)

lemma beat_pulse_init_inv: "flags_inv (beat_pulse_init s)"
  by (simp add: flags_inv_def beat_pulse_init_def flags_write_def Let_def)

lemma load_timeline_inv [wf_intro]: "flags_inv s \<Longrightarrow> flags_inv (beat_pulse_load_timeline tml ss s)"
  using run_writer.put_inv [of s "(tml, ss)"] by simp

lemmas flag_ops_inv [wf_intro] = sync_writer.put_inv peer_writer.put_inv

section \<open>Properties\<close>

text \<open>
  The run, sync-LED and peer-LED bits of the flag register are independent: each operation writes
  its own bit to the commanded value and leaves the other two as they were, the register always shows
  the mirror, and no undocumented bit is ever set.
\<close>

theorem flag_register:
  assumes "flags_inv s"
  shows "flags_inv (beat_pulse_load_timeline tml ss s) \<and>
    (run_bit (beat_pulse_load_timeline tml ss s) \<longleftrightarrow> is_playing ss \<noteq> 0) \<and>
    sync_led (beat_pulse_load_timeline tml ss s) = sync_led s \<and>
    peer_led (beat_pulse_load_timeline tml ss s) = peer_led s \<and>
    flags_inv (beat_pulse_set_sync_led on s) \<and> sync_led (beat_pulse_set_sync_led on s) = on \<and>
    run_bit (beat_pulse_set_sync_led on s) = run_bit s \<and>
    peer_led (beat_pulse_set_sync_led on s) = peer_led s \<and>
    flags_inv (beat_pulse_set_peer_led on s) \<and> peer_led (beat_pulse_set_peer_led on s) = on \<and>
    run_bit (beat_pulse_set_peer_led on s) = run_bit s \<and>
    sync_led (beat_pulse_set_peer_led on s) = sync_led s"
proof -
  have "bp_flags s = s_flags s" using assms by (simp add: flags_inv_def)
  note bits = run_writer.put_bp_flags [OF this, of "(tml, ss)", unfolded prod.case]
    sync_writer.put_bp_flags [OF this] peer_writer.put_bp_flags [OF this]
  show ?thesis
    using assms by (simp add: run_bit_def sync_led_def peer_led_def bits load_timeline_inv flag_ops_inv)
qed

text \<open>The tempo the pulse generator runs at: the timeline's, or 120 BPM if that is not positive.\<close>

definition effective_tempo :: "link_timeline \<Rightarrow> int" where
  "effective_tempo tml = (if sint (tempo_us_per_beat tml) \<le> 0 then 500000 else sint (tempo_us_per_beat tml))"

lemma uint_ucast32: "0 \<le> sint (x :: u64) \<Longrightarrow> sint x < 2 ^ 32 \<Longrightarrow> uint (ucast x :: u32) = sint x"
proof -
  assume "0 \<le> sint x" "sint x < 2 ^ 32"
  moreover from this have "uint x = sint x"
    by (simp add: uint_sint take_bit_int_eq_self)
  ultimately show ?thesis by (simp add: unsigned_ucast_eq take_bit_int_eq_self)
qed

lemma sdiv64_pos: "0 \<le> sint x \<Longrightarrow> 0 < k \<Longrightarrow> k < 2 ^ 62 \<Longrightarrow> sint (sdiv64 x (word_of_int k)) = sint x div k"
proof -
  assume x: "0 \<le> sint x" "0 < k" "k < 2 ^ 62"
  have "sint (word_of_int k :: u64) = k" using x by (intro sint_word_of_int_small) simp
  moreover have "sint x div k \<le> sint x" using x by (simp add: int_div_le)
  moreover have "0 \<le> sint x div k" using x by (simp add: pos_imp_zdiv_nonneg_iff)
  ultimately show ?thesis
    using x i64_range_sint [of x] by (simp add: sdiv64_def c_div_nonneg sint_word_of_int_small)
qed

text \<open>
  Loading a timeline programs the pulse generator with its beat period, that period divided by
  24, 48 and 96, and the bar period, resets the counters once, and runs it exactly if the transport
  plays; a non-positive tempo falls back to 120 BPM.
\<close>

theorem load_timeline_periods:
  assumes "0 < sint (s_beats_per_bar s)" "effective_tempo tml * sint (s_beats_per_bar s) < 2 ^ 32"
  shows "let t = beat_pulse_load_timeline tml ss s; T = effective_tempo tml in
    uint (period_beat t) = T \<and> uint (period_24ppqn t) = T div 24 \<and> uint (period_48ppqn t) = T div 48 \<and>
    uint (period_96ppqn t) = T div 96 \<and> uint (period_bar t) = T * sint (s_beats_per_bar s) \<and>
    soft_resets t = Suc (soft_resets s)"
proof -
  define w :: i64 where "w = (if sint (tempo_us_per_beat tml) \<le> 0 then 500000 else tempo_us_per_beat tml)"
  have w: "sint w = effective_tempo tml" "0 < sint w" by (simp_all add: w_def effective_tempo_def)
  let ?b = "s_beats_per_bar s"
  have "sint w \<le> sint w * sint ?b" using assms(1) w(2) by (simp add: mult_le_cancel_left1)
  then have small: "sint w < 2 ^ 32" using assms(2) w(1) by simp
  have quot: "uint (ucast (sdiv64 w (word_of_int k)) :: u32) = sint w div k" if "0 < k" "k < 2 ^ 62" for k
  proof -
    have "sint w div k \<le> sint w" "0 \<le> sint w div k"
      using that w(2) by (simp_all add: int_div_le pos_imp_zdiv_nonneg_iff)
    with that w(2) small show ?thesis by (subst uint_ucast32) (simp_all add: sdiv64_pos)
  qed
  have bar: "sint (w * scast ?b) = sint w * sint ?b"
  proof -
    have "0 \<le> sint w * sint ?b" using assms(1) w(2) by (intro mult_nonneg_nonneg) simp_all
    moreover have "sint w * sint ?b < 2 ^ 32" using assms(2) by (simp only: w(1))
    ultimately have range: "i64_range (sint w * sint ?b)" by simp
    have "w * scast ?b = word_of_int (sint w * sint ?b)"
      by (simp only: of_int_mult of_int_sint scast_id)
    then show ?thesis by (simp only: sint_word_of_int_small [OF range])
  qed
  show ?thesis
    using quot [of 24] quot [of 48] quot [of 96] w small bar assms
    by (simp add: beat_pulse_load_timeline_def Let_def flags_write_def uint_ucast32 flip: w_def)
qed

end
