(* ===== verification/Link_State.thy ===== *)
theory Link_State
  imports Beat_Pulse
begin

text \<open>
  \<^verbatim>\<open>firmware/link.h\<close> and \<^verbatim>\<open>firmware/link.c\<close>: the local node, the peer table, the discovery
  messages, their encoder and the TLV callback that decodes them, and the periodic tick.
  \<open>link_handle_rx\<close>, which calls into the session supervisor, is in the theory Discovery.

  The peer table is the list of its 16 slots; a \<open>link_peer_t *\<close> is an index into it. The C flags
  \<open>in_use\<close>, \<open>measured\<close>, \<open>have_mep6\<close> and \<open>have_aep6\<close> only ever hold 0 or 1 and are booleans.
\<close>

section \<open>Constants\<close>

definition LINK_DISCOVERY_TTL_SEC :: nat where "LINK_DISCOVERY_TTL_SEC = 5"
definition LINK_DISCOVERY_BCAST_MS :: nat where "LINK_DISCOVERY_BCAST_MS = 250"
definition LINK_DISCOVERY_MIN_MS :: nat where "LINK_DISCOVERY_MIN_MS = 50"
definition LINK_DISCOVERY_PRUNE_GRACE_MS :: nat where "LINK_DISCOVERY_PRUNE_GRACE_MS = 1000"
definition LINK_DISCOVERY_PORT :: u16 where "LINK_DISCOVERY_PORT = 20808"
definition LINK_MAX_PEERS :: nat where "LINK_MAX_PEERS = 16"
definition LINK_MAX_MSG_DISCOVERY :: nat where "LINK_MAX_MSG_DISCOVERY = 512"
definition LINK_DEFAULT_TEMPO_US_PER_BEAT :: i64 where "LINK_DEFAULT_TEMPO_US_PER_BEAT = 500000"

lemmas discovery_consts =
  LINK_DISCOVERY_TTL_SEC_def LINK_DISCOVERY_BCAST_MS_def LINK_DISCOVERY_MIN_MS_def
  LINK_DISCOVERY_PRUNE_GRACE_MS_def LINK_MAX_PEERS_def

text \<open>The 4CC keys of tlv.h.\<close>

definition KEY_TMLN :: u32 where "KEY_TMLN = 0x746D6C6E"
definition KEY_SESS :: u32 where "KEY_SESS = 0x73657373"
definition KEY_STST :: u32 where "KEY_STST = 0x73747374"
definition KEY_MEP4 :: u32 where "KEY_MEP4 = 0x6D657034"
definition KEY_MEP6 :: u32 where "KEY_MEP6 = 0x6D657036"
definition KEY_AEP4 :: u32 where "KEY_AEP4 = 0x61657034"
definition KEY_AEP6 :: u32 where "KEY_AEP6 = 0x61657036"

lemmas discovery_keys =
  KEY_TMLN_def KEY_SESS_def KEY_STST_def KEY_MEP4_def KEY_MEP6_def KEY_AEP4_def KEY_AEP6_def

text \<open>\<open>{'_','a','s','d','p','_','v',0x01}\<close>\<close>

definition kProtoHdr :: "u8 list" where
  "kProtoHdr = [0x5F, 0x61, 0x73, 0x64, 0x70, 0x5F, 0x76, 0x01]"

lemma length_kProtoHdr [simp]: "length kProtoHdr = 8"
  by (simp add: kProtoHdr_def)

section \<open>State\<close>

record link_peer =
  in_use :: bool
  node_id :: link_id
  session_id :: link_id
  timeline :: link_timeline
  startstop :: link_startstop
  mep4_addr :: u32
  mep4_port :: u16
  aep4_addr :: u32
  aep4_port :: u16
  mep6_addr :: "u8 list"
  mep6_port :: u16
  have_mep6 :: bool
  aep6_addr :: "u8 list"
  aep6_port :: u16
  have_aep6 :: bool
  expires_at_us :: u64
  measured :: bool
  ghost_offset :: i64

text \<open>\<open>memset(p, 0, sizeof(*p))\<close>\<close>

definition zero_timeline :: link_timeline where
  "zero_timeline = \<lparr>tempo_us_per_beat = 0, beat_origin_microbeats = 0, time_origin_us_ghost = 0\<rparr>"

definition zero_startstop :: link_startstop where
  "zero_startstop = \<lparr>is_playing = 0, beats_microbeats = 0, timestamp_us_ghost = 0\<rparr>"

definition zero_peer :: link_peer where
  "zero_peer = \<lparr>in_use = False, node_id = zero_id, session_id = zero_id,
     timeline = zero_timeline, startstop = zero_startstop,
     mep4_addr = 0, mep4_port = 0, aep4_addr = 0, aep4_port = 0,
     mep6_addr = replicate 16 0, mep6_port = 0, have_mep6 = False,
     aep6_addr = replicate 16 0, aep6_port = 0, have_aep6 = False,
     expires_at_us = 0, measured = False, ghost_offset = 0\<rparr>"

text \<open>Module state of link.c; \<open>prng_s\<close> is the static of \<open>prng_byte\<close>, initially 0.\<close>

record link_st = beat_pulse_st +
  link_self_id :: link_id
  link_self_session :: link_id
  link_self_timeline :: link_timeline
  link_self_startstop :: link_startstop
  link_peers :: "link_peer list"
  s_last_bcast_us :: u64
  s_next_bcast_us :: u64
  s_state_dirty :: bool
  prng_s :: u32

section \<open>Initialisation\<close>

definition prng_byte :: "'a link_st_scheme \<Rightarrow> u8 \<times> 'a link_st_scheme" where
  "prng_byte s =
     (let s = (if prng_s s = 0
               then let (t, s) = host_time_us s in s\<lparr>prng_s := or (ucast t) 1\<rparr> else s);
          s = s\<lparr>prng_s := prng_s s * 1664525 + 1013904223\<rparr>
      in (ucast (drop_bit 24 (prng_s s)), s))"

primrec prng_bytes :: "nat \<Rightarrow> 'a link_st_scheme \<Rightarrow> u8 list \<times> 'a link_st_scheme" where
  "prng_bytes 0 s = ([], s)"
| "prng_bytes (Suc n) s =
     (let (b, s) = prng_byte s; (bs, s) = prng_bytes n s in (b # bs, s))"

definition link_init :: "'a link_st_scheme \<Rightarrow> 'a link_st_scheme" where
  "link_init s =
     (let (bs, s) = prng_bytes 8 s;
          s = s\<lparr>link_self_id := id_of_bytes bs\<rparr>;
          s = s\<lparr>link_self_session := link_self_id s\<rparr>;
          (g, s) = ghost_time_us s;
          s = s\<lparr>link_self_timeline :=
                  \<lparr>tempo_us_per_beat = LINK_DEFAULT_TEMPO_US_PER_BEAT,
                   beat_origin_microbeats = 0, time_origin_us_ghost = g\<rparr>,
                link_self_startstop :=
                  \<lparr>is_playing = 0, beats_microbeats = 0, timestamp_us_ghost = g\<rparr>,
                link_peers := replicate LINK_MAX_PEERS zero_peer,
                s_last_bcast_us := 0\<rparr>;
          (t, s) = host_time_us s;
          s = s\<lparr>s_next_bcast_us := t, s_state_dirty := True\<rparr>
      in beat_pulse_load_timeline (link_self_timeline s) (link_self_startstop s) s)"

section \<open>Encoders\<close>

text \<open>The build has TDM ports, so the audio endpoints are always emitted.\<close>

definition encode_msg :: "u8 \<Rightarrow> bool \<Rightarrow> 'a link_st_scheme \<Rightarrow> u8 list" where
  "encode_msg mtype with_state s =
     (let p = kProtoHdr @ [mtype, of_nat LINK_DISCOVERY_TTL_SEC, 0, 0] @ id_bytes (link_self_id s)
      in if \<not> with_state then p
      else let
        p = tlv_emit_header KEY_TMLN 24 p;
        p = p @ put_be64 (tempo_us_per_beat (link_self_timeline s));
        p = p @ put_be64 (beat_origin_microbeats (link_self_timeline s));
        p = p @ put_be64 (time_origin_us_ghost (link_self_timeline s));
        p = tlv_emit_bytes KEY_SESS (id_bytes (link_self_session s)) 8 p;
        p = tlv_emit_header KEY_STST 17 p;
        p = p @ [if is_playing (link_self_startstop s) \<noteq> 0 then 1 else 0];
        p = p @ put_be64 (beats_microbeats (link_self_startstop s));
        p = p @ put_be64 (timestamp_us_ghost (link_self_startstop s));
        p = tlv_emit_header KEY_MEP4 6 p @ put_be32 (net_local_ipv4 s) @ put_be16 LINK_DISCOVERY_PORT;
        p = tlv_emit_header KEY_MEP6 18 p @ take 16 (net_local_ipv6_bytes s) @ put_be16 LINK_DISCOVERY_PORT;
        p = tlv_emit_header KEY_AEP4 6 p @ put_be32 (net_local_ipv4 s) @ put_be16 LINK_DISCOVERY_PORT;
        p = tlv_emit_header KEY_AEP6 18 p @ take 16 (net_local_ipv6_bytes s) @ put_be16 LINK_DISCOVERY_PORT
      in p)"

definition send_alive :: "'a link_st_scheme \<Rightarrow> 'a link_st_scheme" where
  "send_alive s =
     (let buf = encode_msg 1 True s;
          s = snd (net_udp_send_v4_mcast LINK_DISCOVERY_PORT LINK_DISCOVERY_PORT buf s);
          s = snd (net_udp_send_v6_mcast LINK_DISCOVERY_PORT LINK_DISCOVERY_PORT buf s);
          (t, s) = host_time_us s
      in s\<lparr>s_last_bcast_us := t, s_next_bcast_us := t + of_nat (LINK_DISCOVERY_BCAST_MS * 1000),
           s_state_dirty := False\<rparr>)"

definition send_response :: "u32 \<Rightarrow> u16 \<Rightarrow> 'a link_st_scheme \<Rightarrow> 'a link_st_scheme" where
  "send_response to_addr to_port s =
     snd (net_udp_send_v4_unicast to_addr to_port LINK_DISCOVERY_PORT (encode_msg 2 True s) s)"

definition link_send_byebye :: "'a link_st_scheme \<Rightarrow> 'a link_st_scheme" where
  "link_send_byebye s =
     (let buf = kProtoHdr @ [3, 0, 0, 0] @ id_bytes (link_self_id s);
          s = snd (net_udp_send_v4_mcast LINK_DISCOVERY_PORT LINK_DISCOVERY_PORT buf s)
      in snd (net_udp_send_v6_mcast LINK_DISCOVERY_PORT LINK_DISCOVERY_PORT buf s))"

definition link_broadcast_alive_now :: "'a link_st_scheme \<Rightarrow> 'a link_st_scheme" where
  "link_broadcast_alive_now s =
     (let (t, s) = host_time_us (s\<lparr>s_state_dirty := True\<rparr>) in s\<lparr>s_next_bcast_us := t\<rparr>)"

section \<open>Decoder\<close>

definition handle_entry :: "link_peer tlv_cb" where
  "handle_entry key v n p =
     (if key = KEY_TMLN then
        if n \<noteq> 24 then Some (- 1, p)
        else Some (0, p\<lparr>timeline := \<lparr>tempo_us_per_beat = be64 v,
                                     beat_origin_microbeats = be64 (drop 8 v),
                                     time_origin_us_ghost = be64 (drop 16 v)\<rparr>\<rparr>)
      else if key = KEY_SESS then
        if n \<noteq> 8 then Some (- 1, p) else Some (0, p\<lparr>session_id := id_of_bytes v\<rparr>)
      else if key = KEY_STST then
        if n \<noteq> 17 then Some (- 1, p)
        else Some (0, p\<lparr>startstop := \<lparr>is_playing = (if v ! 0 \<noteq> 0 then 1 else 0),
                                      beats_microbeats = be64 (drop 1 v),
                                      timestamp_us_ghost = be64 (drop 9 v)\<rparr>\<rparr>)
      else if key = KEY_MEP4 then
        if n \<noteq> 6 then Some (- 1, p)
        else Some (0, p\<lparr>mep4_addr := be32 v, mep4_port := be16 (drop 4 v)\<rparr>)
      else if key = KEY_AEP4 then
        if n \<noteq> 6 then Some (- 1, p)
        else Some (0, p\<lparr>aep4_addr := be32 v, aep4_port := be16 (drop 4 v)\<rparr>)
      else if key = KEY_MEP6 then
        if n \<noteq> 18 then Some (- 1, p)
        else Some (0, p\<lparr>mep6_addr := take 16 v, mep6_port := be16 (drop 16 v), have_mep6 := True\<rparr>)
      else if key = KEY_AEP6 then
        if n \<noteq> 18 then Some (- 1, p)
        else Some (0, p\<lparr>aep6_addr := take 16 v, aep6_port := be16 (drop 16 v), have_aep6 := True\<rparr>)
      else Some (0, p))"

section \<open>The peer table\<close>

abbreviation is_peer :: "link_id \<Rightarrow> link_peer \<Rightarrow> bool" where
  "is_peer i p \<equiv> in_use p \<and> id_cmp (node_id p) i = 0"

definition find_or_alloc_peer :: "link_id \<Rightarrow> 'a link_st_scheme \<Rightarrow> nat option \<times> 'a link_st_scheme" where
  "find_or_alloc_peer i s =
     (case scan_slots (is_peer i) (\<lambda>p. \<not> in_use p) (link_peers s) 0 None of
        (Some k, _) \<Rightarrow> (Some k, s)
      | (None, Some k) \<Rightarrow>
          (Some k, s\<lparr>link_peers := (link_peers s)[k := zero_peer\<lparr>in_use := True, node_id := i\<rparr>]\<rparr>)
      | (None, None) \<Rightarrow> (None, s))"

definition evict_peer :: "link_id \<Rightarrow> 'a link_st_scheme \<Rightarrow> 'a link_st_scheme" where
  "evict_peer i s =
     (case find_index (is_peer i) (link_peers s) of
        Some k \<Rightarrow> s\<lparr>link_peers := (link_peers s)[k := zero_peer]\<rparr>
      | None \<Rightarrow> s)"

section \<open>The tick\<close>

definition bcast_due :: "u64 \<Rightarrow> 'a link_st_scheme \<Rightarrow> bool" where
  "bcast_due now s \<longleftrightarrow> s_state_dirty s \<or> s_next_bcast_us s \<le> now"

definition prune_peer :: "u64 \<Rightarrow> link_peer \<Rightarrow> link_peer" where
  "prune_peer now p =
     (if in_use p \<and> expires_at_us p + of_nat (LINK_DISCOVERY_PRUNE_GRACE_MS * 1000) < now
      then zero_peer else p)"

definition link_tick :: "'a link_st_scheme \<Rightarrow> 'a link_st_scheme" where
  "link_tick s =
     (let (now, s) = host_time_us s;
          s = (if bcast_due now s then
                 if of_nat (LINK_DISCOVERY_MIN_MS * 1000) \<le> now - s_last_bcast_us s
                 then send_alive s
                 else s\<lparr>s_next_bcast_us := s_last_bcast_us s + of_nat (LINK_DISCOVERY_MIN_MS * 1000)\<rparr>
               else s)
      in s\<lparr>link_peers := map (prune_peer now) (link_peers s)\<rparr>)"

section \<open>Messages\<close>

definition timeline_value :: "link_timeline \<Rightarrow> u8 list" where
  "timeline_value t = put_be64 (tempo_us_per_beat t) @ put_be64 (beat_origin_microbeats t)
                      @ put_be64 (time_origin_us_ghost t)"

definition startstop_value :: "link_startstop \<Rightarrow> u8 list" where
  "startstop_value t = (if is_playing t \<noteq> 0 then 1 else 0)
                       # put_be64 (beats_microbeats t) @ put_be64 (timestamp_us_ghost t)"

text \<open>The payload of an ALIVE or RESPONSE, entry by entry (spec section 5.2).\<close>

definition state_entries :: "'a link_st_scheme \<Rightarrow> (u32 \<times> u8 list) list" where
  "state_entries s =
     (let ep4 = put_be32 (net_local_ipv4 s) @ put_be16 LINK_DISCOVERY_PORT;
          ep6 = netif_ip6 s @ put_be16 LINK_DISCOVERY_PORT
      in [(KEY_TMLN, timeline_value (link_self_timeline s)),
          (KEY_SESS, id_bytes (link_self_session s)),
          (KEY_STST, startstop_value (link_self_startstop s)),
          (KEY_MEP4, ep4), (KEY_MEP6, ep6), (KEY_AEP4, ep4), (KEY_AEP6, ep6)])"

definition discovery_header :: "u8 \<Rightarrow> u8 \<Rightarrow> link_id \<Rightarrow> u8 list" where
  "discovery_header mtype ttl i = kProtoHdr @ [mtype, ttl, 0, 0] @ id_bytes i"

lemma length_values [simp]:
  "length (timeline_value t) = 24" "length (startstop_value u) = 17"
  by (simp_all add: timeline_value_def startstop_value_def)

lemma length_discovery_header [simp]: "length (discovery_header m t i) = 20"
  by (simp add: discovery_header_def)

lemma encode_msg_eq:
  assumes "length (netif_ip6 s) = 16"
  shows "encode_msg m True s = discovery_header m 5 (link_self_id s) @ tlv_payload (state_entries s)"
  using assms
  by (simp add: encode_msg_def Let_def discovery_header_def LINK_DISCOVERY_TTL_SEC_def
      state_entries_def tlv_entry_def tlv_emit_header_def tlv_emit_bytes_entry timeline_value_def
      startstop_value_def net_local_ipv6_bytes_def)

lemma length_state_entries:
  "length (netif_ip6 s) = 16 \<Longrightarrow> length (tlv_payload (state_entries s)) = 153"
  by (simp add: state_entries_def Let_def)

text \<open>The callback never reads outside its value and only writes the fields of its key.\<close>

interpretation entry_reader: tlv_safe_reader handle_entry
  "\<lambda>p. in_use p = u \<and> node_id p = i \<and> measured p = m \<and> ghost_offset p = g \<and> expires_at_us p = e"
  for u i m g e
proof unfold_locales
  show "handle_entry key v n ctx = handle_entry key (take (unat n) v) n ctx"
    if "unat n \<le> length v" for key n v ctx
    by (auto simp: handle_entry_def be_take id_of_bytes_take drop_take)
qed (auto simp: handle_entry_def split: if_splits)

text \<open>What a peer slot holds after a full state message of node \<open>s\<close>.\<close>

definition heard_state :: "'a link_st_scheme \<Rightarrow> link_peer \<Rightarrow> link_peer" where
  "heard_state s p =
     p\<lparr>session_id := link_self_session s,
       timeline := link_self_timeline s,
       startstop := (link_self_startstop s)
         \<lparr>is_playing := if is_playing (link_self_startstop s) \<noteq> 0 then 1 else 0\<rparr>,
       mep4_addr := net_local_ipv4 s, mep4_port := LINK_DISCOVERY_PORT,
       aep4_addr := net_local_ipv4 s, aep4_port := LINK_DISCOVERY_PORT,
       mep6_addr := netif_ip6 s, mep6_port := LINK_DISCOVERY_PORT, have_mep6 := True,
       aep6_addr := netif_ip6 s, aep6_port := LINK_DISCOVERY_PORT, have_aep6 := True\<rparr>"

lemma be64_at:
  "be64 (put_be64 a) = a" "be32 (put_be32 b) = b" "be16 (put_be16 c) = c"
  using be64_put [of a "[]"] be32_put [of b "[]"] be16_put [of c "[]"] by simp_all

lemma handle_timeline: "handle_entry KEY_TMLN (timeline_value t) 24 p = Some (0, p\<lparr>timeline := t\<rparr>)"
  by (cases t) (simp add: handle_entry_def timeline_value_def be64_at)

lemma handle_session: "handle_entry KEY_SESS (id_bytes i) 8 p = Some (0, p\<lparr>session_id := i\<rparr>)"
  by (simp add: handle_entry_def discovery_keys)

lemma handle_startstop:
  "handle_entry KEY_STST (startstop_value t) 17 p =
     Some (0, p\<lparr>startstop := t\<lparr>is_playing := if is_playing t \<noteq> 0 then 1 else 0\<rparr>\<rparr>)"
  by (cases t) (simp add: handle_entry_def discovery_keys startstop_value_def be64_at)

lemma handle_ep4:
  "handle_entry KEY_MEP4 (put_be32 a @ put_be16 q) 6 p = Some (0, p\<lparr>mep4_addr := a, mep4_port := q\<rparr>)"
  "handle_entry KEY_AEP4 (put_be32 a @ put_be16 q) 6 p = Some (0, p\<lparr>aep4_addr := a, aep4_port := q\<rparr>)"
  by (simp_all add: handle_entry_def discovery_keys be64_at)

lemma handle_ep6:
  assumes "length a = 16"
  shows "handle_entry KEY_MEP6 (a @ put_be16 q) 18 p
           = Some (0, p\<lparr>mep6_addr := a, mep6_port := q, have_mep6 := True\<rparr>)"
    "handle_entry KEY_AEP6 (a @ put_be16 q) 18 p
           = Some (0, p\<lparr>aep6_addr := a, aep6_port := q, have_aep6 := True\<rparr>)"
  using assms by (simp_all add: handle_entry_def discovery_keys be64_at)

lemma fold_state_entries:
  assumes "length (netif_ip6 s) = 16"
  shows "tlv_fold handle_entry (state_entries s) p = Some (0, heard_state s p)"
  using assms
  by (simp add: state_entries_def Let_def heard_state_def handle_timeline handle_session
      handle_startstop handle_ep4 handle_ep6)

section \<open>The peer table: at most one slot per node, never one for the node itself\<close>

abbreviation claim_peer :: "link_id \<Rightarrow> link_peer \<Rightarrow> link_peer" where
  "claim_peer i p \<equiv> zero_peer\<lparr>in_use := True, node_id := i\<rparr>"

lemma zero_peer_free [simp]: "\<not> in_use zero_peer"
  by (simp add: zero_peer_def)

interpretation peers: slot_table in_use node_id zero_peer claim_peer
  by unfold_locales simp_all

definition peers_inv :: "'a link_st_scheme \<Rightarrow> bool" where
  "peers_inv s \<longleftrightarrow> length (link_peers s) = LINK_MAX_PEERS \<and>
     distinct_keys in_use node_id (link_peers s) \<and>
     (\<forall>p\<in>set (link_peers s). in_use p \<longrightarrow> node_id p \<noteq> link_self_id s)"

definition known_peer :: "link_id \<Rightarrow> 'a link_st_scheme \<Rightarrow> bool" where
  "known_peer i s \<longleftrightarrow> (\<exists>p\<in>set (link_peers s). in_use p \<and> node_id p = i)"

lemma peers_inv_cong:
  "link_peers s = link_peers t \<Longrightarrow> link_self_id s = link_self_id t \<Longrightarrow> peers_inv s = peers_inv t"
  by (simp add: peers_inv_def)

lemma find_or_alloc_peer_cases:
  obtains (known) k where "find_or_alloc_peer i s = (Some k, s)" "k < length (link_peers s)"
      "in_use (link_peers s ! k)" "node_id (link_peers s ! k) = i"
  | (fresh) k where "find_or_alloc_peer i s =
        (Some k, s\<lparr>link_peers := (link_peers s)[k := claim_peer i undefined]\<rparr>)"
      "k < length (link_peers s)" "\<not> in_use (link_peers s ! k)" "\<not> known_peer i s"
      "find_index (\<lambda>p. in_use p \<and> node_id p = i) (link_peers s) = None"
  | (full) "find_or_alloc_peer i s = (None, s)" "\<forall>p\<in>set (link_peers s). in_use p" "\<not> known_peer i s"
proof (cases "find_index (is_peer i) (link_peers s)")
  case (Some k)
  then have "fst (scan_slots (is_peer i) (\<lambda>p. \<not> in_use p) (link_peers s) 0 None) = Some k"
    by (simp add: scan_slots_hit)
  then have "find_or_alloc_peer i s = (Some k, s)"
    by (auto simp: find_or_alloc_peer_def split: prod.splits)
  with find_index_SomeD [OF Some] known show thesis by auto
next
  case None
  note miss = scan_slots_miss [OF None, of "\<lambda>p. \<not> in_use p"]
  have unknown: "\<not> known_peer i s"
    using None by (auto simp: find_index_None known_peer_def)
  show thesis
  proof (cases "find_index (\<lambda>p. \<not> in_use p) (link_peers s)")
    case slot: (Some k)
    show thesis
      using find_index_SomeD [OF slot] miss slot unknown None
      by (intro fresh [of k]) (auto simp: find_or_alloc_peer_def)
  next
    case full_table: None
    with miss unknown full show thesis by (auto simp: find_or_alloc_peer_def find_index_None)
  qed
qed

lemma find_or_alloc_peer_None: "find_or_alloc_peer i s = (None, t) \<Longrightarrow> t = s"
  by (rule find_or_alloc_peer_cases [of i s]) auto

lemma find_or_alloc_peer_inv:
  assumes "peers_inv s" "i \<noteq> link_self_id s"
  shows "peers_inv (snd (find_or_alloc_peer i s))"
  using find_or_alloc_peer_cases [of i s]
proof cases
  case (fresh k)
  have "distinct_keys in_use node_id ((link_peers s)[k := claim_peer i undefined])"
    using assms(1) fresh by (intro peers.distinct_claim) (auto simp: peers_inv_def)
  then show ?thesis
    using assms fresh by (auto simp: peers_inv_def dest: in_set_updateD)
qed (use assms in auto)

lemma evict_peer_inv: "peers_inv s \<Longrightarrow> peers_inv (evict_peer i s)"
  by (auto simp: evict_peer_def peers_inv_def split: option.splits
      dest: in_set_updateD intro: peers.distinct_release)

lemma evict_peer_gone:
  assumes "peers_inv s"
  shows "\<not> known_peer i (evict_peer i s)"
proof (cases "find_index (is_peer i) (link_peers s)")
  case None
  then have "\<forall>p\<in>set (link_peers s). \<not> is_peer i p" by (simp only: find_index_None)
  then show ?thesis using None by (simp add: evict_peer_def known_peer_def del: id_cmp_eq_0) auto
next
  case (Some k)
  have k: "k < length (link_peers s)" "in_use (link_peers s ! k)" "node_id (link_peers s ! k) = i"
    using find_index_SomeD [OF Some] by simp_all
  have "link_peers (evict_peer i s) = (link_peers s)[k := zero_peer]"
    using Some by (simp add: evict_peer_def del: id_cmp_eq_0)
  then show ?thesis
    using peers.release_gone [OF _ k(1,2)] assms k(3) by (auto simp: known_peer_def peers_inv_def)
qed

text \<open>Other slots are not touched.\<close>

lemma evict_peer_others:
  assumes "p \<in> set (link_peers s)" "in_use p" "node_id p \<noteq> i"
  shows "p \<in> set (link_peers (evict_peer i s))"
proof -
  obtain j where j: "j < length (link_peers s)" "link_peers s ! j = p"
    using assms(1) by (auto simp: in_set_conv_nth)
  show ?thesis
  proof (cases "find_index (is_peer i) (link_peers s)")
    case (Some k)
    then have "k \<noteq> j" using find_index_SomeD [OF Some] j assms by auto
    then have "(link_peers s)[k := zero_peer] ! j = p" using j by simp
    then have "p \<in> set ((link_peers s)[k := zero_peer])"
      using j by (metis length_list_update nth_mem)
    then show ?thesis using Some by (simp add: evict_peer_def del: id_cmp_eq_0)
  next
    case None
    with assms(1) show ?thesis by (simp add: evict_peer_def del: id_cmp_eq_0)
  qed
qed

lemma evict_peer_subset:
  "p \<in> set (link_peers (evict_peer i s)) \<Longrightarrow> in_use p \<Longrightarrow> p \<in> set (link_peers s)"
  by (auto simp: evict_peer_def split: option.splits dest: in_set_updateD)

section \<open>The tick\<close>

lemma in_use_prune: "in_use (prune_peer now p) \<Longrightarrow> prune_peer now p = p"
  by (auto simp: prune_peer_def split: if_splits)

lemma send_alive_frame [simp]:
  "link_peers (send_alive s) = link_peers s" "link_self_id (send_alive s) = link_self_id s"
  "\<not> s_state_dirty (send_alive s)" "bp_flags (send_alive s) = bp_flags s"
  "s_flags (send_alive s) = s_flags s"
  by (simp_all add: send_alive_def host_time_us_eq Let_def logged_def)

definition alive_datagrams :: "'a link_st_scheme \<Rightarrow> datagram list" where
  "alive_datagrams s =
     [sent_to (IPv4 224 76 78 75) LINK_DISCOVERY_PORT LINK_DISCOVERY_PORT (encode_msg 1 True s),
      sent_to (IPv6 [0xff120000, 0, 0, 0x00008080]) LINK_DISCOVERY_PORT LINK_DISCOVERY_PORT
        (encode_msg 1 True s)]"

lemma send_alive_sent [simp]: "sent (send_alive s) = sent s @ alive_datagrams s"
  by (simp add: send_alive_def host_time_us_eq Let_def alive_datagrams_def)

lemma peers_inv_prune:
  assumes "peers_inv s" "link_peers t = map (prune_peer now) (link_peers s)" "link_self_id t = link_self_id s"
  shows "peers_inv t"
proof -
  have keep: "in_use r \<and> node_id (prune_peer now r) = node_id r" if "in_use (prune_peer now r)" for r
    using in_use_prune [OF that] that by simp
  have "distinct_keys in_use node_id (map (prune_peer now) (link_peers s))"
    using assms(1) keep by (intro peers.distinct_map) (auto simp: peers_inv_def)
  with assms keep show ?thesis by (auto simp: peers_inv_def)
qed

lemma link_tick_inv: "peers_inv s \<Longrightarrow> peers_inv (link_tick s)"
  by (rule peers_inv_prune [of s]) (auto simp: link_tick_def host_time_us_eq Let_def)

text \<open>The tick in one equation: broadcast, throttle or neither, then prune.\<close>

definition tick_bcast :: "u64 \<Rightarrow> 'a link_st_scheme \<Rightarrow> 'a link_st_scheme" where
  "tick_bcast now s =
     (if \<not> bcast_due now s then s
      else if 50000 \<le> now - s_last_bcast_us s then send_alive s
      else s\<lparr>s_next_bcast_us := s_last_bcast_us s + 50000\<rparr>)"

lemma link_tick_eq:
  "link_tick s =
     (let now = host_now s; t = tick_bcast now (s\<lparr>n_reads := n_reads s + 2\<rparr>)
      in t\<lparr>link_peers := map (prune_peer now) (link_peers t)\<rparr>)"
  by (simp add: link_tick_def host_time_us_eq Let_def tick_bcast_def discovery_consts)

text \<open>An ALIVE goes out exactly when one is due and the last one is at least 50 ms old.\<close>

definition alive_now :: "'a link_st_scheme \<Rightarrow> bool" where
  "alive_now s \<longleftrightarrow> bcast_due (host_now s) s \<and> 50000 \<le> host_now s - s_last_bcast_us s"

lemma bcast_due_update [simp]: "bcast_due now (s\<lparr>n_reads := k\<rparr>) = bcast_due now s"
  by (simp add: bcast_due_def)

lemma alive_datagrams_update [simp]: "alive_datagrams (s\<lparr>n_reads := k\<rparr>) = alive_datagrams s"
  by (simp add: alive_datagrams_def encode_msg_def net_local_ipv4_def net_local_ipv6_bytes_def)

lemma sent_link_tick:
  "sent (link_tick s) = sent s @ (if alive_now s then alive_datagrams s else [])"
  by (simp add: link_tick_eq Let_def tick_bcast_def alive_now_def)

lemma link_tick_peers: "link_peers (link_tick s) = map (prune_peer (host_now s)) (link_peers s)"
  by (simp add: link_tick_eq Let_def tick_bcast_def)

text \<open>The deadline after a tick: 250 ms after a broadcast, 50 ms after the last one if throttled.\<close>

lemma link_tick_deadline:
  "s_next_bcast_us (link_tick s) =
     (if alive_now s then s_last_bcast_us (link_tick s) + 250000
      else if bcast_due (host_now s) s then s_last_bcast_us s + 50000
      else s_next_bcast_us s)"
  "s_state_dirty (link_tick s) \<longleftrightarrow> s_state_dirty s \<and> \<not> alive_now s"
  by (simp_all add: link_tick_eq Let_def tick_bcast_def alive_now_def send_alive_def host_time_us_eq
      logged_def discovery_consts)

section \<open>Properties\<close>

text \<open>
  C18: A tick multicasts the node's ALIVE, once on IPv4 and once on IPv6, exactly if one is due (its
  deadline has passed or the state changed) and the last one is at least 50 ms old; it then plans
  the next for 250 ms later. A due ALIVE that is too early is postponed to the end of the 50 ms, not
  dropped.
\<close>

theorem tick_broadcast:
  "let t = link_tick s; due = s_state_dirty s \<or> s_next_bcast_us s \<le> host_now s;
       old = 50000 \<le> host_now s - s_last_bcast_us s in
   sent t = sent s @ (if due \<and> old then alive_datagrams s else []) \<and>
   (s_state_dirty t \<longleftrightarrow> s_state_dirty s \<and> \<not> old) \<and>
   s_next_bcast_us t = (if due \<and> old then s_last_bcast_us t + 250000
                        else if due then s_last_bcast_us s + 50000 else s_next_bcast_us s)"
  using link_tick_deadline [of s] sent_link_tick [of s]
  by (auto simp: Let_def alive_now_def bcast_due_def)

text \<open>
  Every operation of the peer table and the tick keep it well formed: sixteen slots, at most one
  per node identifier, and none for the node itself.
\<close>

theorem peer_table_inv:
  assumes "peers_inv s"
  shows "peers_inv (link_tick s) \<and> peers_inv (evict_peer i s) \<and>
    (i \<noteq> link_self_id s \<longrightarrow> peers_inv (snd (find_or_alloc_peer i s)))"
  using assms link_tick_inv evict_peer_inv find_or_alloc_peer_inv by blast

end
