(* ===== verification/Session_Election.thy ===== *)
theory Session_Election
  imports Link_State
begin

text \<open>
  \<^verbatim>\<open>firmware/session.c\<close>, the half that does not call into the measurement module: the searches
  over the peer table and \<open>on_measure_done\<close>, which decides whether to join the measured session.
  \<open>session_observe_peer\<close> and \<open>session_tick\<close> are in the theory Session.
\<close>

definition LINK_SESSION_EPS_US :: i64 where "LINK_SESSION_EPS_US = 500000"

record session_st = link_st +
  s_last_remeasure_us :: u64
  s_active_target_session :: link_id

abbreviation in_session :: "link_id \<Rightarrow> link_peer \<Rightarrow> bool" where
  "in_session i p \<equiv> in_use p \<and> id_cmp (session_id p) i = 0"

definition find_founder :: "link_id \<Rightarrow> 'a link_st_scheme \<Rightarrow> nat option" where
  "find_founder i s =
     (case find_index (\<lambda>p. in_session i p \<and> id_cmp (node_id p) i = 0) (link_peers s) of
        Some k \<Rightarrow> Some k
      | None \<Rightarrow> find_index (in_session i) (link_peers s))"

definition session_known_in_local_view :: "link_id \<Rightarrow> 'a link_st_scheme \<Rightarrow> bool" where
  "session_known_in_local_view i s \<longleftrightarrow>
     id_cmp i (link_self_session s) = 0 \<or>
     find_index (\<lambda>p. in_use p \<and> measured p \<and> id_cmp (session_id p) i = 0) (link_peers s) \<noteq> None"

text \<open>\<open>llabs\<close> on the target: the magnitude of the most negative value wraps to itself.\<close>

definition llabs :: "i64 \<Rightarrow> i64" where
  "llabs x = (if sint x < 0 then - x else x)"

text \<open>The rule of spec section 6.5: \<open>diff\<close> is how far the measured ghost clock is ahead of ours.\<close>

definition switch_to_new :: "i64 \<Rightarrow> link_id \<Rightarrow> link_id \<Rightarrow> bool" where
  "switch_to_new diff target self \<longleftrightarrow>
     (if sint LINK_SESSION_EPS_US < sint diff then True
      else if sint (llabs diff) < sint LINK_SESSION_EPS_US then id_cmp target self < 0
      else False)"

definition mark_measured :: "link_id \<Rightarrow> i64 \<Rightarrow> link_peer \<Rightarrow> link_peer" where
  "mark_measured i x p =
     (if in_use p \<and> id_cmp (session_id p) i = 0 then p\<lparr>measured := True, ghost_offset := x\<rparr> else p)"

definition newer_of :: "link_id \<Rightarrow> link_peer \<Rightarrow> link_peer option \<Rightarrow> link_peer option" where
  "newer_of i p best =
     (if in_session i p \<and>
         (case best of None \<Rightarrow> True
          | Some b \<Rightarrow> sint (time_origin_us_ghost (timeline b)) < sint (time_origin_us_ghost (timeline p)))
      then Some p else best)"

definition best_peer :: "link_id \<Rightarrow> link_peer list \<Rightarrow> link_peer option" where
  "best_peer i ps = fold (newer_of i) ps None"

definition adopt_best :: "'a session_st_scheme \<Rightarrow> 'a session_st_scheme" where
  "adopt_best s =
     (case best_peer (link_self_session s) (link_peers s) of
        None \<Rightarrow> s
      | Some b \<Rightarrow>
          let s = s\<lparr>link_self_timeline := timeline b, link_self_startstop := startstop b\<rparr>
          in beat_pulse_load_timeline (link_self_timeline s) (link_self_startstop s) s)"

definition on_measure_done :: "bool \<Rightarrow> i64 \<Rightarrow> 'a session_st_scheme \<Rightarrow> 'a session_st_scheme" where
  "on_measure_done success x s =
     (if \<not> success then s
      else let
        cur_intercept = ghost_time_get_intercept s;
        (now_host, s) = host_time_us s;
        cur_ghost = now_host + cur_intercept;
        new_ghost = now_host + x;
        diff = new_ghost - cur_ghost;
        switch = switch_to_new diff (s_active_target_session s) (link_self_session s);
        s = s\<lparr>link_peers := map (mark_measured (s_active_target_session s) x) (link_peers s)\<rparr>;
        s = (if switch then
               let s = s\<lparr>link_self_session := s_active_target_session s\<rparr>;
                   s = ghost_time_set_intercept x s;
                   s = adopt_best s;
                   s = beat_pulse_set_sync_led True s
               in link_broadcast_alive_now s
             else s);
        (t, s) = host_time_us s
      in s\<lparr>s_last_remeasure_us := t\<rparr>)"

section \<open>The election rule\<close>

text \<open>Away from the one value whose magnitude wraps, the rule is the one of the specification.\<close>

lemma switch_to_new_iff:
  assumes "sint d \<noteq> - (2 ^ 63)"
  shows "switch_to_new d target self \<longleftrightarrow> 500000 < sint d \<or> \<bar>sint d\<bar> < 500000 \<and> target < self"
proof -
  have "sint (llabs d) = \<bar>sint d\<bar>"
  proof (cases "sint d < 0")
    case True
    then have "sint (- d) = - sint d"
      using assms i64_range_sint [of d] sint_diff_small [of 0 d] by simp
    with True show ?thesis by (simp add: llabs_def)
  qed (simp add: llabs_def)
  then show ?thesis by (auto simp: switch_to_new_def LINK_SESSION_EPS_US_def)
qed

section \<open>The latest timeline of a session\<close>

lemma newer_of_fold:
  "fold (newer_of i) ps best = Some b \<Longrightarrow>
     (best = Some b \<or> b \<in> set ps \<and> in_session i b) \<and>
     (\<forall>q. (best = Some q \<or> q \<in> set ps \<and> in_session i q) \<longrightarrow>
        sint (time_origin_us_ghost (timeline q)) \<le> sint (time_origin_us_ghost (timeline b)))"
proof (induction ps arbitrary: best)
  case (Cons p ps)
  have "fold (newer_of i) ps (newer_of i p best) = Some b" using Cons.prems by simp
  note IH = Cons.IH [OF this]
  show ?case
  proof (cases "newer_of i p best = Some p")
    case True
    with IH show ?thesis
      by (fastforce simp: newer_of_def split: if_splits option.splits)
  next
    case False
    then have "newer_of i p best = best" by (auto simp: newer_of_def)
    with False IH show ?thesis
      by (fastforce simp: newer_of_def split: if_splits option.splits)
  qed
qed simp

lemma best_peer_max:
  assumes "best_peer i ps = Some b"
  shows "b \<in> set ps" "in_use b" "session_id b = i"
    "q \<in> set ps \<Longrightarrow> in_use q \<Longrightarrow> session_id q = i \<Longrightarrow>
       sint (time_origin_us_ghost (timeline q)) \<le> sint (time_origin_us_ghost (timeline b))"
  using newer_of_fold [OF assms [unfolded best_peer_def]] by auto

lemma newer_of_fold_keeps: "best \<noteq> None \<Longrightarrow> fold (newer_of i) ps best \<noteq> None"
proof (induction ps arbitrary: best)
  case (Cons p ps)
  then have "newer_of i p best \<noteq> None" by (auto simp: newer_of_def)
  then show ?case using Cons.IH by simp
qed simp

lemma best_peer_None: "best_peer i ps = None \<longleftrightarrow> (\<forall>p\<in>set ps. \<not> (in_use p \<and> session_id p = i))"
proof -
  have "fold (newer_of i) ps None = None \<longleftrightarrow> (\<forall>p\<in>set ps. \<not> (in_use p \<and> session_id p = i))"
  proof (induction ps)
    case (Cons p ps)
    show ?case
    proof (cases "in_use p \<and> session_id p = i")
      case True
      then have "newer_of i p None = Some p" by (simp add: newer_of_def)
      with True show ?thesis using newer_of_fold_keeps [of "Some p" i ps] by auto
    next
      case False
      then have "newer_of i p None = None" by (auto simp: newer_of_def)
      with False Cons.IH show ?thesis by auto
    qed
  qed simp
  then show ?thesis by (simp add: best_peer_def)
qed

section \<open>What a finished measurement changes\<close>

lemma mark_measured_key [simp]:
  "in_use (mark_measured i x p) = in_use p" "node_id (mark_measured i x p) = node_id p"
  "session_id (mark_measured i x p) = session_id p" "timeline (mark_measured i x p) = timeline p"
  "startstop (mark_measured i x p) = startstop p"
  by (simp_all add: mark_measured_def)

lemma load_timeline_frame [simp]:
  "link_peers (beat_pulse_load_timeline t u s) = link_peers s"
  "link_self_id (beat_pulse_load_timeline t u s) = link_self_id s"
  "link_self_session (beat_pulse_load_timeline t u s) = link_self_session s"
  "link_self_timeline (beat_pulse_load_timeline t u s) = link_self_timeline s"
  "link_self_startstop (beat_pulse_load_timeline t u s) = link_self_startstop s"
  "intercept (beat_pulse_load_timeline t u s) = intercept s"
  "net_log (beat_pulse_load_timeline t u s) = net_log s"
  "n_reads (beat_pulse_load_timeline t u s) = n_reads s"
  by (simp_all add: beat_pulse_load_timeline_def flags_write_def Let_def intercept_def)

lemma sync_led_frame [simp]:
  "link_peers (beat_pulse_set_sync_led on s) = link_peers s"
  "link_self_id (beat_pulse_set_sync_led on s) = link_self_id s"
  "link_self_session (beat_pulse_set_sync_led on s) = link_self_session s"
  "link_self_timeline (beat_pulse_set_sync_led on s) = link_self_timeline s"
  "link_self_startstop (beat_pulse_set_sync_led on s) = link_self_startstop s"
  "intercept (beat_pulse_set_sync_led on s) = intercept s"
  "net_log (beat_pulse_set_sync_led on s) = net_log s"
  by (simp_all add: beat_pulse_set_sync_led_def flags_write_def Let_def intercept_def)

lemma set_intercept_frame [simp]:
  "link_peers (ghost_time_set_intercept x s) = link_peers s"
  "link_self_id (ghost_time_set_intercept x s) = link_self_id s"
  "link_self_session (ghost_time_set_intercept x s) = link_self_session s"
  "link_self_timeline (ghost_time_set_intercept x s) = link_self_timeline s"
  "link_self_startstop (ghost_time_set_intercept x s) = link_self_startstop s"
  "net_log (ghost_time_set_intercept x s) = net_log s"
  by (simp_all add: ghost_time_set_intercept_def)

lemma intercept_update [simp]:
  "intercept (s\<lparr>link_self_timeline := a\<rparr>) = intercept s"
  "intercept (s\<lparr>link_self_startstop := b\<rparr>) = intercept s"
  "intercept (s\<lparr>link_self_session := c\<rparr>) = intercept s"
  "intercept (s\<lparr>link_peers := d\<rparr>) = intercept s" "intercept (w\<lparr>n_reads := e\<rparr>) = intercept w"
  "intercept (s\<lparr>s_next_bcast_us := f\<rparr>) = intercept s" "intercept (s\<lparr>s_state_dirty := g\<rparr>) = intercept s"
  "intercept (v\<lparr>s_last_remeasure_us := h\<rparr>) = intercept v"
  by (simp_all add: intercept_def)

lemma broadcast_frame [simp]:
  "link_peers (link_broadcast_alive_now s) = link_peers s"
  "link_self_id (link_broadcast_alive_now s) = link_self_id s"
  "link_self_session (link_broadcast_alive_now s) = link_self_session s"
  "link_self_timeline (link_broadcast_alive_now s) = link_self_timeline s"
  "link_self_startstop (link_broadcast_alive_now s) = link_self_startstop s"
  "intercept (link_broadcast_alive_now s) = intercept s"
  "s_state_dirty (link_broadcast_alive_now s)" "net_log (link_broadcast_alive_now s) = net_log s"
  by (simp_all add: link_broadcast_alive_now_def host_time_us_eq Let_def)

lemma adopt_best_frame [simp]:
  "link_peers (adopt_best s) = link_peers s" "link_self_id (adopt_best s) = link_self_id s"
  "link_self_session (adopt_best s) = link_self_session s" "intercept (adopt_best s) = intercept s"
  "net_log (adopt_best s) = net_log s"
  by (simp_all add: adopt_best_def Let_def split: option.split)

lemma adopt_best_timeline:
  "link_self_timeline (adopt_best s) =
     (case best_peer (link_self_session s) (link_peers s) of
        None \<Rightarrow> link_self_timeline s | Some b \<Rightarrow> timeline b)"
  "link_self_startstop (adopt_best s) =
     (case best_peer (link_self_session s) (link_peers s) of
        None \<Rightarrow> link_self_startstop s | Some b \<Rightarrow> startstop b)"
  by (simp_all add: adopt_best_def Let_def split: option.split)

text \<open>The clock reads cancel: the decision depends on the two intercepts only.\<close>

definition joins :: "i64 \<Rightarrow> 'a session_st_scheme \<Rightarrow> bool" where
  "joins x s \<longleftrightarrow> switch_to_new (x - intercept s) (s_active_target_session s) (link_self_session s)"

lemma on_measure_done_peers:
  "link_peers (on_measure_done ok x s) =
     (if ok then map (mark_measured (s_active_target_session s) x) (link_peers s) else link_peers s)"
  by (simp add: on_measure_done_def Let_def host_time_us_eq)

text \<open>Joining: session and intercept change together, and only when the rule says so.\<close>

lemma on_measure_done_session:
  "link_self_session (on_measure_done ok x s) =
     (if ok \<and> joins x s then s_active_target_session s else link_self_session s)"
  "intercept (on_measure_done ok x s) = (if ok \<and> joins x s then x else intercept s)"
  "link_self_id (on_measure_done ok x s) = link_self_id s"
  "net_log (on_measure_done ok x s) = net_log s"
  by (simp_all add: on_measure_done_def Let_def host_time_us_eq joins_def)

text \<open>The phase reference adopted on joining is the latest one heard from that session.\<close>

lemma on_measure_done_timeline:
  "link_self_timeline (on_measure_done ok x s) =
     (if ok \<and> joins x s
      then (case best_peer (s_active_target_session s)
                   (map (mark_measured (s_active_target_session s) x) (link_peers s)) of
              None \<Rightarrow> link_self_timeline s | Some b \<Rightarrow> timeline b)
      else link_self_timeline s)"
  by (simp add: on_measure_done_def Let_def host_time_us_eq joins_def adopt_best_timeline split: option.split)

lemma on_measure_done_inv:
  assumes "peers_inv s"
  shows "peers_inv (on_measure_done ok x s)"
proof -
  have "distinct_keys in_use node_id (map (mark_measured (s_active_target_session s) x) (link_peers s))"
    using assms by (intro peers.distinct_map) (auto simp: peers_inv_def)
  with assms show ?thesis
    by (auto simp: peers_inv_def on_measure_done_peers on_measure_done_session)
qed

section \<open>Properties\<close>

text \<open>
  C4: A successful measurement moves the node into the measured session, and sets its ghost clock to
  the measured one, exactly if that clock is more than 500 ms ahead, or closer than 500 ms either
  way with the smaller session identifier; otherwise session and clock stay. In both cases exactly
  the peers of the measured session are marked as measured.
\<close>

theorem session_election:
  assumes "sint (x - intercept s) \<noteq> - (2 ^ 63)"
  shows "let t = on_measure_done True x s; d = sint (x - intercept s);
      joined = (500000 < d \<or> \<bar>d\<bar> < 500000 \<and> s_active_target_session s < link_self_session s) in
    link_self_session t = (if joined then s_active_target_session s else link_self_session s) \<and>
    intercept t = (if joined then x else intercept s) \<and>
    link_peers t = map (\<lambda>p. if in_use p \<and> session_id p = s_active_target_session s
                             then p\<lparr>measured := True, ghost_offset := x\<rparr> else p) (link_peers s)"
  using switch_to_new_iff [OF assms(1)]
  by (simp add: Let_def on_measure_done_session on_measure_done_peers joins_def
      mark_measured_def [abs_def])

text \<open>
  C12: The election cannot swap: of two nodes of different sessions that each measure the other, with
  opposite clock differences, at most one joins the other's session; and exactly one does unless the
  clocks differ by exactly 500 ms.
\<close>

theorem election_antisymmetric:
  assumes "a \<noteq> b" "sint d \<noteq> - (2 ^ 63)"
  shows "\<not> (switch_to_new d b a \<and> switch_to_new (- d) a b) \<and>
    (\<bar>sint d\<bar> \<noteq> 500000 \<longrightarrow> switch_to_new d b a \<or> switch_to_new (- d) a b)"
proof -
  have neg: "sint (- d) = - sint d"
    using assms(2) i64_range_sint [of d] sint_diff_small [of 0 d] by simp
  then have "sint (- d) \<noteq> - (2 ^ 63)" using i64_range_sint [of d] by simp
  then show ?thesis
    using assms neg by (auto simp: switch_to_new_iff)
qed

text \<open>
  C22: On joining, the node takes over the timeline of a peer of that session whose time origin is the
  latest of all peers of the session; without such a peer it keeps its own.
\<close>

theorem joined_timeline_latest:
  assumes "joins x s"
  shows "let members = {p \<in> set (link_peers s). in_use p \<and> session_id p = s_active_target_session s};
      tml = link_self_timeline (on_measure_done True x s) in
    (members = {} \<and> tml = link_self_timeline s) \<or>
    (\<exists>p\<in>members. tml = timeline p \<and>
       (\<forall>q\<in>members. sint (time_origin_us_ghost (timeline q)) \<le> sint (time_origin_us_ghost tml)))"
proof -
  define members where "members = {p \<in> set (link_peers s). in_use p \<and> session_id p = s_active_target_session s}"
  define tml where "tml = link_self_timeline (on_measure_done True x s)"
  let ?i = "s_active_target_session s"
  let ?ps = "map (mark_measured ?i x) (link_peers s)"
  have tml: "tml = (case best_peer ?i ?ps of None \<Rightarrow> link_self_timeline s | Some b \<Rightarrow> timeline b)"
    using assms(1) by (simp add: tml_def on_measure_done_timeline)
  have "(members = {} \<and> tml = link_self_timeline s) \<or>
    (\<exists>p\<in>members. tml = timeline p \<and>
       (\<forall>q\<in>members. sint (time_origin_us_ghost (timeline q)) \<le> sint (time_origin_us_ghost tml)))"
  proof (cases "best_peer ?i ?ps")
    case None
    then have "members = {}" by (auto simp: members_def best_peer_None)
    with tml None show ?thesis by simp
  next
    case (Some b)
    note best = best_peer_max [OF Some]
    obtain p where p: "p \<in> set (link_peers s)" "b = mark_measured ?i x p" using best(1) by auto
    then have "p \<in> members" using best(2,3) by (simp add: members_def)
    moreover have "tml = timeline p" using tml Some p(2) by simp
    moreover have "sint (time_origin_us_ghost (timeline q)) \<le> sint (time_origin_us_ghost tml)"
      if "q \<in> members" for q
      using best(4) [of "mark_measured ?i x q"] that tml Some by (simp add: members_def)
    ultimately show ?thesis by blast
  qed
  then show ?thesis by (simp only: Let_def members_def tml_def)
qed

text \<open>
  Remeasuring the session the node is already in corrects its ghost clock only if the clock has
  fallen more than 500 ms behind: any smaller drift, and any lead, is measured and discarded.
\<close>

theorem remeasurement_discards_drift:
  assumes "s_active_target_session s = link_self_session s" "sint (x - intercept s) \<le> 500000"
    "sint (x - intercept s) \<noteq> - (2 ^ 63)"
  shows "intercept (on_measure_done True x s) = intercept s \<and>
    link_self_timeline (on_measure_done True x s) = link_self_timeline s"
  using switch_to_new_iff [OF assms(3)] assms(1,2)
  by (simp add: on_measure_done_session on_measure_done_timeline joins_def)

end
