(* ===== verification/Median.thy ===== *)
theory Median
  imports Prelude "HOL-Library.Multiset"
begin

text \<open>
  \<^verbatim>\<open>firmware/median.c\<close>: in-place selection on an array of \<open>int64_t\<close> samples. The array is the
  list of its elements, indices are \<open>nat\<close> (\<open>size_t\<close>; every subtraction below is guarded as in
  the code), comparisons are signed. The lemmas show that \<open>nth_element\<close> puts the \<open>k\<close>-th
  smallest of its window at index \<open>k\<close> and that \<open>median_i64\<close> is the median of the sorted samples.
\<close>

section \<open>The code\<close>

definition swap64 :: "i64 list \<Rightarrow> nat \<Rightarrow> nat \<Rightarrow> i64 list" where
  "swap64 a i j = a[i := a ! j, j := a ! i]"

text \<open>The \<open>for\<close> loop of \<open>partition\<close>, from \<open>j\<close>.\<close>

function partition_loop :: "i64 \<Rightarrow> nat \<Rightarrow> nat \<Rightarrow> nat \<Rightarrow> i64 list \<Rightarrow> nat \<times> i64 list" where
  "partition_loop pivot hi i j a =
     (if j < hi then
        (if sint (a ! j) < sint pivot
         then partition_loop pivot hi (i + 1) (j + 1) (swap64 a i j)
         else partition_loop pivot hi i (j + 1) a)
      else (i, a))"
  by pat_completeness auto
termination
  by (relation "measure (\<lambda>(pivot, hi, i, j, a). hi - j)") auto

declare partition_loop.simps [simp del]

lemma partition_loop_stop: "hi \<le> j \<Longrightarrow> partition_loop pivot hi i j a = (i, a)"
  by (simp add: partition_loop.simps [of pivot hi i j a])

definition partition64 :: "i64 list \<Rightarrow> nat \<Rightarrow> nat \<Rightarrow> nat \<times> i64 list" where
  "partition64 a lo hi =
     (case partition_loop (a ! hi) hi lo lo a of (i, a') \<Rightarrow> (i, swap64 a' i hi))"

lemma partition_loop_bounds:
  "i \<le> j \<Longrightarrow> j \<le> hi \<Longrightarrow> i \<le> fst (partition_loop pivot hi i j a) \<and> fst (partition_loop pivot hi i j a) \<le> hi"
proof (induction pivot hi i j a rule: partition_loop.induct)
  case (1 pivot hi i j a)
  then show ?case
    by (subst (1 2) partition_loop.simps) (fastforce simp: Suc_le_eq)
qed

lemma partition_bounds: "lo \<le> hi \<Longrightarrow> lo \<le> fst (partition64 a lo hi) \<and> fst (partition64 a lo hi) \<le> hi"
  using partition_loop_bounds [of lo lo hi "a ! hi" a]
  by (simp add: partition64_def case_prod_beta)

function nth_element :: "i64 list \<Rightarrow> nat \<Rightarrow> nat \<Rightarrow> nat \<Rightarrow> i64 list" where
  "nth_element a lo hi k =
     (if lo < hi then
        (let p = fst (partition64 a lo hi); a' = snd (partition64 a lo hi) in
         if p = k then a'
         else if k < p then nth_element a' lo (p - 1) k
         else nth_element a' (p + 1) hi k)
      else a)"
  by pat_completeness auto
termination
proof (relation "measure (\<lambda>(a, lo, hi, k). hi - lo)", goal_cases)
  case (2 a lo hi k x y)
  then show ?case using partition_bounds [of lo hi a] by simp linarith
next
  case (3 a lo hi k x y)
  then show ?case using partition_bounds [of lo hi a] by simp linarith
qed simp

declare nth_element.simps [simp del]

definition median_i64 :: "i64 list \<Rightarrow> nat \<Rightarrow> i64 \<times> i64 list" where
  "median_i64 a n =
     (if n = 0 then (0, a)
      else let a1 = nth_element a 0 (n - 1) (n div 2); mid = a1 ! (n div 2) in
        if even n
        then let a2 = nth_element a1 0 (n - 1) (n div 2 - 1)
             in (sdiv64 (a2 ! (n div 2 - 1) + mid) 2, a2)
        else (mid, a1))"

section \<open>Partition\<close>

text \<open>\<open>a'\<close> rearranges the window \<open>lo..hi\<close> of \<open>a\<close> and leaves the rest alone.\<close>

definition perm_on :: "nat \<Rightarrow> nat \<Rightarrow> i64 list \<Rightarrow> i64 list \<Rightarrow> bool" where
  "perm_on lo hi a a' \<longleftrightarrow> length a' = length a \<and> mset a' = mset a \<and>
     (\<forall>i. i < lo \<or> hi < i \<longrightarrow> a' ! i = a ! i) \<and>
     (\<forall>i\<in>{lo..hi}. \<exists>j\<in>{lo..hi}. a' ! i = a ! j)"

lemma perm_on_refl [simp]: "perm_on lo hi a a"
  by (auto simp: perm_on_def)

lemma perm_on_outside: "perm_on lo hi a b \<Longrightarrow> i < lo \<or> hi < i \<Longrightarrow> b ! i = a ! i"
  unfolding perm_on_def by blast

lemma perm_on_trans:
  assumes "perm_on lo hi a b" and "perm_on lo hi b c"
  shows "perm_on lo hi a c"
proof -
  have "\<exists>j\<in>{lo..hi}. c ! i = a ! j" if "i \<in> {lo..hi}" for i
    using assms that unfolding perm_on_def by metis
  then show ?thesis using assms by (auto simp: perm_on_def)
qed

lemma perm_on_mono:
  assumes "perm_on lo hi a b" and "lo' \<le> lo" and "hi \<le> hi'"
  shows "perm_on lo' hi' a b"
proof -
  have "\<exists>j\<in>{lo'..hi'}. b ! i = a ! j" if "i \<in> {lo'..hi'}" for i
  proof (cases "i \<in> {lo..hi}")
    case True
    then obtain j where "j \<in> {lo..hi}" "b ! i = a ! j"
      using assms(1) unfolding perm_on_def by blast
    then show ?thesis using assms(2,3) by (intro bexI [of _ j]) auto
  next
    case False
    then have "b ! i = a ! i" using assms(1) by (intro perm_on_outside) auto
    then show ?thesis using that by blast
  qed
  then show ?thesis using assms by (auto simp: perm_on_def)
qed

lemma perm_on_swap:
  "lo \<le> i \<Longrightarrow> i \<le> hi \<Longrightarrow> lo \<le> j \<Longrightarrow> j \<le> hi \<Longrightarrow> hi < length a \<Longrightarrow> perm_on lo hi a (swap64 a i j)"
  by (auto simp: perm_on_def swap64_def mset_swap nth_list_update)

lemma perm_on_length: "perm_on lo hi a b \<Longrightarrow> length b = length a"
  by (simp add: perm_on_def)

lemma perm_on_window:
  "perm_on lo hi a b \<Longrightarrow> (\<And>j. lo \<le> j \<Longrightarrow> j \<le> hi \<Longrightarrow> P (a ! j)) \<Longrightarrow> lo \<le> i \<Longrightarrow> i \<le> hi \<Longrightarrow> P (b ! i)"
  unfolding perm_on_def by (metis atLeastAtMost_iff)

text \<open>The loop keeps smaller elements left of \<open>i\<close>, the others between \<open>i\<close> and \<open>j\<close>.\<close>

lemma partition_loop_correct:
  assumes "lo \<le> i" "i \<le> j" "j \<le> hi" "hi < length a" "a ! hi = pivot"
    and "\<forall>x. lo \<le> x \<and> x < i \<longrightarrow> sint (a ! x) < sint pivot"
    and "\<forall>x. i \<le> x \<and> x < j \<longrightarrow> sint pivot \<le> sint (a ! x)"
    and "partition_loop pivot hi i j a = (i', a')"
  shows "i \<le> i' \<and> i' \<le> hi \<and> perm_on lo hi a a' \<and> a' ! hi = pivot \<and>
    (\<forall>x. lo \<le> x \<and> x < i' \<longrightarrow> sint (a' ! x) < sint pivot) \<and>
    (\<forall>x. i' \<le> x \<and> x < hi \<longrightarrow> sint pivot \<le> sint (a' ! x))"
  using assms
proof (induction pivot hi i j a rule: partition_loop.induct)
  case (1 pivot hi i j a)
  show ?case
  proof (cases "j < hi")
    case False
    then have "i' = i" "a' = a" "j = hi"
      using "1.prems"(3,8) by (simp_all add: partition_loop_stop)
    with "1.prems" show ?thesis by simp
  next
    case j: True
    show ?thesis
    proof (cases "sint (a ! j) < sint pivot")
      case True
      let ?b = "swap64 a i j"
      have eq: "partition_loop pivot hi (i + 1) (j + 1) ?b = (i', a')"
        using "1.prems"(8) j True by (simp add: partition_loop.simps [of pivot hi i j a])
      have perm: "perm_on lo hi a ?b" using "1.prems" j by (intro perm_on_swap) auto
      have "i + 1 \<le> i' \<and> i' \<le> hi \<and> perm_on lo hi ?b a' \<and> a' ! hi = pivot \<and>
          (\<forall>x. lo \<le> x \<and> x < i' \<longrightarrow> sint (a' ! x) < sint pivot) \<and>
          (\<forall>x. i' \<le> x \<and> x < hi \<longrightarrow> sint pivot \<le> sint (a' ! x))"
        using "1.prems" j True
        by (intro "1.IH"(1) [OF j True _ _ _ _ _ _ _ eq])
          (auto simp: swap64_def nth_list_update less_Suc_eq)
      then show ?thesis using perm by (auto intro: perm_on_trans)
    next
      case False
      then have eq: "partition_loop pivot hi i (j + 1) a = (i', a')"
        using "1.prems"(8) j by (simp add: partition_loop.simps [of pivot hi i j a])
      show ?thesis
        using "1.prems" j False
        by (intro "1.IH"(2) [OF j False _ _ _ _ _ _ _ eq]) (auto simp: less_Suc_eq)
    qed
  qed
qed

lemma partition64_correct:
  assumes "lo \<le> hi" "hi < length a" "partition64 a lo hi = (p, b)"
  shows "lo \<le> p" "p \<le> hi" "perm_on lo hi a b"
    "\<And>x. lo \<le> x \<Longrightarrow> x < p \<Longrightarrow> sint (b ! x) < sint (b ! p)"
    "\<And>x. p \<le> x \<Longrightarrow> x \<le> hi \<Longrightarrow> sint (b ! p) \<le> sint (b ! x)"
proof -
  obtain a' where loop: "partition_loop (a ! hi) hi lo lo a = (p, a')" and b: "b = swap64 a' p hi"
    using assms(3) by (auto simp: partition64_def split: prod.splits)
  have c: "lo \<le> p \<and> p \<le> hi \<and> perm_on lo hi a a' \<and> a' ! hi = a ! hi \<and>
      (\<forall>x. lo \<le> x \<and> x < p \<longrightarrow> sint (a' ! x) < sint (a ! hi)) \<and>
      (\<forall>x. p \<le> x \<and> x < hi \<longrightarrow> sint (a ! hi) \<le> sint (a' ! x))"
    using assms(1,2) by (intro partition_loop_correct [OF _ _ _ _ _ _ _ loop]) auto
  then have len: "hi < length a'" using assms(2) perm_on_length by metis
  show "lo \<le> p" "p \<le> hi" using c by simp_all
  show "perm_on lo hi a b"
    unfolding b by (rule perm_on_trans [OF _ perm_on_swap]) (use c len in auto)
  have bp: "b ! p = a ! hi" using c len by (auto simp: b swap64_def nth_list_update)
  show "sint (b ! x) < sint (b ! p)" if "lo \<le> x" "x < p" for x
    using c len that unfolding bp by (auto simp: b swap64_def nth_list_update)
  show "sint (b ! p) \<le> sint (b ! x)" if "p \<le> x" "x \<le> hi" for x
    using c len that unfolding bp by (auto simp: b swap64_def nth_list_update)
qed

section \<open>Selection\<close>

text \<open>
  Within the first \<open>n\<close> elements, everything left of \<open>lo\<close> is at most, and everything right of \<open>hi\<close>
  at least, whatever is in between.
\<close>

definition bracketed :: "nat \<Rightarrow> nat \<Rightarrow> nat \<Rightarrow> i64 list \<Rightarrow> bool" where
  "bracketed n lo hi a \<longleftrightarrow>
     (\<forall>i j. i < lo \<and> lo \<le> j \<and> j < n \<longrightarrow> sint (a ! i) \<le> sint (a ! j)) \<and>
     (\<forall>i j. i \<le> hi \<and> hi < j \<and> j < n \<longrightarrow> sint (a ! i) \<le> sint (a ! j))"

lemma bracketed_perm:
  assumes "bracketed n lo hi a" and "perm_on lo hi a b" and "lo \<le> hi" and "hi < n"
  shows "bracketed n lo hi b"
proof -
  have out: "b ! i = a ! i" if "i < lo \<or> hi < i" for i
    using perm_on_outside [OF assms(2) that] .
  have "sint (b ! i) \<le> sint (b ! j)" if "i < lo" "lo \<le> j" "j < n" for i j
  proof (cases "j \<le> hi")
    case True
    then show ?thesis
      using assms(1,4) that out [of i]
      by (intro perm_on_window [OF assms(2), where P = "\<lambda>y. sint (b ! i) \<le> sint y"])
        (auto simp: bracketed_def)
  qed (use assms(1) that out in \<open>simp add: bracketed_def\<close>)
  moreover have "sint (b ! i) \<le> sint (b ! j)" if "i \<le> hi" "hi < j" "j < n" for i j
  proof (cases "lo \<le> i")
    case True
    then show ?thesis
      using assms(1) that out [of j]
      by (intro perm_on_window [OF assms(2), where P = "\<lambda>y. sint y \<le> sint (b ! j)"])
        (auto simp: bracketed_def)
  qed (use assms(1) that out in \<open>simp add: bracketed_def\<close>)
  ultimately show ?thesis by (simp add: bracketed_def)
qed

text \<open>\<open>a ! k\<close> stands where sorting would put it.\<close>

definition in_place :: "nat \<Rightarrow> nat \<Rightarrow> i64 list \<Rightarrow> bool" where
  "in_place n k a \<longleftrightarrow>
     (\<forall>i<k. sint (a ! i) \<le> sint (a ! k)) \<and> (\<forall>j. k < j \<and> j < n \<longrightarrow> sint (a ! k) \<le> sint (a ! j))"

lemma nth_element_correct:
  assumes "lo \<le> k" "k \<le> hi" "hi < n" "n \<le> length a" "bracketed n lo hi a"
  shows "perm_on lo hi a (nth_element a lo hi k) \<and> in_place n k (nth_element a lo hi k)"
  using assms
proof (induction a lo hi k rule: nth_element.induct)
  case (1 a lo hi k)
  show ?case
  proof (cases "lo < hi")
    case False
    with "1.prems" have "lo = k" "hi = k" by simp_all
    with "1.prems" have "in_place n k a" by (auto simp: bracketed_def in_place_def)
    with False show ?thesis by (simp add: nth_element.simps [of a])
  next
    case True
    obtain p b where pb: "partition64 a lo hi = (p, b)" by fastforce
    note part = partition64_correct [OF less_imp_le [OF True] _ pb]
    have hi: "hi < length a" using "1.prems" by simp
    have br: "bracketed n lo hi b"
      using "1.prems"(5) part(3) [OF hi] True "1.prems"(3) by (simp add: bracketed_perm)
    have len: "length b = length a" using part(3) [OF hi] by (rule perm_on_length)
    have left: "sint (b ! i) \<le> sint (b ! p)" if "i < p" for i
      using part(1,2,4) [OF hi] br that "1.prems"(3)
      by (cases "lo \<le> i") (auto simp: bracketed_def intro: less_imp_le)
    have right: "sint (b ! p) \<le> sint (b ! j)" if "p \<le> j" "j < n" for j
      using part(1,2,5) [OF hi] br that
      by (cases "j \<le> hi") (auto simp: bracketed_def)
    have across: "sint (b ! i) \<le> sint (b ! j)" if "i < p" "p \<le> j" "j < n" for i j
      using left [OF that(1)] right [OF that(2,3)] by linarith
    consider "p = k" | "k < p" | "p < k" by linarith
    then show ?thesis
    proof cases
      case 1
      then show ?thesis
        using True pb part(3) [OF hi] left right
        by (simp add: nth_element.simps [of a] in_place_def)
    next
      case 2
      have "bracketed n lo (p - 1) b"
        using br across 2 part(2) [OF hi] by (auto simp: bracketed_def)
      then have "perm_on lo (p - 1) b (nth_element b lo (p - 1) k) \<and>
          in_place n k (nth_element b lo (p - 1) k)"
        using "1.IH"(1) [OF True refl refl] 2 pb part(2) [OF hi] "1.prems" len by simp
      moreover have "nth_element a lo hi k = nth_element b lo (p - 1) k"
        using True 2 pb by (simp add: nth_element.simps [of a])
      ultimately show ?thesis
        using part(2) [OF hi] perm_on_trans [OF part(3) [OF hi] perm_on_mono [of lo "p - 1" b]]
        by simp
    next
      case 3
      have "sint (b ! i) \<le> sint (b ! j)" if "i < p + 1" "p + 1 \<le> j" "j < n" for i j
        using across [of i j] right [of j] that by (cases "i = p") auto
      then have "bracketed n (p + 1) hi b"
        using br by (auto simp: bracketed_def)
      then have "perm_on (p + 1) hi b (nth_element b (p + 1) hi k) \<and>
          in_place n k (nth_element b (p + 1) hi k)"
        using "1.IH"(2) [OF True refl refl] 3 pb "1.prems" len by simp
      moreover have "nth_element a lo hi k = nth_element b (p + 1) hi k"
        using True 3 pb by (simp add: nth_element.simps [of a])
      ultimately show ?thesis
        using part(1) [OF hi] perm_on_trans [OF part(3) [OF hi] perm_on_mono [of "p + 1" hi b]]
        by simp
    qed
  qed
qed

section \<open>The median\<close>

lemma sort_mset_cong: "mset xs = mset ys \<Longrightarrow> sort (map sint xs) = sort (map sint ys)"
  by (metis mset_map sorted_list_of_multiset_mset)

lemma in_place_sort:
  assumes "in_place n k a" "k < n" "n \<le> length a"
  shows "sort (map sint (take n a)) ! k = sint (a ! k)"
proof -
  let ?xs = "map sint (take n a)"
  have "sort ?xs = sort (take k ?xs) @ ?xs ! k # sort (drop (Suc k) ?xs)"
  proof (rule properties_for_sort)
    have "mset ?xs = mset (take k ?xs @ ?xs ! k # drop (Suc k) ?xs)"
      using assms by (subst id_take_nth_drop [of k ?xs]) auto
    then show "mset (sort (take k ?xs) @ ?xs ! k # sort (drop (Suc k) ?xs)) = mset ?xs" by simp
    have "y \<le> ?xs ! k" if "y \<in> set (take k ?xs)" for y
      using that assms by (auto simp: in_set_conv_nth in_place_def)
    moreover have "?xs ! k \<le> y" if "y \<in> set (drop (Suc k) ?xs)" for y
      using that assms by (auto simp: in_set_conv_nth in_place_def)
    ultimately show "sorted (sort (take k ?xs) @ ?xs ! k # sort (drop (Suc k) ?xs))"
      by (fastforce simp: sorted_append intro: order_trans)
  qed
  then show ?thesis using assms by (simp add: nth_append)
qed

lemma perm_on_take:
  assumes "perm_on lo hi a b" "hi < n" "n \<le> length a"
  shows "mset (take n b) = mset (take n a)"
proof -
  have len: "length b = length a" using assms(1) by (rule perm_on_length)
  have "drop n b = drop n a"
    using assms len by (intro nth_equalityI) (auto simp: perm_on_outside)
  moreover have "mset (take n b) + mset (drop n b) = mset (take n a) + mset (drop n a)"
    using assms(1) by (simp add: perm_on_def flip: mset_append)
  ultimately show ?thesis by simp
qed

text \<open>The median of a non-empty list of samples: the middle one, or C's average of the two.\<close>

definition median_spec :: "int list \<Rightarrow> int" where
  "median_spec xs = (let s = sort xs; n = length xs in
     if even n then c_div (s ! (n div 2 - 1) + s ! (n div 2)) 2 else s ! (n div 2))"

lemma select:
  assumes "k < n" "n \<le> length a"
  defines "b \<equiv> nth_element a 0 (n - 1) k"
  shows "length b = length a" "mset (take n b) = mset (take n a)"
    "sint (b ! k) = sort (map sint (take n a)) ! k"
proof -
  have *: "perm_on 0 (n - 1) a b \<and> in_place n k b"
    unfolding b_def using assms(1,2) by (intro nth_element_correct) (auto simp: bracketed_def)
  then show len: "length b = length a" using perm_on_length by blast
  show "mset (take n b) = mset (take n a)"
    using * assms(1,2) by (intro perm_on_take [of 0 "n - 1"]) auto
  then have "sort (map sint (take n b)) = sort (map sint (take n a))"
    by (rule sort_mset_cong)
  then show "sint (b ! k) = sort (map sint (take n a)) ! k"
    using in_place_sort [of n k b] * assms(1,2) len by simp
qed

lemma median_i64_perm:
  "0 < n \<Longrightarrow> n \<le> length a \<Longrightarrow>
   length (snd (median_i64 a n)) = length a \<and> mset (take n (snd (median_i64 a n))) = mset (take n a)"
  using select [of "n div 2" n a] select [of "n div 2 - 1" n "nth_element a 0 (n - 1) (n div 2)"]
  by (auto simp: median_i64_def Let_def)

lemma median_i64_spec:
  assumes "0 < n" "n \<le> length a"
    and "i64_range (sort (map sint (take n a)) ! (n div 2 - 1) + sort (map sint (take n a)) ! (n div 2))"
  shows "sint (fst (median_i64 a n)) = median_spec (map sint (take n a))"
proof -
  let ?b = "nth_element a 0 (n - 1) (n div 2)"
  have half: "n div 2 < n" "n div 2 - 1 < n" using assms(1) by simp_all
  note s1 = select [OF half(1) assms(2)]
  have s2: "sint (nth_element ?b 0 (n - 1) (n div 2 - 1) ! (n div 2 - 1))
      = sort (map sint (take n a)) ! (n div 2 - 1)"
  proof -
    have "sort (map sint (take n ?b)) = sort (map sint (take n a))"
      using s1(2) by (rule sort_mset_cong)
    then show ?thesis using select(3) [OF half(2), of ?b] s1(1) assms(2) by simp
  qed
  show ?thesis
    using assms s1(3) s2
    by (auto simp: median_i64_def median_spec_def Let_def sint_sdiv64_2 sint_add_small min_absorb2)
qed

text \<open>The median lies between the bounds of its samples.\<close>

lemma median_spec_between:
  assumes "xs \<noteq> []" "\<forall>x\<in>set xs. l \<le> x \<and> x \<le> u"
  shows "l \<le> median_spec xs \<and> median_spec xs \<le> u"
proof -
  have mem: "sort xs ! k \<in> set xs" if "k < length xs" for k
    using that by (metis length_sort nth_mem set_sort)
  have half: "length xs div 2 < length xs" "length xs div 2 - 1 < length xs"
    using assms(1) by (cases xs; simp)+
  have "l \<le> c_div (sort xs ! (length xs div 2 - 1) + sort xs ! (length xs div 2)) 2 \<and>
      c_div (sort xs ! (length xs div 2 - 1) + sort xs ! (length xs div 2)) 2 \<le> u"
    using assms(2) mem [OF half(1)] mem [OF half(2)]
    by (intro c_div_2_between) (metis add_mono mult_2)+
  moreover have "l \<le> sort xs ! (length xs div 2) \<and> sort xs ! (length xs div 2) \<le> u"
    using assms(2) mem [OF half(1)] by blast
  ultimately show ?thesis by (simp add: median_spec_def Let_def)
qed

lemma median_i64_between:
  assumes "0 < n" "n \<le> length a" "\<forall>x\<in>set (take n a). l \<le> sint x \<and> sint x \<le> u"
    "- (2 ^ 62) \<le> l" "u < 2 ^ 62"
  shows "l \<le> sint (fst (median_i64 a n)) \<and> sint (fst (median_i64 a n)) \<le> u"
proof -
  let ?xs = "map sint (take n a)"
  have ne: "?xs \<noteq> []" "length ?xs = n" using assms(1,2) by auto
  have mem: "sort ?xs ! k \<in> set ?xs" if "k < n" for k
    using that ne(2) by (metis length_sort nth_mem set_sort)
  have bd: "\<forall>x\<in>set ?xs. l \<le> x \<and> x \<le> u" using assms(3) by auto
  have half: "n div 2 < n" "n div 2 - 1 < n" using assms(1) by simp_all
  have "i64_range (sort ?xs ! (n div 2 - 1) + sort ?xs ! (n div 2))"
    using bspec [OF bd mem [OF half(1)]] bspec [OF bd mem [OF half(2)]] assms(4,5) by simp
  then show ?thesis
    using median_i64_spec [OF assms(1,2)] median_spec_between [OF ne(1) bd] by simp
qed

text \<open>
  C33: \<open>median_i64\<close> returns the median of its \<open>n\<close> samples, the middle one in sorted order or C's
  truncated average of the two middle ones, and only permutes the samples in place, provided the sum
  of the two middle samples fits in 64 bits.
\<close>

theorem median_i64_correct:
  assumes "0 < n" "n \<le> length a"
    and "i64_range (sort (map sint (take n a)) ! (n div 2 - 1) + sort (map sint (take n a)) ! (n div 2))"
  shows "sint (fst (median_i64 a n)) = median_spec (map sint (take n a)) \<and>
    length (snd (median_i64 a n)) = length a \<and> mset (take n (snd (median_i64 a n))) = mset (take n a)"
  using median_i64_spec [OF assms] median_i64_perm [OF assms(1,2)] by simp

end
