(* ===== verification/Measurement.thy ===== *)
theory Measurement
  imports Session_Election Median
begin

text \<open>
  \<^verbatim>\<open>firmware/measurement.c\<close> and \<^verbatim>\<open>firmware/measurement_responder.c\<close>: the PING/PONG
  exchange that estimates the ghost clock of a remote session.

  The static \<open>S\<close> of the module is the field \<open>meas\<close>. The only completion callback the program
  registers is \<open>on_measure_done\<close>; a function pointer is its name. A receive handler is given the
  address of the datagram buffer, and its result is \<open>None\<close> where the walk over the datagram forms a
  pointer outside the address space.
\<close>

definition MAX_SAMPLES :: nat where "MAX_SAMPLES = 200"
definition LINK_SAMPLE_THRESHOLD :: nat where "LINK_SAMPLE_THRESHOLD = 100"
definition LINK_MAX_PINGS :: nat where "LINK_MAX_PINGS = 5"
definition LINK_PING_INTERVAL_MS :: nat where "LINK_PING_INTERVAL_MS = 50"
definition LINK_MAX_MSG_LINK :: nat where "LINK_MAX_MSG_LINK = 512"

definition KEY_HT :: u32 where "KEY_HT = 0x5F5F6874"
definition KEY_GT :: u32 where "KEY_GT = 0x5F5F6774"
definition KEY_PGT :: u32 where "KEY_PGT = 0x5F706774"

lemmas measurement_consts =
  MAX_SAMPLES_def LINK_SAMPLE_THRESHOLD_def LINK_MAX_PINGS_def LINK_PING_INTERVAL_MS_def
lemmas measurement_keys = KEY_HT_def KEY_GT_def KEY_PGT_def KEY_SESS_def

definition kProtoLink :: "u8 list" where
  "kProtoLink = [0x5F, 0x6C, 0x69, 0x6E, 0x6B, 0x5F, 0x76, 0x01]"

lemma length_kProtoLink [simp]: "length kProtoLink = 8"
  by (simp add: kProtoLink_def)

section \<open>State\<close>

datatype completion = On_measure_done

record state_t =
  active :: bool
  target_addr :: u32
  target_port :: u16
  target_session :: link_id
  pings_sent :: nat
  next_send_us :: u64
  prev_ghost_time :: i64
  prev_host_time :: i64
  samples :: "i64 list"
  n_samples :: nat
  compl_cb :: "completion option"

definition zero_state :: state_t where
  "zero_state = \<lparr>active = False, target_addr = 0, target_port = 0, target_session = zero_id,
     pings_sent = 0, next_send_us = 0, prev_ghost_time = 0, prev_host_time = 0,
     samples = replicate MAX_SAMPLES 0, n_samples = 0, compl_cb = None\<rparr>"

record meas_st = session_st +
  meas :: state_t

definition call_completion :: "bool \<Rightarrow> i64 \<Rightarrow> 'a meas_st_scheme \<Rightarrow> 'a meas_st_scheme" where
  "call_completion success x s =
     (case compl_cb (meas s) of None \<Rightarrow> s | Some On_measure_done \<Rightarrow> on_measure_done success x s)"

section \<open>The initiator (measurement.c)\<close>

definition encode_ping :: "i64 \<Rightarrow> i64 \<Rightarrow> bool \<Rightarrow> u8 list" where
  "encode_ping host_time prev has_prev =
     (let p = kProtoLink @ [1]; p = tlv_emit_u64be KEY_HT host_time p
      in if has_prev then tlv_emit_u64be KEY_PGT prev p else p)"

definition send_ping :: "'a meas_st_scheme \<Rightarrow> 'a meas_st_scheme" where
  "send_ping s =
     (let (now, s) = host_time_us s;
          buf = encode_ping now (prev_ghost_time (meas s)) (0 < pings_sent (meas s));
          s = snd (net_udp_send_v4_unicast (target_addr (meas s)) (target_port (meas s))
                     LINK_DISCOVERY_PORT buf s);
          s = s\<lparr>meas := (meas s)\<lparr>prev_host_time := now, pings_sent := Suc (pings_sent (meas s))\<rparr>\<rparr>;
          (t, s) = host_time_us s
      in s\<lparr>meas := (meas s)\<lparr>next_send_us := t + of_nat (LINK_PING_INTERVAL_MS * 1000)\<rparr>\<rparr>)"

definition measurement_start ::
  "u32 \<Rightarrow> u16 \<Rightarrow> link_id \<Rightarrow> completion option \<Rightarrow> 'a meas_st_scheme \<Rightarrow> 'a meas_st_scheme" where
  "measurement_start addr port i cb s =
     (if active (meas s) then s
      else send_ping (s\<lparr>meas := zero_state\<lparr>active := True, target_addr := addr, target_port := port,
                                 target_session := i, compl_cb := cb\<rparr>\<rparr>))"

definition measurement_tick :: "'a meas_st_scheme \<Rightarrow> 'a meas_st_scheme" where
  "measurement_tick s =
     (if \<not> active (meas s) then s
      else let (now, s) = host_time_us s in
        if next_send_us (meas s) \<le> now then
          if LINK_MAX_PINGS \<le> pings_sent (meas s)
          then call_completion False 0 (s\<lparr>meas := (meas s)\<lparr>active := False\<rparr>\<rparr>)
          else send_ping s
        else s)"

record pong_ctx =
  ht :: i64
  gt :: i64
  pgt :: i64
  have_ht :: bool
  have_gt :: bool
  have_pgt :: bool
  sess :: link_id
  have_sess :: bool

definition zero_pong :: pong_ctx where
  "zero_pong = \<lparr>ht = 0, gt = 0, pgt = 0, have_ht = False, have_gt = False, have_pgt = False,
                sess = zero_id, have_sess = False\<rparr>"

definition pong_handler :: "pong_ctx tlv_cb" where
  "pong_handler key v n ctx =
     (if key = KEY_HT then
        if n \<noteq> 8 then Some (- 1, ctx) else Some (0, ctx\<lparr>ht := be64 v, have_ht := True\<rparr>)
      else if key = KEY_GT then
        if n \<noteq> 8 then Some (- 1, ctx) else Some (0, ctx\<lparr>gt := be64 v, have_gt := True\<rparr>)
      else if key = KEY_PGT then
        if n \<noteq> 8 then Some (- 1, ctx) else Some (0, ctx\<lparr>pgt := be64 v, have_pgt := True\<rparr>)
      else if key = KEY_SESS then
        if n \<noteq> 8 then Some (- 1, ctx)
        else Some (0, ctx\<lparr>sess := id_of_bytes v, have_sess := True\<rparr>)
      else Some (0, ctx))"

text \<open>\<open>S.samples[S.n_samples++] = v\<close> under its guard\<close>

definition push_sample :: "i64 \<Rightarrow> state_t \<Rightarrow> state_t" where
  "push_sample v m = m\<lparr>samples := (samples m)[n_samples m := v], n_samples := Suc (n_samples m)\<rparr>"

text \<open>The part of \<open>measurement_handle_rx\<close> after a PONG has been parsed and its session checked.\<close>

definition take_samples :: "pong_ctx \<Rightarrow> i64 \<Rightarrow> state_t \<Rightarrow> state_t" where
  "take_samples ctx now_host m =
     (let m = (if n_samples m < MAX_SAMPLES
               then push_sample (gt ctx - sdiv64 (now_host + ht ctx) 2) m else m);
          m = (if have_pgt ctx \<and> prev_host_time m \<noteq> 0 \<and> n_samples m < MAX_SAMPLES
               then push_sample (sdiv64 (gt ctx + pgt ctx) 2 - ht ctx) m else m)
      in m\<lparr>prev_ghost_time := gt ctx\<rparr>)"

definition accept_pong :: "pong_ctx \<Rightarrow> 'a meas_st_scheme \<Rightarrow> 'a meas_st_scheme" where
  "accept_pong ctx s =
     (let (now_host, s) = host_time_us s;
          s = s\<lparr>meas := take_samples ctx now_host (meas s)\<rparr>
      in if LINK_SAMPLE_THRESHOLD < n_samples (meas s)
         then let (x, a) = median_i64 (samples (meas s)) (n_samples (meas s))
              in call_completion True x (s\<lparr>meas := (meas s)\<lparr>samples := a, active := False\<rparr>\<rparr>)
         else send_ping s)"

definition measurement_handle_rx ::
  "u32 \<Rightarrow> u8 list \<Rightarrow> u32 \<Rightarrow> u16 \<Rightarrow> 'a meas_st_scheme \<Rightarrow> 'a meas_st_scheme option" where
  "measurement_handle_rx a buf saddr sport s =
     (if \<not> active (meas s) then Some s
      else if saddr \<noteq> target_addr (meas s) \<or> sport \<noteq> target_port (meas s) then Some s
      else if length buf < 8 + 1 then Some s
      else if memcmp (take 8 buf) kProtoLink \<noteq> 0 then Some s
      else if buf ! 8 \<noteq> 2 then Some s
      else do {
        (r, ctx) \<leftarrow> tlv_walk (a + 9) pong_handler (drop 9 buf) zero_pong;
        Some (if r \<noteq> 0 then s
              else if \<not> have_ht ctx \<or> \<not> have_gt ctx \<or> \<not> have_sess ctx then s
              else if id_cmp (sess ctx) (target_session (meas s)) \<noteq> 0
                then call_completion False 0 (s\<lparr>meas := (meas s)\<lparr>active := False\<rparr>\<rparr>)
              else accept_pong ctx s)
      })"

section \<open>The responder (measurement\_responder.c)\<close>

definition measurement_responder_handle_rx ::
  "u8 list \<Rightarrow> u32 \<Rightarrow> u16 \<Rightarrow> 'a link_st_scheme \<Rightarrow> 'a link_st_scheme" where
  "measurement_responder_handle_rx buf saddr sport s =
     (if length buf < 8 + 1 then s
      else if memcmp (take 8 buf) kProtoLink \<noteq> 0 then s
      else if buf ! 8 \<noteq> 1 then s
      else let
        p = kProtoLink @ [2];
        p = tlv_emit_bytes KEY_SESS (id_bytes (link_self_session s)) 8 p;
        (g, s) = ghost_time_us s;
        p = tlv_emit_u64be KEY_GT g p;
        ping_payload_len = length buf - 9
      in if LINK_MAX_MSG_LINK - length p < ping_payload_len then s
         else snd (net_udp_send_v4_unicast saddr sport LINK_DISCOVERY_PORT
                     (p @ take ping_payload_len (drop 9 buf)) s))"

section \<open>Messages\<close>

definition ping_entries :: "i64 \<Rightarrow> i64 option \<Rightarrow> (u32 \<times> u8 list) list" where
  "ping_entries t prev =
     (KEY_HT, put_be64 t) # (case prev of None \<Rightarrow> [] | Some g \<Rightarrow> [(KEY_PGT, put_be64 g)])"

definition pong_entries :: "link_id \<Rightarrow> u64 \<Rightarrow> (u32 \<times> u8 list) list" where
  "pong_entries i g = [(KEY_SESS, id_bytes i), (KEY_GT, put_be64 g)]"

lemma encode_ping_eq:
  "encode_ping t g hp = kProtoLink @ 1 # tlv_payload (ping_entries t (if hp then Some g else None))"
  by (simp add: encode_ping_def ping_entries_def Let_def tlv_emit_entries)

lemma length_ping_payload: "length (tlv_payload (ping_entries t prev)) \<le> 32"
  by (cases prev) (simp_all add: ping_entries_def)

lemma length_pong_payload [simp]: "length (tlv_payload (pong_entries i g)) = 32"
  by (simp add: pong_entries_def)

interpretation pong_reader: tlv_safe_reader pong_handler "\<lambda>_. True"
proof unfold_locales
  show "pong_handler key v n ctx = pong_handler key (take (unat n) v) n ctx"
    if "unat n \<le> length v" for key n v ctx
    by (auto simp: pong_handler_def be_take id_of_bytes_take)
qed (auto simp: pong_handler_def)

text \<open>What the initiator reads out of a PONG that answers one of its PINGs.\<close>

definition pong_of :: "link_id \<Rightarrow> u64 \<Rightarrow> i64 \<Rightarrow> i64 option \<Rightarrow> pong_ctx" where
  "pong_of i g t prev =
     \<lparr>ht = t, gt = g, pgt = (case prev of None \<Rightarrow> 0 | Some h \<Rightarrow> h), have_ht = True, have_gt = True,
      have_pgt = (prev \<noteq> None), sess = i, have_sess = True\<rparr>"

lemma fold_pong:
  "tlv_fold pong_handler (pong_entries i g @ ping_entries t prev) zero_pong = Some (0, pong_of i g t prev)"
  by (cases prev) (simp_all add: pong_entries_def ping_entries_def pong_handler_def measurement_keys
      be64_at zero_pong_def pong_of_def)

text \<open>The responder answers every PING that fits its buffer with session, ghost time and echo.\<close>

lemma responder_reply:
  "measurement_responder_handle_rx (kProtoLink @ 1 # pl) a p s =
     (if length pl \<le> 471
      then logged (sent_to (ip4_of a) p LINK_DISCOVERY_PORT
                     (kProtoLink @ 2 # tlv_payload (pong_entries (link_self_session s) (ghost_now s)) @ pl))
                  (s\<lparr>n_reads := n_reads s + 3\<rparr>)
      else s\<lparr>n_reads := n_reads s + 3\<rparr>)"
  by (simp add: measurement_responder_handle_rx_def Let_def ghost_time_us_eq memcmp_eq_0
      tlv_emit_entries tlv_emit_bytes_entry pong_entries_def LINK_MAX_MSG_LINK_def nth_append)

section \<open>The round budget and the sample buffer\<close>

text \<open>
  While a measurement runs, the sample buffer has room for both samples of the next reply (so the
  \<open>MAX_SAMPLES\<close> guards never fail), and every PING beyond the fifth was paid for by a sample.
\<close>

definition meas_inv :: "state_t \<Rightarrow> bool" where
  "meas_inv m \<longleftrightarrow> length (samples m) = MAX_SAMPLES \<and>
     (active m \<longrightarrow> n_samples m \<le> LINK_SAMPLE_THRESHOLD \<and> 0 < pings_sent m \<and>
                  pings_sent m \<le> LINK_MAX_PINGS + n_samples m)"

lemma send_ping_meas [simp]:
  "active (meas (send_ping s)) = active (meas s)" "samples (meas (send_ping s)) = samples (meas s)"
  "n_samples (meas (send_ping s)) = n_samples (meas s)"
  "pings_sent (meas (send_ping s)) = Suc (pings_sent (meas s))"
  "prev_host_time (meas (send_ping s)) = host_now s"
  "prev_ghost_time (meas (send_ping s)) = prev_ghost_time (meas s)"
  "target_addr (meas (send_ping s)) = target_addr (meas s)"
  "target_port (meas (send_ping s)) = target_port (meas s)"
  "target_session (meas (send_ping s)) = target_session (meas s)"
  "compl_cb (meas (send_ping s)) = compl_cb (meas s)"
  by (simp_all add: send_ping_def host_time_us_eq Let_def logged_def)

lemma send_ping_sent:
  "sent (send_ping s) = sent s @
     [sent_to (ip4_of (target_addr (meas s))) (target_port (meas s)) LINK_DISCOVERY_PORT
        (encode_ping (host_now s) (prev_ghost_time (meas s)) (0 < pings_sent (meas s)))]"
  by (simp add: send_ping_def host_time_us_eq Let_def)

lemma call_completion_meas [simp]: "meas (call_completion ok x s) = meas s"
  by (cases "compl_cb (meas s)"; cases "the (compl_cb (meas s))")
    (simp_all add: call_completion_def on_measure_done_def Let_def host_time_us_eq adopt_best_def
      ghost_time_set_intercept_def beat_pulse_set_sync_led_def flags_write_def
      beat_pulse_load_timeline_def link_broadcast_alive_now_def split: option.split)

lemma meas_inv_send_ping:
  assumes "length (samples (meas s)) = MAX_SAMPLES" "n_samples (meas s) \<le> LINK_SAMPLE_THRESHOLD"
    "pings_sent (meas s) < LINK_MAX_PINGS + n_samples (meas s)"
  shows "meas_inv (meas (send_ping s))"
  using assms by (simp add: meas_inv_def)

lemma meas_inv_inactive: "length (samples m) = MAX_SAMPLES \<Longrightarrow> meas_inv (m\<lparr>active := False\<rparr>)"
  by (simp add: meas_inv_def)

lemma measurement_start_inv: "meas_inv (meas s) \<Longrightarrow> meas_inv (meas (measurement_start a p i cb s))"
  by (simp add: measurement_start_def)
    (intro impI meas_inv_send_ping; simp add: zero_state_def measurement_consts)

lemma measurement_tick_inv: "meas_inv (meas s) \<Longrightarrow> meas_inv (meas (measurement_tick s))"
  by (auto simp: measurement_tick_def host_time_us_eq Let_def meas_inv_inactive meas_inv_def [of "meas s"]
      intro!: meas_inv_send_ping)

lemma take_samples_eq:
  assumes "n_samples m \<le> LINK_SAMPLE_THRESHOLD"
  shows "take_samples c now m =
     (let new = (gt c - sdiv64 (now + ht c) 2)
                # (if have_pgt c \<and> prev_host_time m \<noteq> 0 then [sdiv64 (gt c + pgt c) 2 - ht c] else [])
      in m\<lparr>samples := foldl (\<lambda>a (i, v). a[n_samples m + i := v]) (samples m) (enumerate 0 new),
           n_samples := n_samples m + length new, prev_ghost_time := gt c\<rparr>)"
  using assms by (simp add: take_samples_def push_sample_def Let_def measurement_consts)

lemma take_samples_frame [simp]:
  "active (take_samples c now m) = active m" "pings_sent (take_samples c now m) = pings_sent m"
  "length (samples (take_samples c now m)) = length (samples m)"
  "compl_cb (take_samples c now m) = compl_cb m"
  "prev_ghost_time (take_samples c now m) = gt c"
  by (simp_all add: take_samples_def push_sample_def Let_def)

lemma take_samples_count:
  assumes "n_samples m \<le> LINK_SAMPLE_THRESHOLD"
  shows "n_samples m < n_samples (take_samples c now m)"
    "n_samples (take_samples c now m) \<le> n_samples m + 2"
  using assms by (simp_all add: take_samples_def push_sample_def Let_def measurement_consts)

lemma accept_pong_inv:
  assumes "meas_inv (meas s)" "active (meas s)"
  shows "meas_inv (meas (accept_pong c s))"
proof -
  let ?m = "take_samples c (host_now s) (meas s)"
  have count: "n_samples (meas s) < n_samples ?m" "n_samples ?m \<le> n_samples (meas s) + 2"
    using assms take_samples_count by (auto simp: meas_inv_def)
  show ?thesis
  proof (cases "LINK_SAMPLE_THRESHOLD < n_samples ?m")
    case True
    then have "length (snd (median_i64 (samples ?m) (n_samples ?m))) = MAX_SAMPLES"
      using assms count median_i64_perm [of "n_samples ?m" "samples ?m"]
      by (simp add: meas_inv_def measurement_consts)
    with True show ?thesis
      by (simp add: accept_pong_def host_time_us_eq Let_def case_prod_beta meas_inv_def)
  next
    case False
    have "meas_inv (meas (send_ping (s\<lparr>n_reads := n_reads s + 2, meas := ?m\<rparr>)))"
      using assms count False by (intro meas_inv_send_ping) (auto simp: meas_inv_def)
    with False show ?thesis by (simp add: accept_pong_def host_time_us_eq Let_def)
  qed
qed

lemma measurement_handle_rx_cases:
  assumes "measurement_handle_rx a buf ip port s = Some t"
  obtains (ignored) "t = s"
  | (lost) "active (meas s)" "t = call_completion False 0 (s\<lparr>meas := (meas s)\<lparr>active := False\<rparr>\<rparr>)"
  | (reply) c where "active (meas s)" "ip = target_addr (meas s)" "port = target_port (meas s)"
      "sess c = target_session (meas s)" "t = accept_pong c s"
proof -
  show thesis
  proof (cases "active (meas s) \<and> ip = target_addr (meas s) \<and> port = target_port (meas s) \<and>
      \<not> length buf < 8 + 1 \<and> memcmp (take 8 buf) kProtoLink = 0 \<and> buf ! 8 = 2")
    case True
    obtain r c where "tlv_walk (a + 9) pong_handler (drop 9 buf) zero_pong = Some (r, c)"
      using assms True by (auto simp: measurement_handle_rx_def bind_eq_Some_conv)
    with assms True have "t = (if r \<noteq> 0 then s
              else if \<not> have_ht c \<or> \<not> have_gt c \<or> \<not> have_sess c then s
              else if id_cmp (sess c) (target_session (meas s)) \<noteq> 0
                then call_completion False 0 (s\<lparr>meas := (meas s)\<lparr>active := False\<rparr>\<rparr>)
              else accept_pong c s)"
      by (simp add: measurement_handle_rx_def)
    with True show thesis
      using ignored lost reply [of c] by (simp split: if_splits)
  next
    case False
    with assms show thesis
      by (intro ignored) (auto simp: measurement_handle_rx_def split: if_splits)
  qed
qed

lemma measurement_handle_rx_inv:
  "meas_inv (meas s) \<Longrightarrow> measurement_handle_rx a buf ip port s = Some t \<Longrightarrow> meas_inv (meas t)"
  by (erule measurement_handle_rx_cases)
    (simp_all add: accept_pong_inv meas_inv_inactive meas_inv_def [of "meas s"])

section \<open>Termination of a measurement\<close>

text \<open>A tick whose deadline has passed uses up one PING of the budget or ends the measurement.\<close>

definition ping_due :: "'a meas_st_scheme \<Rightarrow> bool" where
  "ping_due s \<longleftrightarrow> active (meas s) \<and> next_send_us (meas s) \<le> host_now s"

lemma measurement_tick_due:
  assumes "ping_due s"
  shows "\<not> active (meas (measurement_tick s)) \<or>
    active (meas (measurement_tick s)) \<and> pings_sent (meas s) < LINK_MAX_PINGS \<and>
    pings_sent (meas (measurement_tick s)) = Suc (pings_sent (meas s))"
  using assms
  by (auto simp: measurement_tick_def ping_due_def host_time_us_eq Let_def)

lemma measurement_tick_active: "active (meas (measurement_tick s)) \<Longrightarrow> active (meas s)"
  by (cases "active (meas s)") (simp_all add: measurement_tick_def)

lemma ticks_end_measurement:
  "meas_inv (meas s) \<Longrightarrow> (\<And>k. k < 5 \<Longrightarrow> active (meas ((measurement_tick ^^ k) s)) \<Longrightarrow>
      ping_due ((measurement_tick ^^ k) s)) \<Longrightarrow> \<not> active (meas ((measurement_tick ^^ 5) s))"
proof (rule ccontr)
  assume inv: "meas_inv (meas s)"
    and due: "\<And>k. k < 5 \<Longrightarrow> active (meas ((measurement_tick ^^ k) s)) \<Longrightarrow>
      ping_due ((measurement_tick ^^ k) s)"
    and act: "\<not> \<not> active (meas ((measurement_tick ^^ 5) s))"
  note earlier = measurement_tick_active
  have all: "active (meas ((measurement_tick ^^ (5 - j)) s))" if "j \<le> 5" for j
    using that
  proof (induction j)
    case (Suc j)
    then have "5 - j = Suc (5 - Suc j)" by simp
    then have "(measurement_tick ^^ (5 - j)) s = measurement_tick ((measurement_tick ^^ (5 - Suc j)) s)"
      by (simp only: funpow.simps comp_apply)
    with Suc show ?case using earlier by (simp del: funpow.simps)
  qed (use act in simp)
  have step: "pings_sent (meas ((measurement_tick ^^ k) s)) = pings_sent (meas s) + k \<and>
      pings_sent (meas s) + k \<le> LINK_MAX_PINGS" if "0 < k" "k \<le> 5" for k
    using that
  proof (induction k)
    case (Suc k)
    have "active (meas ((measurement_tick ^^ k) s))" "active (meas ((measurement_tick ^^ Suc k) s))"
      using all [of "5 - k"] all [of "5 - Suc k"] Suc.prems by simp_all
    then show ?case
      using measurement_tick_due [OF due [of k]] Suc by (cases "k = 0") auto
  qed simp
  have "0 < pings_sent (meas s)"
    using inv all [of 5] by (simp add: meas_inv_def)
  then show False
    using step [of 5] by (simp add: LINK_MAX_PINGS_def)
qed

section \<open>Accuracy of the estimate\<close>

text \<open>
  A peer whose ghost clock is \<open>d\<close> microseconds ahead of our host clock answers a PING sent at
  \<open>ht\<close> at some time \<open>x\<close> before the reply arrives at \<open>now\<close>; \<open>R\<close> bounds the round trip. The
  echoed \<open>pgt\<close> was taken between the previous PING and this one.
\<close>

definition honest_pong :: "int \<Rightarrow> int \<Rightarrow> u64 \<Rightarrow> pong_ctx \<Rightarrow> bool" where
  "honest_pong d R now c \<longleftrightarrow>
     \<bar>d\<bar> < 2 ^ 60 \<and> 0 \<le> R \<and> 0 \<le> sint (ht c) \<and> sint now < 2 ^ 60 \<and> sint now - sint (ht c) \<le> R \<and>
     sint (ht c) \<le> sint (gt c) - d \<and> sint (gt c) - d \<le> sint now \<and>
     (have_pgt c \<longrightarrow> sint (ht c) - R \<le> sint (pgt c) - d \<and> sint (pgt c) - d \<le> sint (ht c) \<and>
                    0 \<le> sint (pgt c) - d)"

definition within :: "int \<Rightarrow> int \<Rightarrow> i64 \<Rightarrow> bool" where
  "within d R v \<longleftrightarrow> 2 * \<bar>sint v - d\<bar> \<le> R + 1"

definition accurate :: "int \<Rightarrow> int \<Rightarrow> state_t \<Rightarrow> bool" where
  "accurate d R m \<longleftrightarrow> (\<forall>v\<in>set (take (n_samples m) (samples m)). within d R v)"

lemma twice_abs_le: "2 * \<bar>z\<bar> \<le> (r :: int) \<longleftrightarrow> 2 * z \<le> r \<and> - r \<le> 2 * z"
  by (auto simp: abs_if)

lemma midpoint_error:
  fixes C d g h n p R :: int
  assumes "n - h \<le> R" "h \<le> g - d" "g - d \<le> n"
  shows "2 * C \<le> n + h \<Longrightarrow> n + h - 1 \<le> 2 * C \<Longrightarrow> 2 * \<bar>g - C - d\<bar> \<le> R + 1"
    and "h - R \<le> p - d \<Longrightarrow> p - d \<le> h \<Longrightarrow> g + p - 1 \<le> 2 * C \<Longrightarrow> 2 * C \<le> g + p + 1 \<Longrightarrow>
      2 * \<bar>C - h - d\<bar> \<le> R + 1"
  using assms unfolding twice_abs_le by (simp_all add: right_diff_distrib)

lemma within_iff: "within d R v \<longleftrightarrow> d - (R + 1) div 2 \<le> sint v \<and> sint v \<le> d + (R + 1) div 2"
  unfolding within_def twice_abs_le by presburger

lemma sample1_within:
  assumes "honest_pong d R now c"
  shows "within d R (gt c - sdiv64 (now + ht c) 2)"
proof -
  let ?s = "sint now + sint (ht c)"
  have h: "\<bar>d\<bar> < 2 ^ 60" "0 \<le> sint (ht c)" "sint now < 2 ^ 60" "sint now - sint (ht c) \<le> R"
    "sint (ht c) \<le> sint (gt c) - d" "sint (gt c) - d \<le> sint now"
    using assms by (simp_all add: honest_pong_def)
  have half: "2 * c_div ?s 2 \<in> {?s - 1 .. ?s + 1}" by (rule c_div_2_bounds)
  have sum: "sint (now + ht c) = ?s" using h by (intro sint_add_small) simp
  then have "sint (sdiv64 (now + ht c) 2) = c_div ?s 2" by (simp add: sint_sdiv64_2)
  moreover from this have "sint (gt c - sdiv64 (now + ht c) 2) = sint (gt c) - c_div ?s 2"
    using h half by (subst sint_diff_small) auto
  moreover have "2 * c_div ?s 2 \<le> ?s"
    using h c_div_nonneg [of ?s 2] by simp
  ultimately show ?thesis
    using h half midpoint_error(1) [of "sint now" "sint (ht c)" R "sint (gt c)" d]
    by (simp only: within_def atLeastAtMost_iff)
qed

lemma sample2_within:
  assumes "honest_pong d R now c" "have_pgt c"
  shows "within d R (sdiv64 (gt c + pgt c) 2 - ht c)"
proof -
  let ?s = "sint (gt c) + sint (pgt c)"
  have h: "\<bar>d\<bar> < 2 ^ 60" "0 \<le> sint (ht c)" "sint now < 2 ^ 60" "sint now - sint (ht c) \<le> R"
    "sint (ht c) \<le> sint (gt c) - d" "sint (gt c) - d \<le> sint now"
    "sint (ht c) - R \<le> sint (pgt c) - d" "sint (pgt c) - d \<le> sint (ht c)" "0 \<le> sint (pgt c) - d"
    using assms by (simp_all add: honest_pong_def)
  have half: "2 * c_div ?s 2 \<in> {?s - 1 .. ?s + 1}" by (rule c_div_2_bounds)
  have "sint (gt c + pgt c) = ?s" using h by (intro sint_add_small conjI) (simp; linarith)+
  then have "sint (sdiv64 (gt c + pgt c) 2) = c_div ?s 2" by (simp add: sint_sdiv64_2)
  moreover from this have "sint (sdiv64 (gt c + pgt c) 2 - ht c) = c_div ?s 2 - sint (ht c)"
    using h half by (subst sint_diff_small) auto
  ultimately show ?thesis
    using h half midpoint_error(2) [of "sint now" "sint (ht c)" R "sint (gt c)" d "sint (pgt c)"]
    by (simp only: within_def atLeastAtMost_iff)
qed

lemma accurate_push:
  "accurate d R m \<Longrightarrow> within d R v \<Longrightarrow> n_samples m < length (samples m) \<Longrightarrow> accurate d R (push_sample v m)"
  by (auto simp: accurate_def push_sample_def take_Suc_conv_app_nth)

lemma accurate_prev [simp]: "accurate d R (m\<lparr>prev_ghost_time := g\<rparr>) = accurate d R m"
  by (simp add: accurate_def)

lemma take_samples_accurate:
  assumes "accurate d R m" "honest_pong d R now c" "length (samples m) = MAX_SAMPLES"
    "n_samples m \<le> LINK_SAMPLE_THRESHOLD"
  shows "accurate d R (take_samples c now m)"
proof -
  let ?m = "push_sample (gt c - sdiv64 (now + ht c) 2) m"
  have one: "accurate d R ?m" "n_samples ?m < length (samples ?m)"
    using assms accurate_push [OF _ sample1_within] by (simp_all add: push_sample_def measurement_consts)
  have "accurate d R (push_sample (sdiv64 (gt c + pgt c) 2 - ht c) ?m)" if "have_pgt c"
    by (rule accurate_push [OF one(1) sample2_within [OF assms(2) that] one(2)])
  then show ?thesis
    using one(1) assms(4) by (simp add: take_samples_def Let_def measurement_consts)
qed

text \<open>The result of a measurement among honest replies is within half a round trip of the truth.\<close>

lemma median_accurate:
  assumes "accurate d R m" "length (samples m) = MAX_SAMPLES" "0 < n_samples m"
    "n_samples m \<le> MAX_SAMPLES" "\<bar>d\<bar> < 2 ^ 60" "0 \<le> R" "R < 2 ^ 61"
  shows "within d R (fst (median_i64 (samples m) (n_samples m)))"
proof -
  let ?e = "(R + 1) div 2"
  have "\<forall>x\<in>set (take (n_samples m) (samples m)). d - ?e \<le> sint x \<and> sint x \<le> d + ?e"
  proof
    fix x
    assume "x \<in> set (take (n_samples m) (samples m))"
    with assms(1) show "d - ?e \<le> sint x \<and> sint x \<le> d + ?e" by (simp add: accurate_def within_iff)
  qed
  then have "d - ?e \<le> sint (fst (median_i64 (samples m) (n_samples m))) \<and>
      sint (fst (median_i64 (samples m) (n_samples m))) \<le> d + ?e"
    using assms(2-7) by (intro median_i64_between) auto
  then show ?thesis by (simp only: within_iff)
qed

section \<open>The exchange\<close>

lemma pong_received:
  assumes "active (meas s)" "unat a + 512 < 2 ^ 32"
  shows "measurement_handle_rx a (kProtoLink @ 2 # tlv_payload (pong_entries i g @ ping_entries t prev))
           (target_addr (meas s)) (target_port (meas s)) s =
         Some (if i = target_session (meas s) then accept_pong (pong_of i g t prev) s
               else call_completion False 0 (s\<lparr>meas := (meas s)\<lparr>active := False\<rparr>\<rparr>))"
proof -
  let ?es = "pong_entries i g @ ping_entries t prev"
  have "unat (a + 9) = unat a + 9"
    using assms(2) by (simp add: unat_add_small)
  then have "tlv_walk (a + 9) pong_handler (tlv_payload ?es) zero_pong = Some (0, pong_of i g t prev)"
    using assms(2) length_ping_payload [of t prev]
    by (subst pong_reader.walk_payload) (simp_all add: fold_pong del: tlv_payload_simps add: tlv_payload_simps(3))
  then show ?thesis
    using assms(1) by (simp add: measurement_handle_rx_def memcmp_eq_0 nth_append pong_of_def)
qed

lemma accept_pong_eq:
  assumes "meas_inv (meas s)" "active (meas s)"
  shows "accept_pong c s =
    (let m = take_samples c (host_now s) (meas s); u = s\<lparr>n_reads := n_reads s + 2, meas := m\<rparr> in
     if 100 < n_samples m
     then call_completion True (fst (median_i64 (samples m) (n_samples m)))
            (u\<lparr>meas := m\<lparr>samples := snd (median_i64 (samples m) (n_samples m)), active := False\<rparr>\<rparr>)
     else send_ping u)"
  by (simp add: accept_pong_def host_time_us_eq Let_def case_prod_beta measurement_consts)

section \<open>Properties\<close>

text \<open>
  C9: A PING encoded by the initiator, with or without the previous ghost time, is answered by the
  responder of any node with exactly one PONG of at most 512 bytes, sent back to the source; and the
  initiator, if it is measuring that node and session, takes from that PONG its own send time, the
  responder's ghost time and the previous ghost time it echoed.
\<close>

theorem ping_pong_exchange:
  assumes "active (meas s)" "target_session (meas s) = link_self_session r" "unat a + 512 < 2 ^ 32"
  shows "\<exists>reply.
    sent (measurement_responder_handle_rx (encode_ping t g hp) ip port r) =
      sent r @ [sent_to (ip4_of ip) port 20808 reply] \<and>
    length reply \<le> 512 \<and>
    measurement_handle_rx a reply (target_addr (meas s)) (target_port (meas s)) s =
      Some (accept_pong (pong_of (link_self_session r) (ghost_now r) t (if hp then Some g else None)) s)"
proof -
  let ?prev = "if hp then Some g else None"
  let ?pl = "tlv_payload (ping_entries t ?prev)"
  let ?reply = "kProtoLink @ 2 # tlv_payload (pong_entries (link_self_session r) (ghost_now r) @ ping_entries t ?prev)"
  have "length ?pl \<le> 32" by (rule length_ping_payload)
  then have "sent (measurement_responder_handle_rx (encode_ping t g hp) ip port r) =
      sent r @ [sent_to (ip4_of ip) port 20808 ?reply]" "length ?reply \<le> 512"
    by (simp_all add: encode_ping_eq responder_reply LINK_DISCOVERY_PORT_def)
  moreover have "measurement_handle_rx a ?reply (target_addr (meas s)) (target_port (meas s)) s =
      Some (accept_pong (pong_of (link_self_session r) (ghost_now r) t ?prev) s)"
    using pong_received [OF assms(1,3), of "link_self_session r"] assms(2) by simp
  ultimately show ?thesis by blast
qed

text \<open>
  C2: If every reply of a measurement is honest (the peer's ghost clock is a constant \<open>d\<close> ahead of
  our clock and no round trip is longer than \<open>R\<close>), then each reply either ends the measurement,
  calling the completion with an intercept within half a round trip (plus rounding) of \<open>d\<close>, or
  leaves it running with strictly more samples, all of them that accurate.
\<close>

theorem measurement_within_half_round_trip:
  assumes "meas_inv (meas s)" "active (meas s)" "accurate d R (meas s)"
    "honest_pong d R (host_now s) c" "R < 2 ^ 61"
  shows "(\<exists>x t. accept_pong c s = call_completion True x t \<and> 2 * \<bar>sint x - d\<bar> \<le> R + 1 \<and>
            compl_cb (meas t) = compl_cb (meas s) \<and> \<not> active (meas t)) \<or>
    active (meas (accept_pong c s)) \<and> accurate d R (meas (accept_pong c s)) \<and>
    n_samples (meas s) < n_samples (meas (accept_pong c s))"
proof -
  let ?m = "take_samples c (host_now s) (meas s)"
  have s: "length (samples (meas s)) = MAX_SAMPLES" "n_samples (meas s) \<le> LINK_SAMPLE_THRESHOLD"
    using assms(1,2) by (auto simp: meas_inv_def)
  have acc: "accurate d R ?m" by (rule take_samples_accurate [OF assms(3,4) s])
  note count = take_samples_count [OF s(2), of c "host_now s"]
  show ?thesis
  proof (cases "100 < n_samples ?m")
    case True
    let ?x = "fst (median_i64 (samples ?m) (n_samples ?m))"
    have "within d R ?x"
      using acc s count True assms(4,5)
      by (intro median_accurate) (auto simp: measurement_consts honest_pong_def)
    let ?t = "s\<lparr>n_reads := n_reads s + 2, meas := ?m\<lparr>samples := snd (median_i64 (samples ?m) (n_samples ?m)),
        active := False\<rparr>\<rparr>"
    have "accept_pong c s = call_completion True ?x ?t"
      using True by (simp add: accept_pong_eq [OF assms(1,2)] Let_def)
    moreover have "compl_cb (meas ?t) = compl_cb (meas s) \<and> \<not> active (meas ?t)" by simp
    ultimately show ?thesis
      using \<open>within d R ?x\<close> unfolding within_def by blast
  next
    case False
    then show ?thesis
      using acc count assms(2) by (intro disjI2) (auto simp: accept_pong_eq [OF assms(1,2)] Let_def accurate_def)
  qed
qed

text \<open>
  The sample buffer never overflows: starting, ticking and receiving keep at most 100 samples and
  at most five PINGs more than samples while a measurement is running, whatever is received.
\<close>

theorem measurement_ops_inv:
  assumes "meas_inv (meas s)"
  shows "meas_inv (meas (measurement_start addr port i cb s)) \<and> meas_inv (meas (measurement_tick s)) \<and>
    (case measurement_handle_rx a buf ip p s of None \<Rightarrow> True | Some t \<Rightarrow> meas_inv (meas t))"
  using measurement_start_inv [OF assms] measurement_tick_inv [OF assms] measurement_handle_rx_inv [OF assms]
  by (auto split: option.split)

text \<open>
  C29: A measurement whose peer never answers ends: after at most five ticks that find the deadline
  passed, the measurement is no longer active.
\<close>

theorem unanswered_measurement_ends:
  assumes "meas_inv (meas s)"
    and "\<And>k. k < 5 \<Longrightarrow> active (meas ((measurement_tick ^^ k) s)) \<Longrightarrow> ping_due ((measurement_tick ^^ k) s)"
  shows "\<not> active (meas ((measurement_tick ^^ 5) s))"
  using assms by (rule ticks_end_measurement)

end
