(* ===== verification/Session.thy ===== *)
theory Session
  imports Measurement
begin

text \<open>
  \<^verbatim>\<open>firmware/session.c\<close>, the half that starts measurements: \<open>session_observe_peer\<close>, called for
  every peer a state message was received from, and the periodic \<open>session_tick\<close>. A peer pointer is
  the index of its slot.
\<close>

definition LINK_SESSION_REMEASURE_S :: nat where "LINK_SESSION_REMEASURE_S = 30"

definition session_observe_peer :: "nat \<Rightarrow> 'a meas_st_scheme \<Rightarrow> 'a meas_st_scheme" where
  "session_observe_peer k s =
     (let peer = link_peers s ! k in
      if id_cmp (session_id peer) (link_self_session s) = 0 then s
      else if session_known_in_local_view (session_id peer) s then s
      else case find_founder (session_id peer) s of
        None \<Rightarrow> s
      | Some f \<Rightarrow>
          let target = link_peers s ! f in
          if mep4_addr target = 0 then s
          else let s = s\<lparr>s_active_target_session := session_id peer\<rparr>
               in measurement_start (mep4_addr target) (mep4_port target) (session_id peer)
                    (Some On_measure_done) s)"

definition session_tick :: "'a meas_st_scheme \<Rightarrow> 'a meas_st_scheme" where
  "session_tick s =
     (let s = measurement_tick s in
      if id_cmp (link_self_session s) (link_self_id s) = 0 then s
      else let
        (now, s) = host_time_us s;
        s = (if of_nat LINK_SESSION_REMEASURE_S * 1000000 < now - s_last_remeasure_us s then
               let s = (case find_founder (link_self_session s) s of
                          None \<Rightarrow> s
                        | Some f \<Rightarrow>
                            let target = link_peers s ! f;
                                s = s\<lparr>s_active_target_session := link_self_session s\<rparr>
                            in measurement_start (mep4_addr target) (mep4_port target)
                                 (link_self_session s) (Some On_measure_done) s)
               in s\<lparr>s_last_remeasure_us := now\<rparr>
             else s);
        peers = length (filter in_use (link_peers s))
      in beat_pulse_set_peer_led (0 < peers) s)"

section \<open>What the two operations leave alone\<close>

lemma intercept_meas_update [simp]:
  "intercept (s\<lparr>meas := m\<rparr>) = intercept s"
  "intercept (t\<lparr>s_active_target_session := i\<rparr>) = intercept t"
  by (simp_all add: intercept_def)

lemma send_ping_frame [simp]:
  "link_peers (send_ping s) = link_peers s" "link_self_id (send_ping s) = link_self_id s"
  "link_self_session (send_ping s) = link_self_session s" "intercept (send_ping s) = intercept s"
  "link_self_timeline (send_ping s) = link_self_timeline s"
  "s_active_target_session (send_ping s) = s_active_target_session s"
  "bp_flags (send_ping s) = bp_flags s" "s_flags (send_ping s) = s_flags s"
  by (simp_all add: send_ping_def host_time_us_eq Let_def logged_def intercept_def)

lemma measurement_start_frame [simp]:
  "link_peers (measurement_start a p i cb s) = link_peers s"
  "link_self_id (measurement_start a p i cb s) = link_self_id s"
  "link_self_session (measurement_start a p i cb s) = link_self_session s"
  "intercept (measurement_start a p i cb s) = intercept s"
  "link_self_timeline (measurement_start a p i cb s) = link_self_timeline s"
  "bp_flags (measurement_start a p i cb s) = bp_flags s"
  "s_flags (measurement_start a p i cb s) = s_flags s"
  by (simp_all add: measurement_start_def)

lemma call_completion_False [simp]: "call_completion False x s = s"
  by (simp add: call_completion_def on_measure_done_def split: option.split completion.split)

lemma measurement_tick_frame [simp]:
  "link_peers (measurement_tick s) = link_peers s" "link_self_id (measurement_tick s) = link_self_id s"
  "link_self_session (measurement_tick s) = link_self_session s"
  "intercept (measurement_tick s) = intercept s"
  "link_self_timeline (measurement_tick s) = link_self_timeline s"
  "bp_flags (measurement_tick s) = bp_flags s" "s_flags (measurement_tick s) = s_flags s"
  by (simp_all add: measurement_tick_def host_time_us_eq Let_def)

lemma peer_led_frame [simp]:
  "link_peers (beat_pulse_set_peer_led on s) = link_peers s"
  "link_self_id (beat_pulse_set_peer_led on s) = link_self_id s"
  "link_self_session (beat_pulse_set_peer_led on s) = link_self_session s"
  "intercept (beat_pulse_set_peer_led on s) = intercept s"
  "meas (beat_pulse_set_peer_led on s) = meas s"
  by (simp_all add: beat_pulse_set_peer_led_def flags_write_def Let_def intercept_def)

lemma session_observe_peer_frame [simp]:
  "link_peers (session_observe_peer k s) = link_peers s"
  "link_self_id (session_observe_peer k s) = link_self_id s"
  "link_self_session (session_observe_peer k s) = link_self_session s"
  "intercept (session_observe_peer k s) = intercept s"
  "link_self_timeline (session_observe_peer k s) = link_self_timeline s"
  by (simp_all add: session_observe_peer_def Let_def split: option.split)

lemma session_tick_frame [simp]:
  "link_peers (session_tick s) = link_peers s" "link_self_id (session_tick s) = link_self_id s"
  "link_self_session (session_tick s) = link_self_session s"
  "intercept (session_tick s) = intercept s"
  by (simp_all add: session_tick_def host_time_us_eq Let_def split: option.split)

lemma session_ops_peers_inv:
  "peers_inv s \<Longrightarrow> peers_inv (session_observe_peer k s)" "peers_inv s \<Longrightarrow> peers_inv (session_tick s)"
  by (simp_all add: peers_inv_def)

lemma session_observe_peer_inv: "meas_inv (meas s) \<Longrightarrow> meas_inv (meas (session_observe_peer k s))"
  by (simp add: session_observe_peer_def Let_def measurement_start_inv split: option.split)

lemma session_tick_inv: "meas_inv (meas s) \<Longrightarrow> meas_inv (meas (session_tick s))"
  using measurement_tick_inv [of s]
  by (simp add: session_tick_def host_time_us_eq Let_def measurement_start_inv split: option.split)

section \<open>Whom a measurement is started against\<close>

text \<open>The founder of the session if it is among the peers, otherwise some member of it.\<close>

lemma find_founder_SomeD:
  assumes "find_founder i s = Some f"
  shows "f < length (link_peers s)" "in_use (link_peers s ! f)" "session_id (link_peers s ! f) = i"
    "\<exists>p\<in>set (link_peers s). in_use p \<and> session_id p = i \<and> node_id p = i \<Longrightarrow>
       node_id (link_peers s ! f) = i"
proof -
  let ?founder = "\<lambda>p. in_session i p \<and> id_cmp (node_id p) i = 0"
  have "f < length (link_peers s) \<and> in_session i (link_peers s ! f) \<and>
      ((\<exists>p\<in>set (link_peers s). ?founder p) \<longrightarrow> ?founder (link_peers s ! f))"
  proof (cases "find_index ?founder (link_peers s)")
    case None
    then have "find_index (in_session i) (link_peers s) = Some f"
      using assms by (simp only: find_founder_def option.case)
    moreover have "\<not> (\<exists>p\<in>set (link_peers s). ?founder p)"
      using None unfolding find_index_None by blast
    ultimately    show ?thesis using find_index_SomeD [of "in_session i"] by blast
  next
    case (Some k)
    then have "k = f" using assms by (simp only: find_founder_def option.case option.inject)
    with find_index_SomeD [OF Some] show ?thesis by blast
  qed
  then show "f < length (link_peers s)" "in_use (link_peers s ! f)" "session_id (link_peers s ! f) = i"
    "\<exists>p\<in>set (link_peers s). in_use p \<and> session_id p = i \<and> node_id p = i \<Longrightarrow>
       node_id (link_peers s ! f) = i"
    by auto
qed

lemma find_founder_None: "find_founder i s = None \<longleftrightarrow> (\<forall>p\<in>set (link_peers s). \<not> (in_use p \<and> session_id p = i))"
proof (cases "find_founder i s")
  case None
  then have "find_index (in_session i) (link_peers s) = None"
    by (auto simp only: find_founder_def split: option.splits)
  with None show ?thesis by (simp add: find_index_None)
next
  case (Some f)
  with find_founder_SomeD [OF Some] show ?thesis by (metis nth_mem option.distinct(1))
qed

text \<open>Observing a peer of a session that is neither ours nor measured.\<close>

definition worth_measuring :: "nat \<Rightarrow> nat \<Rightarrow> 'a meas_st_scheme \<Rightarrow> bool" where
  "worth_measuring k f s \<longleftrightarrow>
     (let i = session_id (link_peers s ! k) in
      i \<noteq> link_self_session s \<and> \<not> session_known_in_local_view i s \<and>
      find_founder i s = Some f \<and> mep4_addr (link_peers s ! f) \<noteq> 0)"

lemma session_observe_peer_measures:
  assumes "worth_measuring k f s"
  shows "session_observe_peer k s =
    measurement_start (mep4_addr (link_peers s ! f)) (mep4_port (link_peers s ! f))
      (session_id (link_peers s ! k)) (Some On_measure_done)
      (s\<lparr>s_active_target_session := session_id (link_peers s ! k)\<rparr>)"
  using assms by (simp add: session_observe_peer_def worth_measuring_def Let_def)

lemma session_observe_peer_ignores:
  "(\<nexists>f. worth_measuring k f s) \<Longrightarrow> session_observe_peer k s = s"
  by (auto simp: session_observe_peer_def worth_measuring_def Let_def split: option.split)

lemma measurement_start_starts:
  assumes "\<not> active (meas s)"
  shows "active (meas (measurement_start a p i cb s))"
    "target_addr (meas (measurement_start a p i cb s)) = a"
    "target_port (meas (measurement_start a p i cb s)) = p"
    "target_session (meas (measurement_start a p i cb s)) = i"
    "compl_cb (meas (measurement_start a p i cb s)) = cb"
    "n_samples (meas (measurement_start a p i cb s)) = 0"
    "sent (measurement_start a p i cb s) = sent s @
       [sent_to (ip4_of a) p LINK_DISCOVERY_PORT (encode_ping (host_now s) 0 False)]"
  using assms by (simp_all add: measurement_start_def send_ping_sent zero_state_def host_now_def)

section \<open>Properties\<close>

text \<open>
  Observing a peer of a foreign session that was never measured, while no measurement is running,
  starts one against a member of that session, and against its founder whenever the founder is among
  the peers: the target is recorded and the first PING is the only datagram sent.
\<close>

theorem foreign_session_measured:
  assumes "worth_measuring k f s" "\<not> active (meas s)"
  shows "let i = session_id (link_peers s ! k); t = session_observe_peer k s; target = link_peers s ! f in
    active (meas t) \<and> target_session (meas t) = i \<and> s_active_target_session t = i \<and>
    target_addr (meas t) = mep4_addr target \<and> target_port (meas t) = mep4_port target \<and>
    sent t = sent s @ [sent_to (ip4_of (mep4_addr target)) (mep4_port target) 20808
                         (encode_ping (host_now s) 0 False)] \<and>
    in_use target \<and> session_id target = i \<and>
    ((\<exists>p\<in>set (link_peers s). in_use p \<and> session_id p = i \<and> node_id p = i) \<longrightarrow> node_id target = i)"
proof -
  let ?i = "session_id (link_peers s ! k)"
  let ?s = "s\<lparr>s_active_target_session := ?i\<rparr>"
  have f: "find_founder ?i s = Some f" using assms(1) by (simp add: worth_measuring_def Let_def)
  have "\<not> active (meas ?s)" "host_now ?s = host_now s" using assms(2) by (simp_all add: host_now_def)
  then show ?thesis
    using find_founder_SomeD [OF f] measurement_start_starts [of ?s]
    by (simp add: session_observe_peer_measures [OF assms(1)] Let_def LINK_DISCOVERY_PORT_def)
      (simp add: measurement_start_def send_ping_frame)
qed

text \<open>
  C40: While a measurement is running, observing a peer of yet another unmeasured session leaves the
  measurement alone but retargets its result: when it succeeds, the node judges, and may join, the
  session it never measured, with the intercept of the one it did.
\<close>

theorem running_measurement_retargeted:
  assumes "worth_measuring k f s" "active (meas s)"
    "target_session (meas s) \<noteq> session_id (link_peers s ! k)"
  shows "let t = session_observe_peer k s in
    meas t = meas s \<and> s_active_target_session t \<noteq> target_session (meas t) \<and>
    (joins x t \<longrightarrow> link_self_session (on_measure_done True x t) \<noteq> target_session (meas s) \<and>
                  intercept (on_measure_done True x t) = x)"
  using assms(2,3)
  by (auto simp: Let_def session_observe_peer_measures [OF assms(1)] measurement_start_def
      on_measure_done_session)

text \<open>
  The peer LED follows the peer table only while the node is in a foreign session: a tick then
  lights it exactly if some peer is known. The founder of a session returns early, and its LED stays
  as it was, whatever the table holds.
\<close>

theorem session_tick_peer_led:
  assumes "flags_inv s"
  shows "flags_inv (session_tick s) \<and>
    peer_led (session_tick s) = (if link_self_session s = link_self_id s then peer_led s
                                 else \<exists>p\<in>set (link_peers s). in_use p)"
proof -
  have led: "flags_inv (beat_pulse_set_peer_led on u) \<and> peer_led (beat_pulse_set_peer_led on u) = on"
    if "flags_inv u" for on and u :: "'a meas_st_scheme"
  proof -
    have "bp_flags u = s_flags u" using that by (simp add: flags_inv_def)
    then have "peer_led (beat_pulse_set_peer_led on u) = on"
      by (simp add: peer_led_def peer_writer.put_bp_flags)
    with flag_ops_inv(2) [OF that] show ?thesis by blast
  qed
  have len: "0 < length (filter in_use ps) \<longleftrightarrow> (\<exists>p\<in>set ps. in_use p)" for ps
    by (simp add: filter_empty_conv)
  have same: "flags_inv v" if "bp_flags v = bp_flags s" "s_flags v = s_flags s" for v :: "'a meas_st_scheme"
    using assms that by (simp add: flags_inv_def)
  have led_same: "peer_led (measurement_tick s) = peer_led s" by (simp add: peer_led_def)
  show ?thesis
    using assms
    by (simp add: session_tick_def Let_def host_time_us_eq led same led_same len
        del: length_greater_0_conv split: option.split)
qed

end
