(* ===== verification/Discovery.thy ===== *)
theory Discovery
  imports Session
begin

text \<open>
  \<open>link_handle_rx\<close> of \<^verbatim>\<open>firmware/link.c\<close>: the receive path of the discovery protocol. It is
  given the address of the datagram buffer; its result is \<open>None\<close> where the TLV walk forms a pointer
  outside the address space.
\<close>

definition store_peer :: "nat \<Rightarrow> link_peer \<Rightarrow> 'a link_st_scheme \<Rightarrow> 'a link_st_scheme" where
  "store_peer k p s = s\<lparr>link_peers := (link_peers s)[k := p]\<rparr>"

definition link_handle_rx ::
  "u32 \<Rightarrow> u8 list \<Rightarrow> u32 \<Rightarrow> u16 \<Rightarrow> 'a meas_st_scheme \<Rightarrow> 'a meas_st_scheme option" where
  "link_handle_rx a buf saddr sport s =
     (if length buf < 8 + 12 then Some s
      else if memcmp (take 8 buf) kProtoHdr \<noteq> 0 then Some s
      else let mtype = buf ! 8; group = be16 (drop 10 buf) in
        if group \<noteq> 0 then Some s
        else let i = id_of_bytes (drop 12 buf) in
          if id_cmp i (link_self_id s) = 0 then Some s
          else if mtype = 3 then Some (evict_peer i s)
          else if mtype \<noteq> 1 \<and> mtype \<noteq> 2 then Some s
          else case find_or_alloc_peer i s of
            (None, s) \<Rightarrow> Some s
          | (Some k, s) \<Rightarrow> do {
              (_, peer) \<leftarrow> tlv_walk (a + 20) handle_entry (drop 20 buf) (link_peers s ! k);
              let (now, s) = host_time_us s;
                  peer = peer\<lparr>expires_at_us := now + of_nat LINK_DISCOVERY_TTL_SEC * 1000000\<rparr>;
                  s = session_observe_peer k (store_peer k peer s)
              in Some (if mtype = 1 then send_response saddr sport s else s)
            })"

section \<open>The four outcomes of a datagram\<close>

lemma store_peer_frame [simp]:
  "link_peers (store_peer k p s) = (link_peers s)[k := p]"
  "link_self_id (store_peer k p s) = link_self_id s"
  "link_self_session (store_peer k p s) = link_self_session s"
  "intercept (store_peer k p s) = intercept s" "link_self_timeline (store_peer k p s) = link_self_timeline s"
  "meas (store_peer k p t) = meas t"
  by (simp_all add: store_peer_def)

lemma send_response_frame [simp]:
  "link_peers (send_response a p s) = link_peers s" "link_self_id (send_response a p s) = link_self_id s"
  "link_self_session (send_response a p s) = link_self_session s"
  "intercept (send_response a p s) = intercept s"
  "link_self_timeline (send_response a p s) = link_self_timeline s"
  "meas (send_response a p t) = meas t"
  by (simp_all add: send_response_def logged_def intercept_def)

lemma evict_peer_frame [simp]:
  "link_self_id (evict_peer i s) = link_self_id s"
  "link_self_session (evict_peer i s) = link_self_session s"
  "intercept (evict_peer i s) = intercept s" "meas (evict_peer i t) = meas t"
  by (simp_all add: evict_peer_def split: option.split)

text \<open>A state message, after the walk: slot \<open>k\<close>, the peer as parsed, and the state it is stored in.\<close>

definition observe :: "nat \<Rightarrow> link_peer \<Rightarrow> bool \<Rightarrow> u32 \<Rightarrow> u16 \<Rightarrow> 'a meas_st_scheme \<Rightarrow> 'a meas_st_scheme" where
  "observe k peer alive saddr sport s =
     (let peer = peer\<lparr>expires_at_us := host_now s + 5000000\<rparr>;
          s = session_observe_peer k (store_peer k peer (s\<lparr>n_reads := n_reads s + 2\<rparr>))
      in if alive then send_response saddr sport s else s)"

definition on_state_msg ::
  "u32 \<Rightarrow> u8 list \<Rightarrow> u32 \<Rightarrow> u16 \<Rightarrow> 'a meas_st_scheme \<Rightarrow> 'a meas_st_scheme option" where
  "on_state_msg a buf saddr sport s =
     (case find_or_alloc_peer (id_of_bytes (drop 12 buf)) s of
        (None, s) \<Rightarrow> Some s
      | (Some k, s) \<Rightarrow> do {
          (_, peer) \<leftarrow> tlv_walk (a + 20) handle_entry (drop 20 buf) (link_peers s ! k);
          Some (observe k peer (buf ! 8 = 1) saddr sport s)
        })"

definition is_discovery :: "u8 list \<Rightarrow> bool" where
  "is_discovery buf \<longleftrightarrow> 20 \<le> length buf \<and> memcmp (take 8 buf) kProtoHdr = 0 \<and> be16 (drop 10 buf) = 0"

lemma link_handle_rx_eq:
  "link_handle_rx a buf saddr sport s =
     (if \<not> is_discovery buf \<or> id_of_bytes (drop 12 buf) = link_self_id s then Some s
      else if buf ! 8 = 3 then Some (evict_peer (id_of_bytes (drop 12 buf)) s)
      else if buf ! 8 \<noteq> 1 \<and> buf ! 8 \<noteq> 2 then Some s
      else on_state_msg a buf saddr sport s)"
  unfolding link_handle_rx_def on_state_msg_def is_discovery_def observe_def Let_def host_time_us_eq
    LINK_DISCOVERY_TTL_SEC_def
  by (simp cong: if_cong option.case_cong prod.case_cong)

lemma link_handle_rx_cases:
  assumes "link_handle_rx a buf saddr sport s = Some t"
  obtains (ignored) "t = s"
  | (byebye) i where "t = evict_peer i s"
  | (state) k s' r peer where "find_or_alloc_peer (id_of_bytes (drop 12 buf)) s = (Some k, s')"
      "id_of_bytes (drop 12 buf) \<noteq> link_self_id s"
      "tlv_walk (a + 20) handle_entry (drop 20 buf) (link_peers s' ! k) = Some (r, peer)"
      "t = observe k peer (buf ! 8 = 1) saddr sport s'"
proof -
  let ?i = "id_of_bytes (drop 12 buf)"
  have "t = s \<or> t = evict_peer ?i s \<or>
      ?i \<noteq> link_self_id s \<and> on_state_msg a buf saddr sport s = Some t"
    using assms unfolding link_handle_rx_eq by (simp split: if_split_asm)
  then consider "t = s" | "t = evict_peer ?i s"
    | "?i \<noteq> link_self_id s" "on_state_msg a buf saddr sport s = Some t" by blast
  then show thesis
  proof cases
    case 3
    obtain k' s' where alloc: "find_or_alloc_peer ?i s = (k', s')" by fastforce
    show thesis
    proof (cases k')
      case None
      with 3 alloc have "t = s" by (simp add: on_state_msg_def find_or_alloc_peer_None)
      then show thesis by (rule ignored)
    next
      case (Some k)
      with 3 alloc show thesis by (auto simp: on_state_msg_def bind_eq_Some_conv intro: state)
    qed
  qed (use ignored byebye in auto)
qed

section \<open>What every datagram leaves intact\<close>

lemma observe_frame [simp]:
  "link_self_id (observe k p al ip port s) = link_self_id s"
  "link_self_session (observe k p al ip port s) = link_self_session s"
  "intercept (observe k p al ip port s) = intercept s"
  "link_self_timeline (observe k p al ip port s) = link_self_timeline s"
  "link_peers (observe k p al ip port s) =
     (link_peers s)[k := p\<lparr>expires_at_us := host_now s + 5000000\<rparr>]"
  by (simp_all add: observe_def Let_def)

lemma observe_meas_inv: "meas_inv (meas s) \<Longrightarrow> meas_inv (meas (observe k p al ip port s))"
  by (simp add: observe_def Let_def session_observe_peer_inv)

lemma find_or_alloc_peer_Some:
  assumes "find_or_alloc_peer i s = (Some k, t)"
  shows "k < length (link_peers s)" "length (link_peers t) = length (link_peers s)"
    "in_use (link_peers t ! k)" "node_id (link_peers t ! k) = i"
    "link_peers t ! k = (if known_peer i s then link_peers s ! k else claim_peer i undefined)"
    "j \<noteq> k \<Longrightarrow> link_peers t ! j = link_peers s ! j"
    "link_self_id t = link_self_id s" "link_self_session t = link_self_session s"
    "intercept t = intercept s" "link_self_timeline t = link_self_timeline s" "n_reads t = n_reads s"
    "host_now t = host_now s" "net_log t = net_log s"
proof -
  have "t = s \<and> k < length (link_peers s) \<and> in_use (link_peers s ! k) \<and> node_id (link_peers s ! k) = i \<or>
      t = s\<lparr>link_peers := (link_peers s)[k := claim_peer i undefined]\<rparr> \<and> k < length (link_peers s) \<and>
      \<not> known_peer i s"
    using find_or_alloc_peer_cases [of i s]
  proof cases
    case (known k')
    with assms have "k' = k" "t = s" by simp_all
    with known show ?thesis by simp
  next
    case (fresh k')
    with assms have "k' = k" "t = s\<lparr>link_peers := (link_peers s)[k' := claim_peer i undefined]\<rparr>" by auto
    with fresh show ?thesis by blast
  qed (use assms in simp)
  then consider "t = s" "k < length (link_peers s)" "in_use (link_peers s ! k)" "node_id (link_peers s ! k) = i"
    | "t = s\<lparr>link_peers := (link_peers s)[k := claim_peer i undefined]\<rparr>" "k < length (link_peers s)"
      "\<not> known_peer i s" by blast
  note cases = this
  have here: "known_peer i s" if "k < length (link_peers s)" "in_use (link_peers s ! k)"
      "node_id (link_peers s ! k) = i"
    using that nth_mem by (auto simp: known_peer_def)
  have "k < length (link_peers s) \<and> length (link_peers t) = length (link_peers s) \<and>
    in_use (link_peers t ! k) \<and> node_id (link_peers t ! k) = i \<and>
    link_peers t ! k = (if known_peer i s then link_peers s ! k else claim_peer i undefined) \<and>
    (j \<noteq> k \<longrightarrow> link_peers t ! j = link_peers s ! j) \<and>
    link_self_id t = link_self_id s \<and> link_self_session t = link_self_session s \<and>
    intercept t = intercept s \<and> link_self_timeline t = link_self_timeline s \<and> n_reads t = n_reads s \<and>
    host_now t = host_now s \<and> net_log t = net_log s"
    using cases
  proof cases
    case 1
    with here show ?thesis by simp
  next
    case 2
    then show ?thesis by (simp add: host_now_def)
  qed
  then show "k < length (link_peers s)" "length (link_peers t) = length (link_peers s)"
    "in_use (link_peers t ! k)" "node_id (link_peers t ! k) = i"
    "link_peers t ! k = (if known_peer i s then link_peers s ! k else claim_peer i undefined)"
    "j \<noteq> k \<Longrightarrow> link_peers t ! j = link_peers s ! j"
    "link_self_id t = link_self_id s" "link_self_session t = link_self_session s"
    "intercept t = intercept s" "link_self_timeline t = link_self_timeline s" "n_reads t = n_reads s"
    "host_now t = host_now s" "net_log t = net_log s"
    by blast+
qed

lemma find_or_alloc_peer_meas: "find_or_alloc_peer i s = (k, t) \<Longrightarrow> meas t = meas s"
  by (auto simp: find_or_alloc_peer_def split: prod.splits option.splits)

lemma peers_inv_store:
  assumes "peers_inv s" "k < length (link_peers s)" "in_use (link_peers s ! k)"
    "in_use p" "node_id p = node_id (link_peers s ! k)"
    "link_peers t = (link_peers s)[k := p]" "link_self_id t = link_self_id s"
  shows "peers_inv t"
proof -
  have "distinct_keys in_use node_id ((link_peers s)[k := p])"
    using assms by (intro peers.distinct_rewrite) (auto simp: peers_inv_def)
  moreover have "node_id p \<noteq> link_self_id s"
    using assms by (auto simp: peers_inv_def)
  moreover have "\<forall>q\<in>set ((link_peers s)[k := p]). in_use q \<longrightarrow> node_id q \<noteq> link_self_id s"
    using assms(1) calculation(2) by (metis in_set_updateD peers_inv_def)
  ultimately show ?thesis
    using assms by (simp add: peers_inv_def)
qed

lemma link_handle_rx_peers_inv:
  assumes "peers_inv s" "link_handle_rx a buf ip port s = Some t"
  shows "peers_inv t"
  using assms(2)
proof (cases rule: link_handle_rx_cases)
  case (state k s' r peer)
  note slot = find_or_alloc_peer_Some [OF state(1)]
  have "peers_inv s'"
    using find_or_alloc_peer_inv [OF assms(1), of "id_of_bytes (drop 12 buf)"] state(1,2) by simp
  moreover have "in_use peer" "node_id peer = node_id (link_peers s' ! k)"
    using entry_reader.walk_keeps [OF _ state(3), of True "node_id (link_peers s' ! k)"] slot(3)
    by auto
  ultimately show ?thesis
    using peers_inv_store [of s' k "peer\<lparr>expires_at_us := host_now s' + 5000000\<rparr>" t]
    by (simp add: slot(1-4) state(4))
qed (use assms(1) evict_peer_inv in auto)

lemma link_handle_rx_meas_inv:
  assumes "meas_inv (meas s)" "link_handle_rx a buf ip port s = Some t"
  shows "meas_inv (meas t)"
  using assms(2)
  by (cases rule: link_handle_rx_cases)
    (use assms(1) in \<open>auto simp: observe_meas_inv find_or_alloc_peer_meas\<close>)

text \<open>No discovery message changes the session, the clock or the timeline of the node.\<close>

lemma evict_peer_timeline [simp]: "link_self_timeline (evict_peer i s) = link_self_timeline s"
  by (simp add: evict_peer_def split: option.split)

lemma link_handle_rx_self:
  assumes "link_handle_rx a buf ip port s = Some t"
  shows "link_self_id t = link_self_id s" "link_self_session t = link_self_session s"
    "intercept t = intercept s" "link_self_timeline t = link_self_timeline s"
proof -
  have "link_self_id t = link_self_id s \<and> link_self_session t = link_self_session s \<and>
    intercept t = intercept s \<and> link_self_timeline t = link_self_timeline s"
    using assms
    by (cases rule: link_handle_rx_cases) (auto dest: find_or_alloc_peer_Some(7-10))
  then show "link_self_id t = link_self_id s" "link_self_session t = link_self_session s"
    "intercept t = intercept s" "link_self_timeline t = link_self_timeline s" by simp_all
qed

section \<open>A state message, end to end\<close>

lemma discovery_fields:
  "is_discovery (discovery_header m ttl i @ pl)"
  "(discovery_header m ttl i @ pl) ! 8 = m"
  "id_of_bytes (drop 12 (discovery_header m ttl i @ pl)) = i"
  "drop 20 (discovery_header m ttl i @ pl) = pl"
  by (simp_all add: is_discovery_def memcmp_eq_0 discovery_header_def kProtoHdr_def be16_def)

lemma state_msg_walk:
  assumes "length (netif_ip6 u) = 16" "unat a + 256 < 2 ^ 32"
  shows "tlv_walk (a + 20) handle_entry (tlv_payload (state_entries u)) p = Some (0, heard_state u p)"
proof -
  have "unat (a + 20) = unat a + 20" using assms(2) by (simp add: unat_add_small)
  then show ?thesis
    using assms length_state_entries [of u]
    by (subst entry_reader.walk_payload) (simp_all add: fold_state_entries)
qed

lemma state_msg_received:
  assumes "length (netif_ip6 u) = 16" "unat a + 256 < 2 ^ 32" "link_self_id u \<noteq> link_self_id s"
    "m = 1 \<or> m = 2" "find_or_alloc_peer (link_self_id u) s = (Some k, s')"
  shows "link_handle_rx a (encode_msg m True u) ip port s =
    Some (observe k (heard_state u (link_peers s' ! k)) (m = 1) ip port s')"
  using assms by (auto simp: link_handle_rx_eq encode_msg_eq discovery_fields on_state_msg_def state_msg_walk
      simp del: drop_append)

lemma find_or_alloc_peer_room:
  assumes "known_peer i s \<or> (\<exists>p\<in>set (link_peers s). \<not> in_use p)"
  obtains k t where "find_or_alloc_peer i s = (Some k, t)"
  using find_or_alloc_peer_cases [of i s]
proof cases
  case full
  with assms show ?thesis by blast
qed (use that in blast)+

text \<open>The encoders of the local state depend on the fields they send only.\<close>

lemma encode_msg_cong:
  "link_self_id t = link_self_id s \<Longrightarrow> link_self_session t = link_self_session s \<Longrightarrow>
   link_self_timeline t = link_self_timeline s \<Longrightarrow> link_self_startstop t = link_self_startstop s \<Longrightarrow>
   netif_ip4 t = netif_ip4 s \<Longrightarrow> netif_ip6 t = netif_ip6 s \<Longrightarrow> encode_msg m w t = encode_msg m w s"
  by (simp add: encode_msg_def net_local_ipv4_def net_local_ipv6_bytes_def Let_def)

lemma observe_responds:
  "\<exists>pings. sent (observe k p True ip port s) =
     pings @ [sent_to (ip4_of ip) port LINK_DISCOVERY_PORT
                (encode_msg 2 True (observe k p True ip port s))]"
proof -
  have "encode_msg 2 True (logged d t) = encode_msg 2 True t" for d and t :: "'a meas_st_scheme"
    by (rule encode_msg_cong) (simp_all add: logged_def)
  then show ?thesis by (simp add: observe_def Let_def send_response_def)
qed

text \<open>The receive path reads every byte of the header but the tenth, the \<open>ttl\<close>.\<close>

lemma link_handle_rx_ttl: "link_handle_rx a (buf[9 := ttl]) ip port s = link_handle_rx a buf ip port s"
proof -
  have "take 8 (buf[9 := ttl]) = take 8 buf" "drop 10 (buf[9 := ttl]) = drop 10 buf"
    "drop 12 (buf[9 := ttl]) = drop 12 buf" "drop 20 (buf[9 := ttl]) = drop 20 buf" "(buf[9 := ttl]) ! 8 = buf ! 8"
    by (simp_all del: drop_append)
  then show ?thesis unfolding link_handle_rx_eq is_discovery_def on_state_msg_def length_list_update by (simp only:)
qed

section \<open>Malformed messages\<close>

text \<open>
  The first bytes of \<open>b\<close> are no entry: fewer than eight are left, the size runs past the end of the
  datagram, or it is not the size of the key.
\<close>

definition entry_size :: "u32 \<Rightarrow> u32 option" where
  "entry_size key =
     (if key = KEY_TMLN then Some 24 else if key = KEY_SESS then Some 8 else if key = KEY_STST then Some 17
      else if key = KEY_MEP4 then Some 6 else if key = KEY_AEP4 then Some 6
      else if key = KEY_MEP6 then Some 18 else if key = KEY_AEP6 then Some 18 else None)"

definition malformed :: "u8 list \<Rightarrow> bool" where
  "malformed b \<longleftrightarrow> b \<noteq> [] \<and> (length b < 8 \<or> length b - 8 < unat (tlv_size b) \<or>
     (case entry_size (tlv_key b) of None \<Rightarrow> False | Some n \<Rightarrow> tlv_size b \<noteq> n))"

lemma handle_entry_rejects:
  "entry_size key \<noteq> None \<Longrightarrow> entry_size key \<noteq> Some n \<Longrightarrow> handle_entry key v n p = Some (- 1, p)"
  unfolding entry_size_def handle_entry_def
  by (simp only: if_True if_False option.inject option.simps not_False_eq_True simp_thms split: if_split_asm)
    (subst if_P, erule not_sym, rule refl)+

context tlv_safe_reader
begin

text \<open>Behind well-formed entries the walk stops at the first malformed one and changes nothing more.\<close>

lemma walk_bad_tail:
  assumes "unat a + length (tlv_payload es) + 8 < 2 ^ 32"
    and "8 \<le> length b \<Longrightarrow> unat a + length (tlv_payload es) + 8 + unat (tlv_size b) < 2 ^ 32"
    and "8 \<le> length b \<Longrightarrow> unat (tlv_size b) \<le> length b - 8 \<Longrightarrow>
      (\<And>c. cb (tlv_key b) (drop 8 b) (tlv_size b) c = Some (- 1, c))"
  shows "\<exists>r. tlv_walk a cb (tlv_payload es @ b) ctx = map_option (Pair r \<circ> snd) (tlv_fold cb es ctx)"
  using assms
proof (induction es arbitrary: a ctx)
  case Nil
  consider "length b < 8" | "8 \<le> length b" "length b - 8 < unat (tlv_size b)"
    | "8 \<le> length b" "unat (tlv_size b) \<le> length b - 8" by linarith
  then show ?case using Nil by cases (simp_all add: tlv_walk_end tlv_walk_short tlv_walk_step)
next
  case (Cons e es)
  obtain key v where e: "e = (key, v)" by (cases e)
  define p where "p = tlv_payload (e # es) @ b"
  let ?n = "of_nat (length v) :: u32" and ?rest = "tlv_payload es @ b"
  have n: "unat ?n = length v" using Cons.prems e by (simp add: unat_of_nat_small)
  have len: "length p = 8 + length v + length ?rest" "unat a + 16 + length v + length (tlv_payload es) < 2 ^ 32"
    using Cons.prems(1) by (simp_all add: p_def e)
  have p: "p = tlv_entry (key, v) @ ?rest" by (simp add: p_def e)
  have fields: "tlv_key p = key" "tlv_size p = ?n" "drop 8 p = v @ ?rest"
    unfolding p tlv_entry_fields by simp_all
  have next': "drop (unat ?n) (v @ ?rest) = ?rest" using n by simp
  have "unat (a + 8 + ?n) = unat a + 8 + length v" using len n by (simp add: unat_add_small)
  then have rest: "\<exists>r. tlv_walk (a + 8 + ?n) cb ?rest c = map_option (Pair r \<circ> snd) (tlv_fold cb es c)" for c
    using len Cons.prems by (intro Cons.IH) (simp_all add: e)
  have local: "cb key (v @ ?rest) ?n ctx = cb key v ?n ctx"
    using cb_local [of ?n "v @ ?rest"] n by simp
  have step: "tlv_walk a cb p ctx = do { (r, c) \<leftarrow> cb key v ?n ctx;
      if r \<noteq> 0 then Some (- 1, c) else tlv_walk (a + 8 + ?n) cb ?rest c }"
    using len n by (subst tlv_walk_step; simp only: fields next' local) (simp_all cong: if_cong)
  show ?case
  proof (cases "cb key v ?n ctx")
    case (Some x)
    obtain r c where "x = (r, c)" by (cases x)
    with Some rest [of c] show ?thesis unfolding p_def [symmetric] step by (simp add: e comp_def)
  next
    case None
    then show ?thesis unfolding p_def [symmetric] step by (simp add: e)
  qed
qed

lemma fold_total:
  assumes "Inv ctx" "length (tlv_payload es) < 2 ^ 32"
  shows "\<exists>r c. tlv_fold cb es ctx = Some (r, c) \<and> Inv c"
  using assms
proof (induction es arbitrary: ctx)
  case (Cons e es)
  obtain key v where e: "e = (key, v)" by (cases e)
  have n: "unat (of_nat (length v) :: u32) = length v" using Cons.prems(2) by (simp add: e unat_of_nat_small)
  then have "cb key v (of_nat (length v)) ctx \<noteq> None" by (intro cb_total [OF Cons.prems(1)]) simp
  then obtain r c where cb: "cb key v (of_nat (length v)) ctx = Some (r, c)" by auto
  have "Inv c" using cb_keeps [OF Cons.prems(1) _ cb] n by simp
  then show ?case using Cons.IH [of c] Cons.prems(2) cb by (simp add: e)
qed simp

end

lemma malformed_tail_walk:
  assumes "malformed b" "unat a + 28 + length (tlv_payload es) < 2 ^ 32"
    "8 \<le> length b \<Longrightarrow> unat a + 28 + length (tlv_payload es) + unat (tlv_size b) < 2 ^ 32"
  shows "\<exists>r. tlv_walk (a + 20) handle_entry (tlv_payload es @ b) p = map_option (Pair r \<circ> snd) (tlv_fold handle_entry es p)"
proof (rule entry_reader.walk_bad_tail)
  have a: "unat (a + 20) = unat a + 20" using assms(2) by (simp add: unat_add_small)
  then show "unat (a + 20) + length (tlv_payload es) + 8 < 2 ^ 32" using assms(2) by simp
  show "unat (a + 20) + length (tlv_payload es) + 8 + unat (tlv_size b) < 2 ^ 32" if "8 \<le> length b"
    using a assms(3) [OF that] by simp
  show "handle_entry (tlv_key b) (drop 8 b) (tlv_size b) c = Some (- 1, c)"
    if "8 \<le> length b" "unat (tlv_size b) \<le> length b - 8" for c
    using that assms(1) by (auto simp: malformed_def handle_entry_rejects split: option.splits)
qed

lemma state_msg_prefix:
  assumes "m = 1 \<or> m = 2" "i \<noteq> link_self_id s" "find_or_alloc_peer i s = (Some k, s')"
    "tlv_walk (a + 20) handle_entry pl (link_peers s' ! k) = Some (r, q)"
  shows "link_handle_rx a (discovery_header m ttl i @ pl) ip port s = Some (observe k q (m = 1) ip port s')"
  using assms by (auto simp: link_handle_rx_eq discovery_fields on_state_msg_def simp del: drop_append)

section \<open>Properties\<close>

text \<open>
  C1: An ALIVE or RESPONSE built by any node with our encoder is decoded by the receive path of any
  other node into one peer slot that holds exactly the sender's identity, session, timeline,
  start/stop state and endpoints and expires five seconds after receipt, provided the node is known
  or a slot is free; every other slot is untouched, and an ALIVE is answered with a RESPONSE.
\<close>

theorem discovery_exchange:
  assumes "length (netif_ip6 u) = 16" "unat a + 256 < 2 ^ 32" "link_self_id u \<noteq> link_self_id s"
    "m = 1 \<or> m = 2" "known_peer (link_self_id u) s \<or> (\<exists>p\<in>set (link_peers s). \<not> in_use p)"
  shows "\<exists>t k p. link_handle_rx a (encode_msg m True u) ip port s = Some t \<and>
    k < length (link_peers s) \<and> in_use p \<and> node_id p = link_self_id u \<and>
    link_peers t ! k = (heard_state u p)\<lparr>expires_at_us := host_now s + 5000000\<rparr> \<and>
    (\<forall>j. j \<noteq> k \<longrightarrow> link_peers t ! j = link_peers s ! j) \<and>
    (m = 1 \<longrightarrow> (\<exists>pings. sent t = pings @
       [sent_to (ip4_of ip) port LINK_DISCOVERY_PORT (encode_msg 2 True t)]))"
proof -
  obtain k s' where alloc: "find_or_alloc_peer (link_self_id u) s = (Some k, s')"
    using find_or_alloc_peer_room [OF assms(5)] .
  note slot = find_or_alloc_peer_Some [OF alloc]
  let ?t = "observe k (heard_state u (link_peers s' ! k)) (m = 1) ip port s'"
  have "link_handle_rx a (encode_msg m True u) ip port s = Some ?t"
    by (rule state_msg_received [OF assms(1-4) alloc])
  moreover have "m = 1 \<longrightarrow> (\<exists>pings. sent ?t = pings @
       [sent_to (ip4_of ip) port LINK_DISCOVERY_PORT (encode_msg 2 True ?t)])"
    using observe_responds [of k "heard_state u (link_peers s' ! k)" ip port s'] by auto
  ultimately show ?thesis
    using slot by (intro exI [of _ ?t] exI [of _ k] exI [of _ "link_peers s' ! k"]) auto
qed

text \<open>
  The receive path of the discovery protocol keeps the peer table well formed (sixteen slots, at
  most one per node, none for the node itself) and the invariant of a running measurement, whatever
  bytes the datagram holds.
\<close>

theorem link_handle_rx_inv:
  assumes "peers_inv s" "meas_inv (meas s)" "link_handle_rx a buf ip port s = Some t"
  shows "peers_inv t \<and> meas_inv (meas t)"
  using assms link_handle_rx_peers_inv link_handle_rx_meas_inv by blast

text \<open>
  C37: A state message whose payload breaks off in the middle of a header, holds an entry longer than
  what is left of the datagram or a known entry of the wrong size is applied up to that entry: the
  sender gets a slot (its own or a new one), the entries before the malformed one are written into it,
  whatever follows is ignored, and the message counts as heard -- the expiry is set, an ALIVE is
  answered -- just as if the datagram had ended there. The walker reports the error that the
  specification (section 3.7) demands, and \<open>link_handle_rx\<close> ignores it.
\<close>

theorem malformed_state_message:
  assumes "malformed b" "unat a + 28 + length (tlv_payload es) < 2 ^ 32"
    "8 \<le> length b \<Longrightarrow> unat a + 28 + length (tlv_payload es) + unat (tlv_size b) < 2 ^ 32"
    "m = 1 \<or> m = 2" "i \<noteq> link_self_id s" "known_peer i s \<or> (\<exists>p\<in>set (link_peers s). \<not> in_use p)"
  shows "\<exists>t k p r q. link_handle_rx a (discovery_header m ttl i @ tlv_payload es @ b) ip port s = Some t \<and>
    link_handle_rx a (discovery_header m ttl i @ tlv_payload es) ip port s = Some t \<and>
    k < length (link_peers s) \<and> in_use p \<and> node_id p = i \<and> (known_peer i s \<longrightarrow> p = link_peers s ! k) \<and>
    tlv_fold handle_entry es p = Some (r, q) \<and>
    link_peers t ! k = q\<lparr>expires_at_us := host_now s + 5000000\<rparr> \<and>
    (\<forall>j. j \<noteq> k \<longrightarrow> link_peers t ! j = link_peers s ! j) \<and>
    (m = 1 \<longrightarrow> (\<exists>pings. sent t = pings @
       [sent_to (ip4_of ip) port LINK_DISCOVERY_PORT (encode_msg 2 True t)]))"
proof -
  obtain k s' where alloc: "find_or_alloc_peer i s = (Some k, s')"
    using find_or_alloc_peer_room [OF assms(6)] .
  note slot = find_or_alloc_peer_Some [OF alloc]
  let ?p = "link_peers s' ! k"
  obtain r q where q: "tlv_fold handle_entry es ?p = Some (r, q)"
    using entry_reader.fold_total [where ctx = ?p and es = es] assms(2) by auto
  obtain r' where "tlv_walk (a + 20) handle_entry (tlv_payload es @ b) ?p = Some (r', q)"
    using malformed_tail_walk [OF assms(1-3), of ?p] q by auto
  note full = state_msg_prefix [OF assms(4,5) alloc this]
  have "unat (a + 20) = unat a + 20" using assms(2) by (simp add: unat_add_small)
  then have "tlv_walk (a + 20) handle_entry (tlv_payload es) ?p = Some (r, q)"
    using assms(2) q by (subst entry_reader.walk_payload) simp_all
  note cut = state_msg_prefix [OF assms(4,5) alloc this]
  let ?t = "observe k q (m = 1) ip port s'"
  have "m = 1 \<longrightarrow> (\<exists>pings. sent ?t = pings @ [sent_to (ip4_of ip) port LINK_DISCOVERY_PORT (encode_msg 2 True ?t)])"
    using observe_responds [of k q ip port s'] by auto
  then show ?thesis
    using full cut slot q by (intro exI [of _ ?t] exI [of _ k] exI [of _ ?p] exI [of _ r] exI [of _ q]) auto
qed

text \<open>
  The BYEBYE a node multicasts removes exactly that node from the table of every receiver.
\<close>

theorem byebye_evicts:
  assumes "peers_inv s" "link_self_id u \<noteq> link_self_id s"
  shows "\<exists>bye t. sent (link_send_byebye u) = sent u @
      [sent_to (IPv4 224 76 78 75) 20808 20808 bye,
       sent_to (IPv6 [0xff120000, 0, 0, 0x00008080]) 20808 20808 bye] \<and>
    link_handle_rx a bye ip port s = Some t \<and> \<not> known_peer (link_self_id u) t \<and>
    (\<forall>i. i \<noteq> link_self_id u \<longrightarrow> known_peer i t = known_peer i s)"
proof -
  let ?bye = "discovery_header 3 0 (link_self_id u) @ []"
  have "link_handle_rx a ?bye ip port s = Some (evict_peer (link_self_id u) s)"
    using assms(2) by (simp add: link_handle_rx_eq discovery_fields del: append_Nil2 drop_append)
  moreover have "sent (link_send_byebye u) = sent u @
      [sent_to (IPv4 224 76 78 75) 20808 20808 ?bye,
       sent_to (IPv6 [0xff120000, 0, 0, 0x00008080]) 20808 20808 ?bye]"
    by (simp add: link_send_byebye_def Let_def discovery_header_def LINK_DISCOVERY_PORT_def)
  moreover have "known_peer i (evict_peer (link_self_id u) s) = known_peer i s" if "i \<noteq> link_self_id u" for i
    using that evict_peer_others [of _ s] evict_peer_subset [of _ "link_self_id u" s]
    by (fastforce simp: known_peer_def)
  ultimately show ?thesis using evict_peer_gone [OF assms(1)] by blast
qed

text \<open>
  C20: A peer heard at host time \<open>h\<close> survives every tick up to \<open>h\<close> + 6 s (a five-second lifetime
  and the one-second grace period) unchanged, and the first later tick clears its slot. The lifetime is
  the constant \<open>LINK_DISCOVERY_TTL_SEC\<close>: a message with any other value in its \<open>ttl\<close> byte, where the
  specification (section 5.4) puts the lifetime, has the same effect.
\<close>

theorem heard_peer_lifetime:
  assumes "link_handle_rx a buf ip port s = Some t" "is_discovery buf" "buf ! 8 = 1 \<or> buf ! 8 = 2"
    "id_of_bytes (drop 12 buf) \<noteq> link_self_id s"
    "find_or_alloc_peer (id_of_bytes (drop 12 buf)) s = (Some k, s')"
    "unat (host_now s) + 6000000 < 2 ^ 64" "link_peers u ! k = link_peers t ! k" "k < length (link_peers u)"
  shows "link_peers (link_tick u) ! k =
    (if unat (host_now u) \<le> unat (host_now s) + 6000000 then link_peers t ! k else zero_peer) \<and>
    link_handle_rx a (buf[9 := ttl]) ip port s = Some t"
proof -
  have "on_state_msg a buf ip port s = Some t"
    using assms(1-4) by (auto simp: link_handle_rx_eq split: if_splits)
  then obtain r p where p: "tlv_walk (a + 20) handle_entry (drop 20 buf) (link_peers s' ! k) = Some (r, p)"
    and t: "t = observe k p (buf ! 8 = 1) ip port s'"
    using assms(5) by (auto simp: on_state_msg_def bind_eq_Some_conv)
  note slot = find_or_alloc_peer_Some [OF assms(5)]
  have "in_use p"
    using entry_reader.walk_keeps [OF _ p, of True "node_id (link_peers s' ! k)"] slot(3) by simp
  then have peer: "in_use (link_peers t ! k)" "expires_at_us (link_peers t ! k) = host_now s + 5000000"
    using slot(1,2,12) by (simp_all add: t)
  have "unat (host_now s + 5000000 + 1000000) = unat (host_now s) + 6000000"
    using assms(6) by (simp add: unat_add_small)
  then have "host_now s + 5000000 + 1000000 < host_now u \<longleftrightarrow> unat (host_now s) + 6000000 < unat (host_now u)"
    by (simp add: word_less_nat_alt)
  then show ?thesis
    using assms(1,7,8) peer by (simp add: link_handle_rx_ttl link_tick_peers prune_peer_def discovery_consts not_le)
qed

end
