(* ===== verification/Tdm.thy ===== *)
theory Tdm
  imports Discovery
begin

text \<open>
  \<^verbatim>\<open>firmware/tdm.c\<close>: the dispatch from (port, channel) to the CSR banks of the TDM cores, for
  the default build of \<^verbatim>\<open>config.h\<close> (two ports of sixteen channels), and the polled frame
  counter. The receive registers and the frame counters change under the firmware: \<open>tdm_rx_csr\<close> and
  \<open>tdm_count_csr\<close> give their values at the \<open>k\<close>-th access to a TDM register, and nothing is assumed
  of them. The transmit registers hold what was last written.
\<close>

definition LINK_NUM_TDM_PORTS :: nat where "LINK_NUM_TDM_PORTS = 2"
definition LINK_TDM_CHANNELS_PER_PORT :: nat where "LINK_TDM_CHANNELS_PER_PORT = 16"
definition LINK_TDM_FS_HZ :: nat where "LINK_TDM_FS_HZ = 48000"

lemmas tdm_consts = LINK_NUM_TDM_PORTS_def LINK_TDM_CHANNELS_PER_PORT_def LINK_TDM_FS_HZ_def

record tdm_st = meas_st +
  tdm_ctrl :: "u8 list"
  tdm_rx_csr :: "nat \<Rightarrow> nat \<Rightarrow> nat \<Rightarrow> u16"
  tdm_tx_csr :: "nat \<Rightarrow> nat \<Rightarrow> u16"
  tdm_count_csr :: "nat \<Rightarrow> nat \<Rightarrow> u32"
  tdm_accesses :: nat
  s_last_count :: "u32 list"

definition tdm_access :: "'a tdm_st_scheme \<Rightarrow> 'a tdm_st_scheme" where
  "tdm_access s = s\<lparr>tdm_accesses := Suc (tdm_accesses s)\<rparr>"

text \<open>The \<open>switch (ch)\<close> of \<open>DECL_PORT\<close>: the register of channels 0 to 15, nothing otherwise.\<close>

definition rx_p :: "nat \<Rightarrow> int \<Rightarrow> 'a tdm_st_scheme \<Rightarrow> u16 \<times> 'a tdm_st_scheme" where
  "rx_p N ch s =
     (if ch \<in> {0..15} then (tdm_rx_csr s (tdm_accesses s) N (nat ch), tdm_access s) else (0, s))"

definition tx_p :: "nat \<Rightarrow> int \<Rightarrow> u16 \<Rightarrow> 'a tdm_st_scheme \<Rightarrow> 'a tdm_st_scheme" where
  "tx_p N ch v s =
     (if ch \<in> {0..15}
      then s\<lparr>tdm_tx_csr := (tdm_tx_csr s)(N := (tdm_tx_csr s N)(nat ch := v))\<rparr> else s)"

definition tdm_init :: "'a tdm_st_scheme \<Rightarrow> 'a tdm_st_scheme" where
  "tdm_init s = s\<lparr>tdm_ctrl := replicate LINK_NUM_TDM_PORTS 0x01\<rparr>"

definition tdm_read_rx :: "int \<Rightarrow> int \<Rightarrow> 'a tdm_st_scheme \<Rightarrow> u16 \<times> 'a tdm_st_scheme" where
  "tdm_read_rx port channel s =
     (if port = 0 then rx_p 0 channel s else if port = 1 then rx_p 1 channel s else (0, s))"

definition tdm_write_tx :: "int \<Rightarrow> int \<Rightarrow> u16 \<Rightarrow> 'a tdm_st_scheme \<Rightarrow> 'a tdm_st_scheme" where
  "tdm_write_tx port channel sample s =
     (if port = 0 then tx_p 0 channel sample s else if port = 1 then tx_p 1 channel sample s else s)"

definition tdm_frame_count :: "nat \<Rightarrow> 'a tdm_st_scheme \<Rightarrow> u32 \<times> 'a tdm_st_scheme" where
  "tdm_frame_count port s =
     (if port < LINK_NUM_TDM_PORTS then (tdm_count_csr s (tdm_accesses s) port, tdm_access s)
      else (0, s))"

definition tdm_frame_pending :: "nat \<Rightarrow> 'a tdm_st_scheme \<Rightarrow> bool \<times> 'a tdm_st_scheme" where
  "tdm_frame_pending port s =
     (if LINK_NUM_TDM_PORTS \<le> port then (False, s)
      else let (now, s) = tdm_frame_count port s in (now \<noteq> s_last_count s ! port, s))"

definition tdm_clear_frame_pending :: "nat \<Rightarrow> 'a tdm_st_scheme \<Rightarrow> 'a tdm_st_scheme" where
  "tdm_clear_frame_pending port s =
     (if LINK_NUM_TDM_PORTS \<le> port then s
      else let (now, s) = tdm_frame_count port s
           in s\<lparr>s_last_count := (s_last_count s)[port := now]\<rparr>)"

text \<open>The transmit dispatch: an existing slot gets the sample, every other register keeps its value.\<close>

lemma tdm_write_tx_csr:
  "tdm_tx_csr (tdm_write_tx port ch v s) p c =
     (if port = int p \<and> ch = int c \<and> p < LINK_NUM_TDM_PORTS \<and> c < LINK_TDM_CHANNELS_PER_PORT
      then v else tdm_tx_csr s p c)"
  by (auto simp: tdm_write_tx_def tx_p_def tdm_consts)

end
