(* ===== verification/Float64.thy ===== *)
theory Float64
  imports Prelude "HOL-Library.Log_Nat" Complex_Main
begin

text \<open>
  C's \<open>double\<close> as the firmware uses it: IEEE binary64 with round-to-nearest-even, over exact
  rationals. The sign of a zero is not kept: no use of the firmware can observe it. A conversion to
  \<open>int64_t\<close> is \<open>None\<close> where C leaves it undefined (a NaN, an infinity or a value out of range).
\<close>

datatype f64 = Fin rat | Inf bool | NaN

text \<open>The binary exponent of a positive rational: \<open>2 ^ e \<le> x < 2 ^ (e + 1)\<close>.\<close>

definition pow2 :: "int \<Rightarrow> rat" where
  "pow2 e = (if 0 \<le> e then 2 ^ nat e else 1 / 2 ^ nat (- e))"

definition exponent :: "rat \<Rightarrow> int" where
  "exponent x = (let (n, d) = quotient_of x; e = bitlen n - bitlen d
                 in if pow2 e \<le> x then e else e - 1)"

definition round_half_even :: "rat \<Rightarrow> int" where
  "round_half_even x =
     (let f = \<lfloor>x\<rfloor>; r = x - of_int f
      in if r < 1 / 2 \<or> r = 1 / 2 \<and> even f then f else f + 1)"

definition round_mag :: "rat \<Rightarrow> rat" where
  "round_mag x = (let q = pow2 (max (exponent x - 52) (- 1074))
                  in of_int (round_half_even (x / q)) * q)"

definition f64_round :: "rat \<Rightarrow> f64" where
  "f64_round x =
     (if x = 0 then Fin 0
      else let m = round_mag \<bar>x\<bar>
           in if pow2 1024 \<le> m then Inf (x < 0) else Fin (if x < 0 then - m else m))"

definition f64_of_i64 :: "i64 \<Rightarrow> f64" where
  "f64_of_i64 x = f64_round (of_int (sint x))"

fun f64_mul :: "f64 \<Rightarrow> f64 \<Rightarrow> f64" where
  "f64_mul (Fin x) (Fin y) = f64_round (x * y)"
| "f64_mul (Inf s) (Inf t) = Inf (s \<noteq> t)"
| "f64_mul (Inf s) (Fin y) = (if y = 0 then NaN else Inf (s \<noteq> (y < 0)))"
| "f64_mul (Fin x) (Inf t) = (if x = 0 then NaN else Inf ((x < 0) \<noteq> t))"
| "f64_mul _ _ = NaN"

fun f64_div :: "f64 \<Rightarrow> f64 \<Rightarrow> f64" where
  "f64_div (Fin x) (Fin y) =
     (if y = 0 then (if x = 0 then NaN else Inf (x < 0)) else f64_round (x / y))"
| "f64_div (Inf s) (Fin y) = Inf (s \<noteq> (y < 0))"
| "f64_div (Fin x) (Inf t) = Fin 0"
| "f64_div _ _ = NaN"

fun f64_add :: "f64 \<Rightarrow> f64 \<Rightarrow> f64" where
  "f64_add (Fin x) (Fin y) = f64_round (x + y)"
| "f64_add (Inf s) (Inf t) = (if s = t then Inf s else NaN)"
| "f64_add (Inf s) (Fin y) = Inf s"
| "f64_add (Fin x) (Inf t) = Inf t"
| "f64_add _ _ = NaN"

text \<open>\<open>x < y\<close> and \<open>x > y\<close>: false on a NaN.\<close>

fun f64_less :: "f64 \<Rightarrow> f64 \<Rightarrow> bool" where
  "f64_less (Fin x) (Fin y) = (x < y)"
| "f64_less (Inf s) (Inf t) = (s \<and> \<not> t)"
| "f64_less (Inf s) (Fin y) = s"
| "f64_less (Fin x) (Inf t) = (\<not> t)"
| "f64_less _ _ = False"

definition rat_trunc :: "rat \<Rightarrow> int" where
  "rat_trunc x = (if 0 \<le> x then \<lfloor>x\<rfloor> else - \<lfloor>- x\<rfloor>)"

text \<open>\<open>(int64_t)x\<close>\<close>

fun f64_to_i64 :: "f64 \<Rightarrow> i64 option" where
  "f64_to_i64 (Fin x) =
     (let t = rat_trunc x in if - (2 ^ 63) \<le> t \<and> t < 2 ^ 63 then Some (word_of_int t) else None)"
| "f64_to_i64 _ = None"

section \<open>Rounding\<close>

lemma pow2_pos [simp]: "0 < pow2 e"
  by (simp add: pow2_def)

lemma pow2_Suc: "pow2 (e + 1) = 2 * pow2 e"
proof (cases "0 \<le> e")
  case True
  then show ?thesis by (simp add: pow2_def nat_add_distrib)
next
  case False
  show ?thesis
  proof (cases "e = - 1")
    case False
    with \<open>\<not> 0 \<le> e\<close> have "nat (- e) = Suc (nat (- (e + 1)))" by simp
    with False \<open>\<not> 0 \<le> e\<close> show ?thesis by (simp add: pow2_def)
  qed (simp add: pow2_def)
qed

lemma pow2_nat [simp]: "pow2 (int n) = 2 ^ n"
  by (simp add: pow2_def)

lemma pow2_diff: "pow2 (int a - int b) = 2 ^ a / 2 ^ b"
proof (cases "b \<le> a")
  case True
  then have "int a - int b = int (a - b)" by simp
  with True show ?thesis by (simp only: pow2_nat) (simp add: power_diff)
next
  case False
  then have "nat (- (int a - int b)) = b - a" "\<not> 0 \<le> int a - int b" by simp_all
  then show ?thesis using False by (simp add: pow2_def power_diff)
qed

lemma pow2_bitlen: "0 < n \<Longrightarrow> pow2 (bitlen n - 1) \<le> of_int n \<and> of_int n < pow2 (bitlen n)"
proof -
  assume n: "0 < n"
  have b: "1 \<le> bitlen n" using n bitlen_nonneg [of n] bitlen_eq_zero_iff [of n] by linarith
  have "of_int (2 ^ nat (bitlen n - 1)) \<le> (of_int n :: rat)" "of_int n < (of_int (2 ^ nat (bitlen n)) :: rat)"
    using bitlen_bounds [OF n] by (simp_all only: of_int_le_iff of_int_less_iff)
  with b show ?thesis by (simp add: pow2_def)
qed

lemma pow2_add: "pow2 (a + b) = pow2 a * pow2 b"
proof -
  have up: "pow2 (a + int n) = pow2 a * 2 ^ n" for a n
  proof (induction n)
    case (Suc n)
    have "pow2 (a + int (Suc n)) = pow2 ((a + int n) + 1)" by (simp add: algebra_simps)
    then show ?case using Suc by (simp only: pow2_Suc) simp
  qed simp
  show ?thesis
  proof (cases "0 \<le> b")
    case True
    then show ?thesis using up [of a "nat b"] by (simp add: pow2_def)
  next
    case False
    then have "pow2 a = pow2 (a + b) * 2 ^ nat (- b)" using up [of "a + b" "nat (- b)"] by simp
    with False show ?thesis by (simp add: pow2_def [of b])
  qed
qed

lemma exponent_correct:
  assumes "0 < x"
  shows "pow2 (exponent x) \<le> x \<and> x < pow2 (exponent x + 1)"
proof -
  obtain n d where nd: "quotient_of x = (n, d)" by fastforce
  have x: "x = of_int n / of_int d" and d: "0 < d"
    using quotient_of_div [OF nd] quotient_of_denom_pos [OF nd] by simp_all
  have n: "0 < n" using assms x d by (simp add: zero_less_divide_iff)
  let ?e = "bitlen n - bitlen d"
  have split: "pow2 (bitlen n) = pow2 (?e + 1) * pow2 (bitlen d - 1)"
    "pow2 (bitlen n - 1) = pow2 (?e - 1) * pow2 (bitlen d)"
    by (simp_all flip: pow2_add)
  note nb = pow2_bitlen [OF n] and db = pow2_bitlen [OF d]
  have "of_int n < pow2 (?e + 1) * of_int d"
    using nb db split(1) by (metis less_le_trans mult_left_mono order_less_imp_le pow2_pos)
  then have hi: "x < pow2 (?e + 1)" using d by (simp add: x divide_less_eq)
  have "pow2 (?e - 1) * of_int d \<le> of_int n"
    using nb db split(2) by (metis le_less_trans less_le_not_le mult_left_mono nle_le order_less_imp_le pow2_pos)
  then have lo: "pow2 (?e - 1) \<le> x" using d by (simp add: x le_divide_eq)
  show ?thesis
    using hi lo by (auto simp: exponent_def nd Let_def)
qed

lemma round_half_even_error: "\<bar>of_int (round_half_even x) - x\<bar> \<le> 1 / 2"
proof -
  have "of_int \<lfloor>x\<rfloor> \<le> x" "x < of_int \<lfloor>x\<rfloor> + 1" by linarith+
  then show ?thesis
    unfolding round_half_even_def Let_def by (simp add: abs_if) linarith
qed

text \<open>In the normal range the relative error of a rounding is at most \<open>2^-53\<close>.\<close>

lemma round_mag_error:
  assumes "pow2 (- 1022) \<le> x"
  shows "\<bar>round_mag x - x\<bar> \<le> x / 2 ^ 53"
proof -
  have x: "0 < x" using assms pow2_pos less_le_trans by blast
  note e = exponent_correct [OF x]
  have mono: "pow2 a \<le> pow2 b" if "a \<le> b" for a b
  proof -
    have "1 \<le> pow2 (b - a)" using that by (simp add: pow2_def)
    then have "pow2 a * 1 \<le> pow2 a * pow2 (b - a)" by (intro mult_left_mono) (simp_all add: less_imp_le)
    then show ?thesis by (simp flip: pow2_add)
  qed
  have "- 1022 \<le> exponent x"
  proof (rule ccontr)
    assume "\<not> - 1022 \<le> exponent x"
    then have "pow2 (exponent x + 1) \<le> pow2 (- 1022)" by (intro mono) simp
    then show False using e assms by simp
  qed
  then have max: "max (exponent x - 52) (- 1074) = exponent x - 52" by simp
  let ?q = "pow2 (exponent x - 52)"
  have q: "?q * 2 ^ 52 \<le> x"
  proof -
    have "?q * pow2 52 = pow2 (exponent x)" by (simp flip: pow2_add)
    moreover have "pow2 52 = 2 ^ 52" by (simp add: pow2_def)
    ultimately show ?thesis using e by simp
  qed
  have "round_mag x - x = (of_int (round_half_even (x / ?q)) - x / ?q) * ?q"
    using max by (simp add: round_mag_def Let_def left_diff_distrib less_imp_neq [OF pow2_pos, symmetric])
  then have "\<bar>round_mag x - x\<bar> = \<bar>of_int (round_half_even (x / ?q)) - x / ?q\<bar> * ?q"
    by (simp add: abs_mult abs_of_pos)
  also have "\<dots> \<le> 1 / 2 * ?q"
    by (intro mult_right_mono round_half_even_error) (simp add: less_imp_le)
  also have "\<dots> \<le> x / 2 ^ 53" using q by simp
  finally show ?thesis .
qed

lemma pow2_mono: "a \<le> b \<Longrightarrow> pow2 a \<le> pow2 b"
proof -
  assume "a \<le> b"
  then have "1 \<le> pow2 (b - a)" by (simp add: pow2_def)
  then have "pow2 a * 1 \<le> pow2 a * pow2 (b - a)" by (intro mult_left_mono) (simp_all add: less_imp_le)
  then show ?thesis by (simp flip: pow2_add)
qed

lemma round_half_even_int [simp]: "round_half_even (of_int n) = n"
  by (simp add: round_half_even_def)

text \<open>Integers below \<open>2^53\<close> are exact.\<close>

lemma round_mag_int: "0 < n \<Longrightarrow> n < 2 ^ 53 \<Longrightarrow> round_mag (of_int n) = of_int n"
proof -
  assume n: "0 < n" "n < 2 ^ 53"
  let ?x = "of_int n :: rat"
  have x: "1 \<le> ?x" "?x < 2 ^ 53" using n of_int_less_iff [of n "2 ^ 53", where 'a = rat] by simp_all
  note e = exponent_correct [of ?x]
  have lo: "0 \<le> exponent ?x"
  proof (rule ccontr)
    assume "\<not> 0 \<le> exponent ?x"
    then have "pow2 (exponent ?x + 1) \<le> pow2 0" by (intro pow2_mono) simp
    then show False using e x by (simp add: pow2_def [of 0])
  qed
  have hi: "exponent ?x \<le> 52"
  proof (rule ccontr)
    assume "\<not> exponent ?x \<le> 52"
    then have "pow2 53 \<le> pow2 (exponent ?x)" by (intro pow2_mono) simp
    then show False using e x by (simp add: pow2_def [of 53])
  qed
  let ?k = "nat (52 - exponent ?x)"
  have q: "pow2 (max (exponent ?x - 52) (- 1074)) = 1 / 2 ^ ?k"
    using lo hi by (auto simp: pow2_def max_def)
  have "?x / (1 / 2 ^ ?k) = of_int (n * 2 ^ ?k)" by simp
  then have "round_half_even (?x / (1 / 2 ^ ?k)) = n * 2 ^ ?k" by (simp only: round_half_even_int)
  then show ?thesis by (simp add: round_mag_def q)
qed

lemma f64_round_int: "\<bar>n\<bar> < 2 ^ 53 \<Longrightarrow> f64_round (of_int n) = Fin (of_int n)"
proof -
  assume n: "\<bar>n\<bar> < 2 ^ 53"
  show ?thesis
  proof (cases "n = 0")
    case False
    with n have m: "round_mag \<bar>of_int n\<bar> = \<bar>of_int n\<bar>"
      using round_mag_int [of "\<bar>n\<bar>"] by simp
    have "\<bar>of_int n\<bar> < (2 ^ 53 :: rat)" using n of_int_less_iff [of "\<bar>n\<bar>" "2 ^ 53", where 'a = rat] by simp
    also have "(2 ^ 53 :: rat) \<le> pow2 1024" using pow2_mono [of 53 1024] by (simp add: pow2_def [of 53])
    finally show ?thesis using False by (simp add: f64_round_def Let_def m)
  qed (simp add: f64_round_def)
qed

text \<open>One rounding in the normal range.\<close>

lemma f64_round_error:
  assumes "pow2 (- 1022) \<le> \<bar>x\<bar> \<or> x = 0" "\<bar>x\<bar> \<le> 2 ^ 200"
  shows "\<exists>y. f64_round x = Fin y \<and> \<bar>y - x\<bar> \<le> \<bar>x\<bar> / 2 ^ 53"
proof (cases "x = 0")
  case False
  then have err: "\<bar>round_mag \<bar>x\<bar> - \<bar>x\<bar>\<bar> \<le> \<bar>x\<bar> / 2 ^ 53" using assms(1) by (intro round_mag_error) simp
  then have "round_mag \<bar>x\<bar> \<le> \<bar>x\<bar> + \<bar>x\<bar> / 2 ^ 53" by linarith
  also have "\<dots> \<le> 2 ^ 201" using assms(2) by (simp add: field_simps)
  also have "(2 ^ 201 :: rat) < pow2 1024" by (simp add: pow2_def)
  finally have "\<not> pow2 1024 \<le> round_mag \<bar>x\<bar>" by simp
  then have "f64_round x = Fin (if x < 0 then - round_mag \<bar>x\<bar> else round_mag \<bar>x\<bar>)"
    using False by (simp add: f64_round_def Let_def)
  moreover have "\<bar>(if x < 0 then - round_mag \<bar>x\<bar> else round_mag \<bar>x\<bar>) - x\<bar> = \<bar>round_mag \<bar>x\<bar> - \<bar>x\<bar>\<bar>"
    using abs_minus_cancel [of "round_mag (- x) + x"] by (cases "x < 0") (simp_all del: abs_minus_cancel)
  ultimately show ?thesis using err by simp
qed (simp add: f64_round_def)

lemma rat_trunc_error: "\<bar>of_int (rat_trunc x) - x\<bar> < 1"
  unfolding rat_trunc_def by (simp add: abs_less_iff) linarith

lemma f64_to_i64_small:
  assumes "\<bar>x\<bar> \<le> 2 ^ 62"
  shows "\<exists>i. f64_to_i64 (Fin x) = Some i \<and> \<bar>of_int (sint i) - x\<bar> < 1"
proof -
  have "\<bar>of_int (rat_trunc x) - x\<bar> < 1" by (rule rat_trunc_error)
  then have "\<bar>of_int (rat_trunc x)\<bar> < (2 ^ 62 + 1 :: rat)" using assms by linarith
  then have t: "\<bar>rat_trunc x\<bar> < 2 ^ 62 + 1"
    using of_int_less_iff [of "\<bar>rat_trunc x\<bar>" "2 ^ 62 + 1", where 'a = rat] by simp
  have r: "rat_trunc x < 2 ^ 63" "- (2 ^ 63) \<le> rat_trunc x"
    using t by (simp_all add: abs_less_iff)
  then have "sint (word_of_int (rat_trunc x) :: i64) = rat_trunc x"
    by (intro sint_word_of_int_small) simp
  then show ?thesis using r rat_trunc_error [of x] by (simp add: Let_def del: of_int_sint)
qed

end
