(* ===== verification/Timeline.thy ===== *)
theory Timeline
  imports Discovery Float64
begin

text \<open>
  \<open>link_set_local_tempo\<close> and \<open>link_set_play\<close> of \<^verbatim>\<open>firmware/link.c\<close>, with the conversion of a time
  to a beat position they share with \<^verbatim>\<open>firmware/link_audio.c\<close>. A result \<open>None\<close> is a conversion
  from \<open>double\<close> that C leaves undefined; sums of \<open>int64_t\<close> wrap.
\<close>

section \<open>Operations\<close>

text \<open>\<open>(int64_t)(((double)(t - t0) * 1e6) / (double)us_per_beat)\<close>\<close>

definition beats_at :: "i64 \<Rightarrow> i64 \<Rightarrow> i64 \<Rightarrow> i64 option" where
  "beats_at t t0 us_per_beat =
     f64_to_i64 (f64_div (f64_mul (f64_of_i64 (t - t0)) (Fin 1000000)) (f64_of_i64 us_per_beat))"

text \<open>\<open>(int64_t)(60.0 * 1e6 / bpm + 0.5)\<close>\<close>

definition us_per_beat_of :: "f64 \<Rightarrow> i64 option" where
  "us_per_beat_of bpm = f64_to_i64 (f64_add (f64_div (f64_mul (Fin 60) (Fin 1000000)) bpm) (Fin (1 / 2)))"

definition link_set_local_tempo :: "f64 \<Rightarrow> 'a link_st_scheme \<Rightarrow> 'a link_st_scheme option" where
  "link_set_local_tempo bpm s = do {
     us_per_beat \<leftarrow> us_per_beat_of bpm;
     let (now_g, s) = ghost_time_us s;
     let tml = link_self_timeline s;
     let old_us = tempo_us_per_beat tml;
     let old_t0 = time_origin_us_ghost tml;
     let old_b0 = beat_origin_microbeats tml;
     b \<leftarrow> beats_at now_g old_t0 old_us;
     let cur_beats = old_b0 + b;
     let s = s\<lparr>link_self_timeline := \<lparr>tempo_us_per_beat = us_per_beat, beat_origin_microbeats = cur_beats,
                 time_origin_us_ghost = now_g\<rparr>\<rparr>;
     let s = beat_pulse_load_timeline (link_self_timeline s) (link_self_startstop s) s;
     Some (link_broadcast_alive_now s)
   }"

definition link_set_play :: "bool \<Rightarrow> 'a link_st_scheme \<Rightarrow> 'a link_st_scheme option" where
  "link_set_play play s = do {
     let (now_g, s) = ghost_time_us s;
     let us_per_beat = tempo_us_per_beat (link_self_timeline s);
     b \<leftarrow> beats_at now_g (time_origin_us_ghost (link_self_timeline s)) us_per_beat;
     let cur_beats = beat_origin_microbeats (link_self_timeline s) + b;
     let s = s\<lparr>link_self_startstop := \<lparr>is_playing = (if play then 1 else 0), beats_microbeats = cur_beats,
                 timestamp_us_ghost = now_g\<rparr>\<rparr>;
     let s = beat_pulse_load_timeline (link_self_timeline s) (link_self_startstop s) s;
     Some (link_broadcast_alive_now s)
   }"

section \<open>What the setters write\<close>

text \<open>The common end of the two setters: new timeline and start/stop state loaded and announced.\<close>

definition retimed :: "link_timeline \<Rightarrow> link_startstop \<Rightarrow> nat \<Rightarrow> 'a link_st_scheme \<Rightarrow> 'a link_st_scheme" where
  "retimed tml ss n s =
     link_broadcast_alive_now (beat_pulse_load_timeline tml ss
       (s\<lparr>n_reads := n, link_self_timeline := tml, link_self_startstop := ss\<rparr>))"

lemma link_set_local_tempo_retimed:
  assumes "us_per_beat_of bpm = Some r"
    "beats_at (ghost_now s) (time_origin_us_ghost (link_self_timeline s)) (tempo_us_per_beat (link_self_timeline s)) = Some b"
  shows "link_set_local_tempo bpm s = Some (retimed
    \<lparr>tempo_us_per_beat = r, beat_origin_microbeats = beat_origin_microbeats (link_self_timeline s) + b,
     time_origin_us_ghost = ghost_now s\<rparr> (link_self_startstop s) (n_reads s + 3) s)"
  using assms by (simp add: link_set_local_tempo_def ghost_time_us_eq Let_def retimed_def)

lemma link_set_play_retimed:
  assumes "beats_at (ghost_now s) (time_origin_us_ghost (link_self_timeline s)) (tempo_us_per_beat (link_self_timeline s)) = Some b"
  shows "link_set_play p s = Some (retimed (link_self_timeline s)
    \<lparr>is_playing = (if p then 1 else 0), beats_microbeats = beat_origin_microbeats (link_self_timeline s) + b,
     timestamp_us_ghost = ghost_now s\<rparr> (n_reads s + 3) s)"
  using assms by (simp add: link_set_play_def ghost_time_us_eq Let_def retimed_def)

lemma link_set_local_tempo_SomeD:
  assumes "link_set_local_tempo bpm s = Some t"
  shows "\<exists>tml ss n. t = retimed tml ss n s"
proof -
  obtain r b where "us_per_beat_of bpm = Some r"
    "beats_at (ghost_now s) (time_origin_us_ghost (link_self_timeline s)) (tempo_us_per_beat (link_self_timeline s)) = Some b"
    using assms by (auto simp: link_set_local_tempo_def bind_eq_Some_conv ghost_time_us_eq Let_def)
  from link_set_local_tempo_retimed [OF this] assms show ?thesis by auto
qed

lemma link_set_play_SomeD:
  assumes "link_set_play p s = Some t"
  shows "\<exists>tml ss n. t = retimed tml ss n s"
proof -
  obtain b where
    "beats_at (ghost_now s) (time_origin_us_ghost (link_self_timeline s)) (tempo_us_per_beat (link_self_timeline s)) = Some b"
    using assms by (auto simp: link_set_play_def bind_eq_Some_conv ghost_time_us_eq Let_def)
  from link_set_play_retimed [OF this] assms show ?thesis by auto
qed

lemma load_timeline_link [simp]:
  "link_self_timeline (beat_pulse_load_timeline tml ss s) = link_self_timeline s"
  "link_self_startstop (beat_pulse_load_timeline tml ss s) = link_self_startstop s"
  "n_reads (beat_pulse_load_timeline tml ss s) = n_reads s" "host_clk (beat_pulse_load_timeline tml ss s) = host_clk s"
  by (simp_all add: beat_pulse_load_timeline_def Let_def flags_write_def)

lemma broadcast_now_fields [simp]:
  "link_self_timeline (link_broadcast_alive_now s) = link_self_timeline s"
  "link_self_startstop (link_broadcast_alive_now s) = link_self_startstop s"
  "s_state_dirty (link_broadcast_alive_now s)"
  by (simp_all add: link_broadcast_alive_now_def host_time_us_eq)

lemma retimed_fields [simp]:
  "link_self_timeline (retimed tml ss n s) = tml" "link_self_startstop (retimed tml ss n s) = ss"
  "s_state_dirty (retimed tml ss n s)" "run_bit (retimed tml ss n s) \<longleftrightarrow> is_playing ss \<noteq> 0"
  "soft_resets (retimed tml ss n s) = Suc (soft_resets s)"
  by (simp_all add: retimed_def)
    (simp_all add: run_bit_def link_broadcast_alive_now_def host_time_us_eq beat_pulse_load_timeline_def Let_def
      flags_write_def flag_bits)

section \<open>The beat position\<close>

text \<open>
  Between the two roundings and the truncation the position is off by less than a microbeat and
  \<open>2^-51\<close> of itself.
\<close>

lemma two_roundings:
  fixes x y z b :: rat
  assumes "\<bar>y - x\<bar> \<le> \<bar>x\<bar> / 2 ^ 53" "\<bar>z - y / b\<bar> \<le> \<bar>y / b\<bar> / 2 ^ 53" "0 < b"
  shows "\<bar>z - x / b\<bar> \<le> \<bar>x / b\<bar> / 2 ^ 51"
proof -
  have "y / b - x / b = (y - x) / b" by (simp add: diff_divide_distrib)
  then have e1: "\<bar>y / b - x / b\<bar> \<le> \<bar>x / b\<bar> / 2 ^ 53"
    using assms(1,3) by (simp add: abs_divide divide_right_mono field_simps)
  define q where "q = \<bar>x / b\<bar> / 2 ^ 53"
  have q: "0 \<le> q" "\<bar>x / b\<bar> = 2 ^ 53 * q" "\<bar>x / b\<bar> / 2 ^ 51 = 4 * q" by (simp_all add: q_def)
  have "\<bar>y / b\<bar> \<le> \<bar>x / b\<bar> + q" using e1 unfolding q_def by linarith
  then have "\<bar>y / b\<bar> / 2 ^ 53 \<le> (2 ^ 53 * q + q) / 2 ^ 53" unfolding q(2) by (simp add: divide_right_mono)
  also have "\<dots> \<le> 2 * q" using q(1) by (simp add: field_simps)
  finally have "\<bar>z - y / b\<bar> \<le> 2 * q" using assms(2) by linarith
  with e1 show ?thesis unfolding q(3) q_def [symmetric] by linarith
qed

lemma rat_pow2_numeral: "pow2 (- 1022) \<le> 1 / 2 ^ 53"
  using pow2_mono [of "- 1022" "- 53"] by (simp add: pow2_def [of "- 53"])

lemma beats_at_accurate:
  assumes "\<bar>sint (t - t0)\<bar> < 2 ^ 53" "0 < sint us" "sint us < 2 ^ 53"
    "\<bar>sint (t - t0)\<bar> * 1000000 \<le> 2 ^ 60 * sint us"
  defines "x \<equiv> of_int (sint (t - t0) * 1000000) / (of_int (sint us) :: rat)"
  shows "\<exists>b. beats_at t t0 us = Some b \<and> \<bar>of_int (sint b) - x\<bar> < 1 + \<bar>x\<bar> / 2 ^ 51"
proof -
  let ?d = "of_int (sint (t - t0)) :: rat" and ?b = "of_int (sint us) :: rat"
  have b: "0 < ?b" "?b < 2 ^ 53" "1 \<le> ?b"
    using assms(2,3) of_int_less_iff [of "sint us" "2 ^ 53", where 'a = rat] by (simp_all del: of_int_sint)
  have d: "\<bar>?d\<bar> < 2 ^ 53"
    using assms(1) of_int_less_iff [of "\<bar>sint (t - t0)\<bar>" "2 ^ 53", where 'a = rat] by (simp del: of_int_sint)
  have nz: "1 \<le> \<bar>?d\<bar>" if "?d \<noteq> 0"
  proof -
    have "1 \<le> \<bar>sint (t - t0)\<bar>" using that by (cases "sint (t - t0) = 0") auto
    then show ?thesis using of_int_le_iff [of 1 "\<bar>sint (t - t0)\<bar>", where 'a = rat] by (simp del: of_int_sint)
  qed
  have conv: "f64_of_i64 (t - t0) = Fin ?d" "f64_of_i64 us = Fin ?b"
    unfolding f64_of_i64_def using assms(1-3) by (auto intro!: f64_round_int simp del: of_int_sint)
  have "pow2 (- 1022) \<le> 1" using pow2_mono [of "- 1022" 0] by (simp add: pow2_def [of 0])
  then have "pow2 (- 1022) \<le> \<bar>?d * 1000000\<bar> \<or> ?d * 1000000 = 0"
    using nz by (cases "?d = 0") (auto simp: abs_mult)
  moreover have "\<bar>?d * 1000000\<bar> \<le> 2 ^ 200" using d by (simp add: abs_mult)
  ultimately obtain y where y: "f64_round (?d * 1000000) = Fin y" "\<bar>y - ?d * 1000000\<bar> \<le> \<bar>?d * 1000000\<bar> / 2 ^ 53"
    using f64_round_error by blast
  let ?x = "?d * 1000000"
  have half: "\<bar>?x\<bar> / 2 ^ 53 \<le> \<bar>?x\<bar> / 2" by (intro divide_left_mono) simp_all
  have x_le: "\<bar>?x\<bar> \<le> 2 ^ 60 * ?b"
    using assms(4) of_int_le_iff [of "\<bar>sint (t - t0)\<bar> * 1000000" "2 ^ 60 * sint us", where 'a = rat]
    by (simp add: abs_mult del: of_int_sint)
  have y_le: "\<bar>y\<bar> \<le> 2 * \<bar>?x\<bar>" and y_ge: "\<bar>?x\<bar> \<le> 2 * \<bar>y\<bar>" using y(2) half by linarith+
  have "\<bar>y\<bar> \<le> 2 ^ 61 * ?b" using y_le x_le by simp
  then have big: "\<bar>y / ?b\<bar> \<le> 2 ^ 61" using b(1) by (simp add: abs_divide divide_le_eq)
  have "pow2 (- 1022) \<le> \<bar>y / ?b\<bar> \<or> y / ?b = 0"
  proof (cases "?d = 0")
    case False
    then have "1 \<le> \<bar>y\<bar>" using y_ge nz by (simp add: abs_mult)
    then have "1 / 2 ^ 53 \<le> \<bar>y\<bar> / ?b" using b by (intro frac_le) simp_all
    then have "pow2 (- 1022) \<le> \<bar>y\<bar> / ?b" using rat_pow2_numeral by linarith
    then show ?thesis using b(1) by (simp add: abs_divide)
  qed (use y_le in simp)
  then obtain z where z: "f64_round (y / ?b) = Fin z" "\<bar>z - y / ?b\<bar> \<le> \<bar>y / ?b\<bar> / 2 ^ 53"
    using f64_round_error [of "y / ?b"] big by auto
  have err: "\<bar>z - x\<bar> \<le> \<bar>x\<bar> / 2 ^ 51"
    using two_roundings [OF y(2) z(2) b(1)] by (simp add: x_def)
  have "\<bar>x\<bar> \<le> 2 ^ 60" using x_le b(1) by (simp add: x_def abs_divide divide_le_eq)
  moreover have "\<bar>x\<bar> / 2 ^ 51 \<le> \<bar>x\<bar> / 2" by (intro divide_left_mono) simp_all
  ultimately have "\<bar>z\<bar> \<le> 2 ^ 60 + 2 ^ 60 / 2" using err by linarith
  then have "\<bar>z\<bar> \<le> 2 ^ 62" by simp
  then obtain i where i: "f64_to_i64 (Fin z) = Some i" "\<bar>of_int (sint i) - z\<bar> < 1"
    using f64_to_i64_small by blast
  have "beats_at t t0 us = Some i"
    using b(1) by (simp add: beats_at_def conv y(1) z(1) i(1) del: of_int_sint f64_to_i64.simps)
  moreover have "\<bar>of_int (sint i) - x\<bar> < 1 + \<bar>x\<bar> / 2 ^ 51" using i(2) err by linarith
  ultimately show ?thesis by blast
qed

section \<open>The tempo\<close>

lemma us_per_beat_accurate:
  assumes "20 \<le> x" "x \<le> 999"
  shows "\<exists>r. us_per_beat_of (Fin x) = Some r \<and> \<bar>of_int (sint r) - 60000000 / x\<bar> < 1 / 2 + 1 / 1000000"
proof -
  define q where "q = 60000000 / x"
  have q: "60000 \<le> q" "q \<le> 3000000"
    using assms by (simp_all add: q_def le_divide_eq divide_le_eq)
  have min: "pow2 (- 1022) \<le> 1" using pow2_mono [of "- 1022" 0] by (simp add: pow2_def [of 0])
  have mul: "f64_mul (Fin 60) (Fin 1000000) = Fin 60000000"
    using f64_round_int [of 60000000] by simp
  have "pow2 (- 1022) \<le> \<bar>q\<bar>" using min q by linarith
  then obtain y where y: "f64_round q = Fin y" "\<bar>y - q\<bar> \<le> \<bar>q\<bar> / 2 ^ 53"
    using f64_round_error [of q] q by auto
  have "\<bar>q\<bar> / 2 ^ 53 \<le> 3000000 / 2 ^ 53" using q by (intro divide_right_mono) simp_all
  also have "\<dots> < (1 / 10000000 :: rat)" by simp
  finally have ye: "\<bar>y - q\<bar> < 1 / 10000000" using y(2) by linarith
  have "pow2 (- 1022) \<le> \<bar>y + 1 / 2\<bar>" using min q ye by linarith
  moreover have yr: "\<bar>y + 1 / 2\<bar> \<le> 3000001" using q ye by linarith
  moreover have "3000001 \<le> (2 ^ 200 :: rat)" by simp
  ultimately obtain z where z: "f64_round (y + 1 / 2) = Fin z" "\<bar>z - (y + 1 / 2)\<bar> \<le> \<bar>y + 1 / 2\<bar> / 2 ^ 53"
    using f64_round_error [of "y + 1 / 2"] order_trans by blast
  have "\<bar>y + 1 / 2\<bar> / 2 ^ 53 \<le> 3000001 / 2 ^ 53" using yr by (intro divide_right_mono) simp_all
  also have "\<dots> < (1 / 10000000 :: rat)" by simp
  finally have ze: "\<bar>z - (q + 1 / 2)\<bar> < 2 / 10000000" using z(2) ye by linarith
  then have zpos: "0 \<le> z" "z < 3000002" using q by linarith+
  have fl: "of_int \<lfloor>z\<rfloor> \<le> z" "z < of_int \<lfloor>z\<rfloor> + 1" "0 \<le> \<lfloor>z\<rfloor>" "\<lfloor>z\<rfloor> < 3000002"
    using zpos floor_correct [of z] by (simp_all add: floor_less_iff)
  then have s: "sint (word_of_int \<lfloor>z\<rfloor> :: i64) = \<lfloor>z\<rfloor>" by (intro sint_word_of_int_small) simp
  have "us_per_beat_of (Fin x) = Some (word_of_int \<lfloor>z\<rfloor>)"
    using assms(1) fl zpos by (simp add: us_per_beat_of_def mul y(1) [unfolded q_def] z(1) rat_trunc_def Let_def del: f64_mul.simps)
  moreover have "\<bar>of_int \<lfloor>z\<rfloor> - q\<bar> < 1 / 2 + 1 / 1000000" using fl ze by linarith
  ultimately show ?thesis using s by (simp add: q_def del: of_int_sint)
qed

text \<open>The position in microbeats of a timeline at a time, as an exact number.\<close>

definition beat_pos :: "link_timeline \<Rightarrow> i64 \<Rightarrow> rat" where
  "beat_pos tml t = of_int (sint (beat_origin_microbeats tml)) +
     of_int (sint (t - time_origin_us_ghost tml) * 1000000) / of_int (sint (tempo_us_per_beat tml))"

text \<open>Timelines of a session in use: at least a microsecond per beat, and less than 250 years old.\<close>

definition usable_timeline :: "link_timeline \<Rightarrow> i64 \<Rightarrow> bool" where
  "usable_timeline tml t \<longleftrightarrow>
     \<bar>sint (t - time_origin_us_ghost tml)\<bar> < 2 ^ 53 \<and> 0 < sint (tempo_us_per_beat tml) \<and>
     sint (tempo_us_per_beat tml) < 2 ^ 53 \<and>
     \<bar>sint (t - time_origin_us_ghost tml)\<bar> * 1000000 \<le> 2 ^ 60 * sint (tempo_us_per_beat tml) \<and>
     \<bar>sint (beat_origin_microbeats tml)\<bar> \<le> 2 ^ 61"

lemma current_beat:
  assumes "usable_timeline tml t"
  shows "\<exists>b. beats_at t (time_origin_us_ghost tml) (tempo_us_per_beat tml) = Some b \<and>
    \<bar>of_int (sint (beat_origin_microbeats tml + b)) - beat_pos tml t\<bar>
      < 1 + \<bar>beat_pos tml t - of_int (sint (beat_origin_microbeats tml))\<bar> / 2 ^ 51"
proof -
  let ?o = "beat_origin_microbeats tml" and ?u = "tempo_us_per_beat tml"
  let ?d = "sint (t - time_origin_us_ghost tml)"
  define x where "x = of_int (?d * 1000000) / (of_int (sint ?u) :: rat)"
  have u: "0 < sint ?u" "\<bar>?d\<bar> * 1000000 \<le> 2 ^ 60 * sint ?u" using assms by (simp_all add: usable_timeline_def)
  obtain b where b: "beats_at t (time_origin_us_ghost tml) ?u = Some b" "\<bar>of_int (sint b) - x\<bar> < 1 + \<bar>x\<bar> / 2 ^ 51"
    using beats_at_accurate [of t "time_origin_us_ghost tml" ?u] assms unfolding usable_timeline_def x_def by blast
  have "\<bar>of_int (?d * 1000000)\<bar> \<le> (of_int (2 ^ 60 * sint ?u) :: rat)"
    using u(2) of_int_le_iff [of "\<bar>?d\<bar> * 1000000" "2 ^ 60 * sint ?u", where 'a = rat] by (simp add: abs_mult del: of_int_sint)
  then have "\<bar>x\<bar> \<le> 2 ^ 60" using u(1) by (simp add: x_def abs_divide divide_le_eq del: of_int_sint)
  moreover have "\<bar>x\<bar> / 2 ^ 51 \<le> \<bar>x\<bar> / 2" by (intro divide_left_mono) simp_all
  ultimately have "\<bar>of_int (sint b)\<bar> < (2 ^ 60 + 1 + 2 ^ 60 / 2 :: rat)" using b(2) by linarith
  then have "\<bar>of_int (sint b)\<bar> < (2 ^ 61 + 1 :: rat)" by simp
  then have "\<bar>sint b\<bar> < 2 ^ 61 + 1"
    using of_int_less_iff [of "\<bar>sint b\<bar>" "2 ^ 61 + 1", where 'a = rat] by (simp del: of_int_sint)
  then have "sint (?o + b) = sint ?o + sint b"
    using assms by (intro sint_add_small) (auto simp: usable_timeline_def)
  then show ?thesis
    using b by (simp add: beat_pos_def x_def del: of_int_sint)
qed

lemma set_tempo_usable:
  assumes "us_per_beat_of bpm = Some r" "usable_timeline (link_self_timeline s) (ghost_now s)"
  shows "\<exists>q. link_set_local_tempo bpm s = Some (retimed
      \<lparr>tempo_us_per_beat = r, beat_origin_microbeats = q, time_origin_us_ghost = ghost_now s\<rparr>
      (link_self_startstop s) (n_reads s + 3) s) \<and>
    \<bar>of_int (sint q) - beat_pos (link_self_timeline s) (ghost_now s)\<bar>
      < 1 + \<bar>beat_pos (link_self_timeline s) (ghost_now s) -
             of_int (sint (beat_origin_microbeats (link_self_timeline s)))\<bar> / 2 ^ 51"
  using current_beat [OF assms(2)] link_set_local_tempo_retimed [OF assms(1)] by blast

text \<open>
  C24: Setting a tempo between 20 and 999 beats per minute gives the nearest whole number of microseconds
  per beat, re-anchors the timeline at the current time and keeps the beat position there: it is that
  of the old timeline, up to one microbeat and \<open>2^-51\<close> of the beats elapsed. The change is announced.
\<close>

theorem set_local_tempo_keeps_phase:
  assumes "20 \<le> x" "x \<le> 999" "usable_timeline (link_self_timeline s) (ghost_now s)"
  shows "\<exists>t. link_set_local_tempo (Fin x) s = Some t \<and>
    \<bar>of_int (sint (tempo_us_per_beat (link_self_timeline t))) - 60000000 / x\<bar> < 1 / 2 + 1 / 1000000 \<and>
    time_origin_us_ghost (link_self_timeline t) = ghost_now s \<and>
    \<bar>beat_pos (link_self_timeline t) (ghost_now s) - beat_pos (link_self_timeline s) (ghost_now s)\<bar>
      < 1 + \<bar>beat_pos (link_self_timeline s) (ghost_now s) -
             of_int (sint (beat_origin_microbeats (link_self_timeline s)))\<bar> / 2 ^ 51 \<and>
    s_state_dirty t"
proof -
  let ?tl = "link_self_timeline s" and ?now = "ghost_now s"
  obtain r where r: "us_per_beat_of (Fin x) = Some r" "\<bar>of_int (sint r) - 60000000 / x\<bar> < 1 / 2 + 1 / 1000000"
    using us_per_beat_accurate [OF assms(1,2)] by blast
  obtain b where b: "beats_at ?now (time_origin_us_ghost ?tl) (tempo_us_per_beat ?tl) = Some b"
    "\<bar>of_int (sint (beat_origin_microbeats ?tl + b)) - beat_pos ?tl ?now\<bar>
      < 1 + \<bar>beat_pos ?tl ?now - of_int (sint (beat_origin_microbeats ?tl))\<bar> / 2 ^ 51"
    using current_beat [OF assms(3)] by blast
  let ?new = "\<lparr>tempo_us_per_beat = r, beat_origin_microbeats = beat_origin_microbeats ?tl + b, time_origin_us_ghost = ?now\<rparr>"
  have "beat_pos ?new ?now = of_int (sint (beat_origin_microbeats ?tl + b))"
    by (simp add: beat_pos_def)
  then show ?thesis using r(2) b(2) link_set_local_tempo_retimed [OF r(1) b(1)] by simp
qed

text \<open>
  Starting or stopping pins the change to the current beat, to the same accuracy, sets the playing
  state and the run bit of the pulse generator, and leaves the timeline alone.
\<close>

theorem set_play_pins_beat:
  assumes "usable_timeline (link_self_timeline s) (ghost_now s)"
  shows "\<exists>t. link_set_play p s = Some t \<and> link_self_timeline t = link_self_timeline s \<and>
    is_playing (link_self_startstop t) = (if p then 1 else 0) \<and> (run_bit t \<longleftrightarrow> p) \<and>
    timestamp_us_ghost (link_self_startstop t) = ghost_now s \<and>
    \<bar>of_int (sint (beats_microbeats (link_self_startstop t))) - beat_pos (link_self_timeline s) (ghost_now s)\<bar>
      < 1 + \<bar>beat_pos (link_self_timeline s) (ghost_now s) -
             of_int (sint (beat_origin_microbeats (link_self_timeline s)))\<bar> / 2 ^ 51"
proof -
  let ?tl = "link_self_timeline s" and ?now = "ghost_now s"
  obtain b where b: "beats_at ?now (time_origin_us_ghost ?tl) (tempo_us_per_beat ?tl) = Some b"
    "\<bar>of_int (sint (beat_origin_microbeats ?tl + b)) - beat_pos ?tl ?now\<bar>
      < 1 + \<bar>beat_pos ?tl ?now - of_int (sint (beat_origin_microbeats ?tl))\<bar> / 2 ^ 51"
    using current_beat [OF assms] by blast
  then show ?thesis using link_set_play_retimed [OF b(1), of p] by simp
qed

text \<open>
  A timeline with tempo zero, which any peer can announce and a joining node adopts unchecked,
  leaves both setters without a defined result: the beat position is the conversion of an infinity or
  a NaN.
\<close>

theorem zero_tempo_undefined:
  assumes "tempo_us_per_beat (link_self_timeline s) = 0"
  shows "link_set_play p s = None \<and> link_set_local_tempo bpm s = None"
proof -
  have "f64_to_i64 (f64_div x (Fin 0)) = None" for x by (cases x) simp_all
  then have "beats_at t t0 0 = None" for t t0
    by (simp add: beats_at_def f64_of_i64_def f64_round_def)
  then show ?thesis
    by (simp add: link_set_play_def link_set_local_tempo_def ghost_time_us_eq Let_def assms split: bind_splits)
qed

section \<open>Tempo from a measured beat\<close>

text \<open>
  A clock input measures the length of a beat as a whole number of microseconds and converts it to
  beats per minute; the setter converts it back to the same number.
\<close>

definition bpm_of_beat :: "f64 \<Rightarrow> f64" where
  "bpm_of_beat us = f64_div (Fin 60000000) us"

lemma near_product:
  fixes n x y :: rat
  assumes "0 < n" "0 < x" "\<bar>y - x\<bar> \<le> x / 2 ^ 53"
  shows "0 < y" "\<bar>n * x / y - n\<bar> \<le> n / 2 ^ 52"
proof -
  have half: "x / 2 ^ 53 \<le> x / 2" using assms(2) by (intro divide_left_mono) simp_all
  then have y: "x / 2 \<le> y" using assms(3) by linarith
  with assms(2) show ypos: "0 < y" by linarith
  have "n * x / y - n = n * (x - y) / y" using ypos by (simp add: field_simps)
  then have "\<bar>n * x / y - n\<bar> = n * \<bar>y - x\<bar> / y"
    using assms(1) ypos by (simp add: abs_mult abs_divide abs_minus_commute)
  also have "\<dots> \<le> n * (x / 2 ^ 53) / (x / 2)"
    using assms y ypos by (intro frac_le mult_left_mono) simp_all
  also have "\<dots> = n / 2 ^ 52" using assms(2) by simp
  finally show "\<bar>n * x / y - n\<bar> \<le> n / 2 ^ 52" .
qed

lemma near_range:
  fixes a n :: rat
  assumes "\<bar>a - n\<bar> \<le> 3 / 4" "1 \<le> n" "n < 2 ^ 48"
  shows "pow2 (- 1022) \<le> \<bar>a\<bar>" "\<bar>a\<bar> \<le> 2 ^ 200" "a \<le> 2 ^ 49" "\<bar>a\<bar> = a"
proof -
  have a: "1 / 4 \<le> a" "a < 2 ^ 48 + 1" using assms by linarith+
  then show "\<bar>a\<bar> = a" "a \<le> 2 ^ 49" by simp_all
  then show "\<bar>a\<bar> \<le> 2 ^ 200" by simp
  have "pow2 (- 1022) \<le> 1 / 4" using pow2_mono [of "- 1022" "- 2"] by (simp add: pow2_def [of "- 2"])
  then show "pow2 (- 1022) \<le> \<bar>a\<bar>" using a by simp
qed

lemma whole_beat:
  assumes "0 < n" "n < 2 ^ 48"
  shows "us_per_beat_of (bpm_of_beat (Fin (of_int n))) = Some (word_of_int n) \<and>
    f64_less (Fin 0) (bpm_of_beat (Fin (of_int n)))"
proof -
  let ?n = "of_int n :: rat"
  have n: "1 \<le> ?n" "?n < 2 ^ 48" "0 < ?n"
    using assms of_int_less_iff [of n "2 ^ 48", where 'a = rat] by simp_all
  have tiny: "pow2 (- 1022) \<le> 1 / 2 ^ 53" "1 \<le> (2 ^ 200 :: rat)" by (rule rat_pow2_numeral) simp
  define x where "x = 60000000 / ?n"
  have x: "1 / 2 ^ 53 \<le> x" "x \<le> 60000000" "0 < x" "?n * x = 60000000"
  proof -
    show "?n * x = 60000000" "0 < x" using n by (simp_all add: x_def)
    show "1 / 2 ^ 53 \<le> x" unfolding x_def using n by (intro frac_le) simp_all
    show "x \<le> 60000000" using n by (simp add: x_def divide_le_eq)
  qed
  have ax: "\<bar>x\<bar> = x" using x(3) by simp
  have "pow2 (- 1022) \<le> \<bar>x\<bar>" "\<bar>x\<bar> \<le> 2 ^ 200" using x tiny unfolding ax by simp_all
  then obtain y where y: "f64_round x = Fin y" "\<bar>y - x\<bar> \<le> x / 2 ^ 53"
    using f64_round_error [of x] unfolding ax by blast
  define q where "q = 60000000 / y"
  have ypos: "0 < y" and qn: "\<bar>q - ?n\<bar> \<le> ?n / 2 ^ 52"
    using near_product [OF n(3) x(3) y(2)] x(4) by (simp_all add: q_def)
  have n52: "?n / 2 ^ 52 \<le> 1 / 16" using n(2) by (simp add: field_simps)
  then have "\<bar>q - ?n\<bar> \<le> 3 / 4" using qn by linarith
  note q = near_range [OF this n(1,2)]
  obtain z where z: "f64_round q = Fin z" "\<bar>z - q\<bar> \<le> q / 2 ^ 53"
    using f64_round_error [of q] using q unfolding q(4) by blast
  have small: "a / 2 ^ 53 \<le> 1 / 16" if "a \<le> 2 ^ 49" for a :: rat
    using divide_right_mono [OF that, of "2 ^ 53"] by simp
  have zn: "\<bar>z - ?n\<bar> \<le> 1 / 8" using z(2) qn n52 small [OF q(3)] by linarith
  define v where "v = z + 1 / 2"
  have "\<bar>v - ?n\<bar> \<le> 3 / 4" using zn unfolding v_def by linarith
  note v = near_range [OF this n(1,2)]
  obtain w where w: "f64_round v = Fin w" "\<bar>w - v\<bar> \<le> v / 2 ^ 53"
    using f64_round_error [of v] using v unfolding v(4) by blast
  have "\<bar>w - (?n + 1 / 2)\<bar> \<le> 1 / 4" using w(2) zn small [OF v(3)] unfolding v_def by linarith
  then have wn: "?n \<le> w" "w < ?n + 1" by linarith+
  then have fl: "\<lfloor>w\<rfloor> = n" by (simp add: floor_unique)
  have mul: "f64_mul (Fin 60) (Fin 1000000) = Fin 60000000"
    using f64_round_int [of 60000000] by simp
  show ?thesis
    using n wn fl assms ypos
    by (simp add: us_per_beat_of_def bpm_of_beat_def mul y(1) [unfolded x_def] z(1) [unfolded q_def] w(1) [unfolded v_def]
        rat_trunc_def Let_def del: f64_mul.simps)
qed

lemmas whole_beat_exact = conjunct1 [OF whole_beat] and whole_beat_positive = conjunct2 [OF whole_beat]

text \<open>\<open>(double)n\<close> of a \<open>uint32_t\<close>, and the products the clock inputs form are exact.\<close>

definition f64_of_u32 :: "u32 \<Rightarrow> f64" where
  "f64_of_u32 n = f64_round (of_int (uint n))"

lemma f64_of_u32_exact: "f64_of_u32 n = Fin (of_int (uint n))"
proof -
  have "uint n < 2 ^ 32" using uint_lt2p [of n] by simp
  then show ?thesis unfolding f64_of_u32_def by (intro f64_round_int) simp
qed

lemma clock_beat:
  assumes "0 < uint p" "0 < k" "k < 2 ^ 16"
  shows "us_per_beat_of (bpm_of_beat (f64_mul (f64_of_u32 p) (Fin (of_int k)))) = Some (word_of_int (uint p * k))"
    "f64_less (Fin 0) (bpm_of_beat (f64_mul (f64_of_u32 p) (Fin (of_int k))))"
proof -
  have "uint p < 2 ^ 32" using uint_lt2p [of p] by simp
  then have "uint p * k < 2 ^ 32 * 2 ^ 16" using assms by (intro mult_strict_mono) simp_all
  then have n: "0 < uint p * k" "uint p * k < 2 ^ 48" using assms by simp_all
  have "f64_mul (f64_of_u32 p) (Fin (of_int k)) = f64_round (of_int (uint p * k))" by (simp add: f64_of_u32_exact)
  also have "\<dots> = Fin (of_int (uint p * k))" using n by (intro f64_round_int) simp
  finally have m: "f64_mul (f64_of_u32 p) (Fin (of_int k)) = Fin (of_int (uint p * k))" .
  show "us_per_beat_of (bpm_of_beat (f64_mul (f64_of_u32 p) (Fin (of_int k)))) = Some (word_of_int (uint p * k))"
    unfolding m using n by (rule whole_beat_exact)
  show "f64_less (Fin 0) (bpm_of_beat (f64_mul (f64_of_u32 p) (Fin (of_int k))))"
    unfolding m using n whole_beat_positive by blast
qed

end
