(* ===== verification/Audio_State.thy ===== *)
theory Audio_State
  imports Tdm Timeline
begin

text \<open>
  \<^verbatim>\<open>firmware/link_audio.h\<close> and the tables of \<^verbatim>\<open>firmware/link_audio.c\<close>: the channels the
  node publishes with their subscribers, the catalogue of remote channels, and the subscriptions
  with their jitter rings, with the operations that work on one entry only.

  A \<open>char name[32]\<close> is the list of its 32 bytes. Arrays indexed by a count are kept at their full
  length beside the count.
\<close>

unbundle bit_operations_syntax

definition LINK_AUDIO_NAME_MAX :: nat where "LINK_AUDIO_NAME_MAX = 32"
definition LINK_AUDIO_JBUF_LEN :: nat where "LINK_AUDIO_JBUF_LEN = 1024"
definition LINK_AUDIO_MAX_SUB_PER :: nat where "LINK_AUDIO_MAX_SUB_PER = 8"
definition LINK_AUDIO_MAX_REMOTE :: nat where "LINK_AUDIO_MAX_REMOTE = 64"
definition MAX_LOCAL_CHANNELS :: nat where
  "MAX_LOCAL_CHANNELS = LINK_NUM_TDM_PORTS * LINK_TDM_CHANNELS_PER_PORT"
definition AUDIO_FRAMES_PER_PKT :: nat where "AUDIO_FRAMES_PER_PKT = 64"
definition AUDIO_REQUEST_TTL_MS :: nat where "AUDIO_REQUEST_TTL_MS = 5000"
definition LINK_MAX_MSG_AUDIO :: nat where "LINK_MAX_MSG_AUDIO = 1200"

lemmas audio_consts =
  LINK_AUDIO_NAME_MAX_def LINK_AUDIO_JBUF_LEN_def LINK_AUDIO_MAX_SUB_PER_def LINK_AUDIO_MAX_REMOTE_def
  MAX_LOCAL_CHANNELS_def AUDIO_FRAMES_PER_PKT_def AUDIO_REQUEST_TTL_MS_def LINK_MAX_MSG_AUDIO_def

definition KEY_PI :: u32 where "KEY_PI = 0x5F5F7069"
definition KEY_AUCA :: u32 where "KEY_AUCA = 0x61756361"
definition KEY_AUCB :: u32 where "KEY_AUCB = 0x61756362"
definition KEY_CHID :: u32 where "KEY_CHID = 0x63686964"

lemmas audio_keys = KEY_PI_def KEY_AUCA_def KEY_AUCB_def KEY_CHID_def

definition kProtoAudio :: "u8 list" where
  "kProtoAudio = [0x63, 0x68, 0x6E, 0x6E, 0x6C, 0x73, 0x76, 0x01]"

lemma length_kProtoAudio [simp]: "length kProtoAudio = 8"
  by (simp add: kProtoAudio_def)

section \<open>State\<close>

record link_audio_local_t =
  loc_in_use :: bool
  loc_channel_id :: link_id
  loc_name :: "u8 list"
  loc_tdm_port :: int
  loc_tdm_channel :: int
  next_send_count :: u64
  num_subscribers :: nat
  sub_addr :: "u32 list"
  sub_port :: "u16 list"
  sub_peer :: "link_id list"

record link_audio_remote_t =
  rem_in_use :: bool
  rem_peer_id :: link_id
  rem_channel_id :: link_id
  rem_name :: "u8 list"
  endpoint_addr :: u32
  endpoint_port :: u16
  last_seen_us :: u64

record link_audio_sub_t =
  sub_in_use :: bool
  sub_channel_id :: link_id
  source_peer :: link_id
  source_addr :: u32
  source_port :: u16
  sub_tdm_port :: int
  sub_tdm_channel :: int
  next_request_us :: u64
  last_count :: u64
  num_chan_remote :: u8
  jbuf :: "u16 list"
  jbuf_w :: u32
  jbuf_r :: u32

definition zero_local :: link_audio_local_t where
  "zero_local = \<lparr>loc_in_use = False, loc_channel_id = zero_id,
     loc_name = replicate LINK_AUDIO_NAME_MAX 0, loc_tdm_port = 0, loc_tdm_channel = 0,
     next_send_count = 0, num_subscribers = 0, sub_addr = replicate LINK_AUDIO_MAX_SUB_PER 0,
     sub_port = replicate LINK_AUDIO_MAX_SUB_PER 0, sub_peer = replicate LINK_AUDIO_MAX_SUB_PER zero_id\<rparr>"

definition zero_remote :: link_audio_remote_t where
  "zero_remote = \<lparr>rem_in_use = False, rem_peer_id = zero_id, rem_channel_id = zero_id,
     rem_name = replicate LINK_AUDIO_NAME_MAX 0, endpoint_addr = 0, endpoint_port = 0, last_seen_us = 0\<rparr>"

definition zero_sub :: link_audio_sub_t where
  "zero_sub = \<lparr>sub_in_use = False, sub_channel_id = zero_id, source_peer = zero_id, source_addr = 0,
     source_port = 0, sub_tdm_port = 0, sub_tdm_channel = 0, next_request_us = 0, last_count = 0,
     num_chan_remote = 0, jbuf = replicate LINK_AUDIO_JBUF_LEN 0, jbuf_w = 0, jbuf_r = 0\<rparr>"

text \<open>Module state of link\_audio.c.\<close>

record audio_st = tdm_st +
  link_audio_local :: "link_audio_local_t list"
  link_audio_remote :: "link_audio_remote_t list"
  link_audio_subs :: "link_audio_sub_t list"
  s_peer_name :: "u8 list"
  s_last_announce_us :: u64
  s_tx_pkt_buf :: "u16 list list list"
  s_tx_pkt_pos :: "nat list list"

text \<open>The bytes of a C string: those before its terminator.\<close>

definition c_str :: "u8 list \<Rightarrow> u8 list" where
  "c_str p = takeWhile (\<lambda>b. b \<noteq> 0) p"

section \<open>Subscribers of a local channel\<close>

definition is_endpoint :: "u32 \<Rightarrow> u16 \<Rightarrow> link_audio_local_t \<Rightarrow> nat \<Rightarrow> bool" where
  "is_endpoint addr port c i \<longleftrightarrow> sub_addr c ! i = addr \<and> sub_port c ! i = port"

definition add_subscriber :: "link_id \<Rightarrow> u32 \<Rightarrow> u16 \<Rightarrow> link_audio_local_t \<Rightarrow> link_audio_local_t" where
  "add_subscriber peer addr port c =
     (if find_index (is_endpoint addr port c) [0..<num_subscribers c] \<noteq> None then c
      else if LINK_AUDIO_MAX_SUB_PER \<le> num_subscribers c then c
      else let i = num_subscribers c
           in c\<lparr>num_subscribers := Suc i, sub_addr := (sub_addr c)[i := addr],
                sub_port := (sub_port c)[i := port], sub_peer := (sub_peer c)[i := peer]\<rparr>)"

text \<open>The loop \<open>for (j = i; j < n; j++) xs[j] = xs[j + 1]\<close>\<close>

definition shift_down :: "nat \<Rightarrow> nat \<Rightarrow> 'b list \<Rightarrow> 'b list" where
  "shift_down i n xs = fold (\<lambda>j xs. xs[j := xs ! (j + 1)]) [i..<n] xs"

definition remove_subscriber :: "u32 \<Rightarrow> u16 \<Rightarrow> link_audio_local_t \<Rightarrow> link_audio_local_t" where
  "remove_subscriber addr port c =
     (case find_index (is_endpoint addr port c) [0..<num_subscribers c] of
        None \<Rightarrow> c
      | Some i \<Rightarrow>
          let n = num_subscribers c - 1
          in c\<lparr>num_subscribers := n, sub_addr := shift_down i n (sub_addr c),
               sub_port := shift_down i n (sub_port c), sub_peer := shift_down i n (sub_peer c)\<rparr>)"

section \<open>The jitter ring of a subscription\<close>

definition jbuf_push :: "u16 \<Rightarrow> link_audio_sub_t \<Rightarrow> link_audio_sub_t" where
  "jbuf_push v b =
     (let b = b\<lparr>jbuf := (jbuf b)[unat (jbuf_w b mod of_nat LINK_AUDIO_JBUF_LEN) := v],
                jbuf_w := jbuf_w b + 1\<rparr>
      in if of_nat LINK_AUDIO_JBUF_LEN < jbuf_w b - jbuf_r b
         then b\<lparr>jbuf_r := jbuf_w b - of_nat LINK_AUDIO_JBUF_LEN\<rparr> else b)"

definition jbuf_pop :: "link_audio_sub_t \<Rightarrow> (u16 \<times> link_audio_sub_t) option" where
  "jbuf_pop b =
     (if jbuf_r b \<noteq> jbuf_w b
      then Some (jbuf b ! unat (jbuf_r b mod of_nat LINK_AUDIO_JBUF_LEN), b\<lparr>jbuf_r := jbuf_r b + 1\<rparr>)
      else None)"

section \<open>Subscribers as a list\<close>

definition subscriber :: "link_audio_local_t \<Rightarrow> nat \<Rightarrow> u32 \<times> u16 \<times> link_id" where
  "subscriber c i = (sub_addr c ! i, sub_port c ! i, sub_peer c ! i)"

definition subscribers :: "link_audio_local_t \<Rightarrow> (u32 \<times> u16 \<times> link_id) list" where
  "subscribers c = map (subscriber c) [0..<num_subscribers c]"

abbreviation endpoint :: "u32 \<times> u16 \<times> link_id \<Rightarrow> u32 \<times> u16" where
  "endpoint x \<equiv> (fst x, fst (snd x))"

definition subs_inv :: "link_audio_local_t \<Rightarrow> bool" where
  "subs_inv c \<longleftrightarrow> length (sub_addr c) = LINK_AUDIO_MAX_SUB_PER \<and> length (sub_port c) = LINK_AUDIO_MAX_SUB_PER \<and>
     length (sub_peer c) = LINK_AUDIO_MAX_SUB_PER \<and> num_subscribers c \<le> LINK_AUDIO_MAX_SUB_PER \<and>
     distinct (map endpoint (subscribers c))"

text \<open>What the two operations are for.\<close>

definition add_spec :: "link_id \<Rightarrow> u32 \<Rightarrow> u16 \<Rightarrow> (u32 \<times> u16 \<times> link_id) list \<Rightarrow> (u32 \<times> u16 \<times> link_id) list" where
  "add_spec peer addr port xs =
     (if (addr, port) \<in> set (map endpoint xs) \<or> 8 \<le> length xs then xs else xs @ [(addr, port, peer)])"

definition remove_spec :: "u32 \<Rightarrow> u16 \<Rightarrow> (u32 \<times> u16 \<times> link_id) list \<Rightarrow> (u32 \<times> u16 \<times> link_id) list" where
  "remove_spec addr port xs = filter (\<lambda>x. endpoint x \<noteq> (addr, port)) xs"

lemma is_endpoint_subscriber: "is_endpoint addr port c i \<longleftrightarrow> endpoint (subscriber c i) = (addr, port)"
  by (simp add: is_endpoint_def subscriber_def)

lemma length_subscribers [simp]: "length (subscribers c) = num_subscribers c"
  by (simp add: subscribers_def)

lemma endpoint_known:
  "(addr, port) \<in> set (map endpoint (subscribers c)) \<longleftrightarrow>
   find_index (is_endpoint addr port c) [0..<num_subscribers c] \<noteq> None"
  unfolding find_index_None is_endpoint_subscriber subscribers_def by force

lemma add_subscriber_refines:
  assumes "subs_inv c"
  shows "subscribers (add_subscriber peer addr port c) = add_spec peer addr port (subscribers c)"
proof (cases "(addr, port) \<in> set (map endpoint (subscribers c)) \<or> LINK_AUDIO_MAX_SUB_PER \<le> num_subscribers c")
  case True
  then show ?thesis
    unfolding add_subscriber_def endpoint_known [symmetric] add_spec_def by (auto simp: audio_consts)
next
  case False
  let ?c = "add_subscriber peer addr port c" and ?n = "num_subscribers c"
  have n: "?n < length (sub_addr c)" "?n < length (sub_port c)" "?n < length (sub_peer c)"
    using assms False by (simp_all add: subs_inv_def)
  have c: "?c = c\<lparr>num_subscribers := Suc ?n, sub_addr := (sub_addr c)[?n := addr],
      sub_port := (sub_port c)[?n := port], sub_peer := (sub_peer c)[?n := peer]\<rparr>"
    using False unfolding endpoint_known add_subscriber_def Let_def by simp
  have "subscriber ?c i = (if i = ?n then (addr, port, peer) else subscriber c i)" for i
    using n by (simp add: c subscriber_def)
  then have "subscribers ?c = subscribers c @ [(addr, port, peer)]"
    by (simp add: c subscribers_def)
  then show ?thesis using False by (simp add: add_spec_def audio_consts)
qed

lemma add_subscriber_inv: "subs_inv c \<Longrightarrow> subs_inv (add_subscriber peer addr port c)"
proof -
  assume c: "subs_inv c"
  then have "distinct (map endpoint (subscribers (add_subscriber peer addr port c)))"
    by (auto simp: add_subscriber_refines add_spec_def subs_inv_def)
  with c show ?thesis by (auto simp: subs_inv_def add_subscriber_def Let_def)
qed

lemma length_shift_down [simp]: "length (shift_down i n xs) = length xs"
proof -
  have "length (fold (\<lambda>j xs. xs[j := xs ! (j + 1)]) js ys) = length ys" for js and ys :: "'a list"
    by (induction js arbitrary: ys) simp_all
  then show ?thesis by (simp add: shift_down_def)
qed

lemma shift_down_nth:
  assumes "i \<le> n" "n < length xs"
  shows "length (shift_down i n xs) = length xs"
    "k < length xs \<Longrightarrow> shift_down i n xs ! k = (if i \<le> k \<and> k < n then xs ! (k + 1) else xs ! k)"
proof -
  have "length (shift_down i n xs) = length xs \<and>
    (\<forall>k<length xs. shift_down i n xs ! k = (if i \<le> k \<and> k < n then xs ! (k + 1) else xs ! k))"
    using assms
  proof (induction n)
    case (Suc n)
    show ?case
    proof (cases "i \<le> n")
      case True
      then have "shift_down i (Suc n) xs = (shift_down i n xs)[n := shift_down i n xs ! (n + 1)]"
        by (simp add: shift_down_def)
      with Suc True show ?thesis by (auto simp: nth_list_update)
    next
      case False
      with Suc.prems have "i = Suc n" by simp
      then show ?thesis by (auto simp: shift_down_def)
    qed
  qed (simp add: shift_down_def)
  then show "length (shift_down i n xs) = length xs"
    "k < length xs \<Longrightarrow> shift_down i n xs ! k = (if i \<le> k \<and> k < n then xs ! (k + 1) else xs ! k)" by auto
qed

lemma upt_split: "i \<le> n \<Longrightarrow> [0..<n] = [0..<i] @ [i..<n]"
  using upt_add_eq_append [of 0 i "n - i"] by simp

lemma upt_without: "i < n \<Longrightarrow> filter (\<lambda>j. j \<noteq> i) [0..<n] = [0..<i] @ [Suc i..<n]"
proof -
  assume "i < n"
  then have "[0..<n] = [0..<i] @ i # [Suc i..<n]"
    using upt_split [of i n] by (simp add: upt_conv_Cons)
  then show ?thesis by (simp add: filter_id_conv)
qed

lemma remove_subscriber_refines:
  assumes "subs_inv c"
  shows "subscribers (remove_subscriber addr port c) = remove_spec addr port (subscribers c)"
proof (cases "find_index (is_endpoint addr port c) [0..<num_subscribers c]")
  case None
  then have "(addr, port) \<notin> set (map endpoint (subscribers c))" by (simp only: endpoint_known) simp
  then have "remove_spec addr port (subscribers c) = subscribers c"
    unfolding remove_spec_def by (intro filter_True) force
  with None show ?thesis by (simp add: remove_subscriber_def)
next
  case (Some i)
  let ?c = "remove_subscriber addr port c" and ?n = "num_subscribers c - 1"
  have i: "i < num_subscribers c" "is_endpoint addr port c i"
    using find_index_SomeD [OF Some] by auto
  have len: "?n < length (sub_addr c)" "?n < length (sub_port c)" "?n < length (sub_peer c)" "i \<le> ?n"
    using assms i(1) by (auto simp: subs_inv_def)
  have "subscriber ?c k = subscriber c (if i \<le> k then k + 1 else k)" if "k < ?n" for k
    using Some len that by (simp add: remove_subscriber_def Let_def subscriber_def shift_down_nth)
  then have "subscribers ?c = map (\<lambda>k. subscriber c (if i \<le> k then k + 1 else k)) [0..<?n]"
    using Some by (simp add: subscribers_def remove_subscriber_def Let_def)
  also have "[0..<?n] = [0..<i] @ [i..<?n]"
    by (rule upt_split [OF len(4)])
  also have "map (\<lambda>k. subscriber c (if i \<le> k then k + 1 else k)) ([0..<i] @ [i..<?n])
      = map (subscriber c) [0..<i] @ map (subscriber c) (map Suc [i..<?n])"
    by simp
  also have "map Suc [i..<?n] = [Suc i..<num_subscribers c]"
    using i(1) by (simp add: map_Suc_upt)
  also have "map (subscriber c) [0..<i] @ map (subscriber c) [Suc i..<num_subscribers c]
      = map (subscriber c) (filter (\<lambda>j. j \<noteq> i) [0..<num_subscribers c])"
    using i(1) by (simp add: upt_without)
  also have "filter (\<lambda>j. j \<noteq> i) [0..<num_subscribers c]
      = filter (\<lambda>j. endpoint (subscriber c j) \<noteq> (addr, port)) [0..<num_subscribers c]"
  proof (rule filter_cong [OF refl])
    fix j
    assume "j \<in> set [0..<num_subscribers c]"
    then have "endpoint (subscriber c j) = endpoint (subscriber c i) \<longleftrightarrow> j = i"
      using assms i(1) unfolding subs_inv_def subscribers_def
      by (metis (no_types, lifting) distinct_map inj_onD map_map o_apply set_upt atLeastLessThan_iff le0)
    then show "j \<noteq> i \<longleftrightarrow> endpoint (subscriber c j) \<noteq> (addr, port)"
      using i(2) by (simp add: is_endpoint_subscriber)
  qed
  also have "map (subscriber c) \<dots> = remove_spec addr port (subscribers c)"
    by (simp add: remove_spec_def subscribers_def filter_map o_def)
  finally show ?thesis .
qed

lemma remove_subscriber_inv: "subs_inv c \<Longrightarrow> subs_inv (remove_subscriber addr port c)"
proof -
  assume c: "subs_inv c"
  then have "distinct (map endpoint (subscribers (remove_subscriber addr port c)))"
    by (simp add: remove_subscriber_refines remove_spec_def subs_inv_def distinct_map_filter)
  with c show ?thesis
    by (auto simp: subs_inv_def remove_subscriber_def Let_def split: option.splits)
qed

section \<open>The ring as a bounded queue\<close>

definition ring_inv :: "link_audio_sub_t \<Rightarrow> bool" where
  "ring_inv b \<longleftrightarrow> length (jbuf b) = LINK_AUDIO_JBUF_LEN \<and> unat (jbuf_w b - jbuf_r b) \<le> LINK_AUDIO_JBUF_LEN"

definition pending :: "link_audio_sub_t \<Rightarrow> u16 list" where
  "pending b = map (\<lambda>k. jbuf b ! ((unat (jbuf_r b) + k) mod 1024)) [0..<unat (jbuf_w b - jbuf_r b)]"

lemma length_pending [simp]: "length (pending b) = unat (jbuf_w b - jbuf_r b)"
  by (simp add: pending_def)

lemma unat_add_mod_1024: "unat (a + b :: u32) mod 1024 = (unat a + unat b) mod 1024"
  by (simp add: unat_word_ariths mod_mod_cancel)

lemma ring_next: "(unat (x + 1 :: u32) + k) mod 1024 = (unat x + Suc k) mod 1024"
proof -
  have "(unat (x + 1) + k) mod 1024 = (unat (x + 1) mod 1024 + k) mod 1024"
    by (rule mod_add_left_eq [symmetric])
  also have "\<dots> = ((unat x + 1) mod 1024 + k) mod 1024"
    by (simp only: unat_add_mod_1024 unat_1)
  also have "\<dots> = (unat x + 1 + k) mod 1024" by (rule mod_add_left_eq)
  finally show ?thesis by simp
qed

lemma ring_index: "unat (x mod of_nat LINK_AUDIO_JBUF_LEN) = unat (x :: u32) mod 1024"
  by (simp add: audio_consts unat_mod)

lemma mod_window:
  assumes "k \<le> n" "n \<le> m" "0 < (m :: nat)"
  shows "(r + k) mod m = (r + n) mod m \<longleftrightarrow> k = n \<or> n = m \<and> k = 0"
proof -
  have "(r + k) mod m = (r + n) mod m \<longleftrightarrow> m dvd n - k"
    using mod_eq_dvd_iff_nat [of "r + k" "r + n" m] assms(1) by (simp add: eq_commute)
  also have "\<dots> \<longleftrightarrow> n - k = 0 \<or> n - k = m"
    using assms by (metis dvd_imp_le dvd_0_right dvd_refl diff_le_self le_trans nle_le not_gr_zero)
  finally show ?thesis using assms by auto
qed

lemma pending_cong:
  assumes "\<And>k. k < unat (jbuf_w b - jbuf_r b) \<Longrightarrow> jbuf b ! ((unat (jbuf_r b) + k) mod 1024) = f k"
  shows "pending b = map f [0..<unat (jbuf_w b - jbuf_r b)]"
  using assms by (simp add: pending_def)

text \<open>Pushing appends, and drops the oldest sample of a full ring.\<close>

lemma jbuf_push_refines:
  assumes "ring_inv b"
  shows "ring_inv (jbuf_push v b) \<and> pending (jbuf_push v b) =
    (if length (pending b) = 1024 then List.tl (pending b) else pending b) @ [v]"
proof -
  let ?n = "unat (jbuf_w b - jbuf_r b)" and ?r = "unat (jbuf_r b)"
  have n: "?n \<le> 1024" "length (jbuf b) = 1024" using assms by (simp_all add: ring_inv_def audio_consts)
  have w: "unat (jbuf_w b) mod 1024 = (?r + ?n) mod 1024"
    using unat_add_mod_1024 [of "jbuf_r b" "jbuf_w b - jbuf_r b"] by simp
  have step: "unat (jbuf_w b + 1 - jbuf_r b) = Suc ?n"
  proof -
    have "jbuf_w b + 1 - jbuf_r b = (jbuf_w b - jbuf_r b) + 1" by (rule diff_add_eq [symmetric])
    moreover have "unat ((jbuf_w b - jbuf_r b) + 1) = Suc ?n"
      using n(1) by (subst unat_add_small) simp_all
    ultimately show ?thesis by (simp only:)
  qed
  define buf where "buf = (jbuf b)[(?r + ?n) mod 1024 := v]"
  have read: "buf ! ((?r + k) mod 1024) =
      (if k = ?n \<or> ?n = 1024 \<and> k = 0 then v else jbuf b ! ((?r + k) mod 1024))" if "k \<le> ?n" for k
    using mod_window [OF that n(1), of ?r] n(2) by (auto simp: buf_def nth_list_update)
  have push: "jbuf_push v b = b\<lparr>jbuf := buf, jbuf_w := jbuf_w b + 1,
      jbuf_r := (if ?n = 1024 then jbuf_r b + 1 else jbuf_r b)\<rparr>"
  proof -
    have "of_nat LINK_AUDIO_JBUF_LEN < jbuf_w b + 1 - jbuf_r b \<longleftrightarrow> ?n = 1024"
      using step n(1) by (auto simp: word_less_nat_alt audio_consts)
    moreover have "jbuf_w b + 1 - of_nat LINK_AUDIO_JBUF_LEN = jbuf_r b + 1" if "?n = 1024"
    proof -
      have "jbuf_w b - jbuf_r b = 1024" using that by (simp add: word_unat_eq_iff)
      then show ?thesis by (simp add: audio_consts algebra_simps)
    qed
    ultimately show ?thesis by (simp add: jbuf_push_def Let_def ring_index w buf_def)
  qed
  show ?thesis
  proof (cases "?n = 1024")
    case True
    have "jbuf_w b + 1 - (jbuf_r b + 1) = jbuf_w b - jbuf_r b" by simp
    moreover have "buf ! ((unat (jbuf_r b + 1) + k) mod 1024) =
        (if Suc k = ?n then v else jbuf b ! ((?r + Suc k) mod 1024))" if "k < 1024" for k
      unfolding ring_next using read [of "Suc k"] that True by (simp only: Suc_leI) simp
    ultimately have "pending (jbuf_push v b) =
        map (\<lambda>k. if Suc k = ?n then v else jbuf b ! ((?r + Suc k) mod 1024)) [0..<?n]"
      using True by (subst pending_cong [where f = "\<lambda>k. if Suc k = ?n then v else jbuf b ! ((?r + Suc k) mod 1024)"])
        (simp_all add: push)
    also have "\<dots> = map (\<lambda>k. jbuf b ! ((?r + k) mod 1024)) [1..<1024] @ [v]"
      by (rule nth_equalityI) (use True in \<open>auto simp: nth_append less_Suc_eq\<close>)
    also have "map (\<lambda>k. jbuf b ! ((?r + k) mod 1024)) [1..<1024] = List.tl (pending b)"
      using True by (simp add: pending_def map_tl [symmetric] tl_upt)
    finally show ?thesis
      using True n by (simp add: push ring_inv_def audio_consts buf_def)
  next
    case False
    have "pending (jbuf_push v b) = map (\<lambda>k. if k = ?n then v else jbuf b ! ((?r + k) mod 1024)) [0..<Suc ?n]"
      using read False step by (subst pending_cong [where f = "\<lambda>k. if k = ?n then v else jbuf b ! ((?r + k) mod 1024)"])
        (auto simp: push)
    also have "\<dots> = pending b @ [v]" by (simp add: pending_def)
    finally show ?thesis
      using False n step by (simp add: push ring_inv_def audio_consts buf_def)
  qed
qed

text \<open>Popping takes the oldest sample, and fails exactly on an empty ring.\<close>

lemma jbuf_pop_refines:
  assumes "ring_inv b"
  shows "case jbuf_pop b of
      None \<Rightarrow> pending b = []
    | Some (v, b') \<Rightarrow> ring_inv b' \<and> pending b = v # pending b'"
proof (cases "jbuf_r b = jbuf_w b")
  case True
  then show ?thesis by (simp add: jbuf_pop_def pending_def)
next
  case False
  let ?n = "unat (jbuf_w b - jbuf_r b)" and ?r = "unat (jbuf_r b)"
  have "jbuf_w b - jbuf_r b \<noteq> 0" using False by simp
  then have "0 < ?n" by (simp add: unat_gt_0)
  then have n: "?n = Suc (unat (jbuf_w b - (jbuf_r b + 1)))"
    using unat_minus_one [OF \<open>jbuf_w b - jbuf_r b \<noteq> 0\<close>] by (simp add: diff_diff_add)
  have next_index: "(unat (jbuf_r b + 1) + k) mod 1024 = (?r + Suc k) mod 1024" for k
    by (rule ring_next)
  have "pending b = jbuf b ! (?r mod 1024) # map (\<lambda>k. jbuf b ! ((?r + Suc k) mod 1024)) [0..<unat (jbuf_w b - (jbuf_r b + 1))]"
    unfolding pending_def n by (simp add: upt_conv_Cons map_Suc_upt [symmetric] del: upt_Suc)
  then show ?thesis
    using False assms n by (simp add: jbuf_pop_def ring_index pending_def ring_inv_def next_index)
qed

lemma ring_bound: "ring_inv b \<Longrightarrow> length (pending b) \<le> LINK_AUDIO_JBUF_LEN"
  by (simp add: ring_inv_def)

interpretation jring: bounded_queue jbuf_push jbuf_pop pending ring_inv LINK_AUDIO_JBUF_LEN
proof unfold_locales
  fix v b
  assume b: "ring_inv b"
  have "latest LINK_AUDIO_JBUF_LEN (pending b @ [v]) =
      (if length (pending b) = 1024 then List.tl (pending b) else pending b) @ [v]"
    using ring_bound [OF b] by (auto simp: latest_def audio_consts drop_Suc)
  then show "pending (jbuf_push v b) = latest LINK_AUDIO_JBUF_LEN (pending b @ [v])"
    using jbuf_push_refines [OF b] by simp
qed (use jbuf_push_refines jbuf_pop_refines ring_bound in \<open>auto split: list.splits\<close>)

end
