(* ===== verification/Link_Audio.thy ===== *)
theory Link_Audio
  imports Audio_State
begin

text \<open>
  \<^verbatim>\<open>firmware/link_audio.c\<close>: announcements, channel requests, audio buffers, the TDM frame
  handler, the periodic tick and the subscription calls.

  The message handlers are given the rest of the received buffer as a list. A result \<open>None\<close> is an
  access outside it, a pointer moved outside it, or a conversion C leaves undefined. \<open>size_t\<close> is the
  32-bit word of the target, and the sizes the handlers compute from received counts wrap.
\<close>

section \<open>Initialisation\<close>

definition random_id :: "'a audio_st_scheme \<Rightarrow> link_id \<times> 'a audio_st_scheme" where
  "random_id s =
     (let (t, s) = host_time_us s
      in (id_of_bytes (map (\<lambda>i. xor (ucast (drop_bit (i * 8) t)) (of_nat (0xa5 + i * 7))) [0..<8]), s))"

text \<open>\<open>%d\<close> and \<open>%02d\<close> of \<open>snprintf\<close> for the one- and two-digit numbers it is given\<close>

definition digit :: "nat \<Rightarrow> u8" where
  "digit n = of_nat (48 + n mod 10)"

definition fmt_d :: "nat \<Rightarrow> u8 list" where
  "fmt_d n = (if n < 10 then [digit n] else [digit (n div 10), digit n])"

definition fmt_02d :: "nat \<Rightarrow> u8 list" where
  "fmt_02d n = [digit (n div 10), digit n]"

text \<open>\<open>"tdm%d-ch%02d"\<close>, padded with the zeros of the array\<close>

definition channel_name :: "nat \<Rightarrow> nat \<Rightarrow> u8 list" where
  "channel_name port ch =
     (let t = [0x74, 0x64, 0x6D] @ fmt_d port @ [0x2D, 0x63, 0x68] @ fmt_02d ch
      in t @ replicate (LINK_AUDIO_NAME_MAX - length t) 0)"

definition init_local :: "nat \<Rightarrow> nat \<Rightarrow> nat \<Rightarrow> 'a audio_st_scheme \<Rightarrow> 'a audio_st_scheme" where
  "init_local idx port ch s =
     (let (i, s) = random_id s
      in s\<lparr>link_audio_local := (link_audio_local s)[idx :=
             (link_audio_local s ! idx)\<lparr>loc_in_use := True, loc_tdm_port := int port,
                loc_tdm_channel := int ch, loc_channel_id := i, loc_name := channel_name port ch\<rparr>]\<rparr>)"

definition link_audio_init :: "'a audio_st_scheme \<Rightarrow> 'a audio_st_scheme" where
  "link_audio_init s =
     (let s = s\<lparr>link_audio_local := replicate MAX_LOCAL_CHANNELS zero_local,
                link_audio_remote := replicate LINK_AUDIO_MAX_REMOTE zero_remote,
                link_audio_subs := replicate LINK_AUDIO_MAX_REMOTE zero_sub\<rparr>;
          (_, s) = fold (\<lambda>(port, ch) (idx, s).
                           if idx < MAX_LOCAL_CHANNELS then (idx + 1, init_local idx port ch s) else (idx, s))
                        (List.product [0..<LINK_NUM_TDM_PORTS] [0..<LINK_TDM_CHANNELS_PER_PORT]) (0, s)
      in s\<lparr>s_last_announce_us := 0\<rparr>)"

section \<open>Encoders\<close>

definition encode_audio_header :: "u8 \<Rightarrow> u8 \<Rightarrow> 'a audio_st_scheme \<Rightarrow> u8 list" where
  "encode_audio_header mtype ttl s = kProtoAudio @ [mtype, ttl, 0, 0] @ id_bytes (link_self_id s)"

definition channel_announcement :: "link_audio_local_t \<Rightarrow> u8 list" where
  "channel_announcement c =
     (let name_len = of_nat (length (c_str (loc_name c))) :: u32
      in put_be32 name_len @ take (unat name_len) (loc_name c) @ id_bytes (loc_channel_id c))"

definition encode_peer_announcement :: "bool \<Rightarrow> 'a audio_st_scheme \<Rightarrow> u8 list \<times> 'a audio_st_scheme" where
  "encode_peer_announcement with_ping s =
     (let p = encode_audio_header 1 (of_nat LINK_DISCOVERY_TTL_SEC) s;
          p = tlv_emit_bytes KEY_SESS (id_bytes (link_self_session s)) 8 p;
          name_len = of_nat (length (c_str (s_peer_name s))) :: u32;
          p = tlv_emit_header KEY_PI (4 + name_len) p;
          p = p @ put_be32 name_len;
          p = p @ take (unat name_len) (s_peer_name s);
          chans = filter loc_in_use (link_audio_local s);
          (total, count) = fold (\<lambda>c (total, count).
              (total + (4 + of_nat (length (c_str (loc_name c))) + 8), count + 1)) chans (4 :: u32, 0 :: u32);
          p = tlv_emit_header KEY_AUCA total p;
          p = p @ put_be32 count;
          p = fold (\<lambda>c p. p @ channel_announcement c) chans p
      in if with_ping then let (t, s) = host_time_us s in (tlv_emit_u64be KEY_HT t p, s)
         else (p, s))"

text \<open>The loop of \<open>send_announcements\<close> over the peer table, \<open>first\<close> being its flag.\<close>

fun announce_to :: "link_peer list \<Rightarrow> bool \<Rightarrow> 'a audio_st_scheme \<Rightarrow> 'a audio_st_scheme" where
  "announce_to [] first s = s"
| "announce_to (p # ps) first s =
     (if \<not> in_use p \<or> aep4_addr p = 0 then announce_to ps first s
      else let (buf, s) = encode_peer_announcement first s
           in announce_to ps False
                (snd (net_udp_send_v4_unicast (aep4_addr p) (aep4_port p) LINK_DISCOVERY_PORT buf s)))"

definition send_announcements :: "'a audio_st_scheme \<Rightarrow> 'a audio_st_scheme" where
  "send_announcements s =
     (let s = announce_to (link_peers s) True s; (t, s) = host_time_us s
      in s\<lparr>s_last_announce_us := t\<rparr>)"

definition send_pong :: "u32 \<Rightarrow> u16 \<Rightarrow> i64 \<Rightarrow> 'a audio_st_scheme \<Rightarrow> 'a audio_st_scheme" where
  "send_pong addr port echoed_ht s =
     (let p = encode_audio_header 3 (of_nat LINK_DISCOVERY_TTL_SEC) s;
          p = tlv_emit_u64be KEY_HT echoed_ht p
      in snd (net_udp_send_v4_unicast addr port LINK_DISCOVERY_PORT p s))"

definition send_channel_request ::
  "u8 \<Rightarrow> u32 \<Rightarrow> u16 \<Rightarrow> link_id \<Rightarrow> 'a audio_st_scheme \<Rightarrow> 'a audio_st_scheme" where
  "send_channel_request mtype addr port i s =
     (let p = encode_audio_header mtype (of_nat (AUDIO_REQUEST_TTL_MS div 1000)) s;
          p = tlv_emit_bytes KEY_CHID (id_bytes i) 8 p
      in snd (net_udp_send_v4_unicast addr port LINK_DISCOVERY_PORT p s))"

section \<open>Channel requests and byes\<close>

definition find_local_channel :: "link_id \<Rightarrow> 'a audio_st_scheme \<Rightarrow> nat option" where
  "find_local_channel i s =
     find_index (\<lambda>c. loc_in_use c \<and> id_cmp (loc_channel_id c) i = 0) (link_audio_local s)"

definition handle_chid_entry :: "link_id tlv_cb" where
  "handle_chid_entry key v n out =
     Some (0, if key = KEY_CHID \<and> n = 8 then id_of_bytes v else out)"

definition handle_channel_request ::
  "u8 \<Rightarrow> link_id \<Rightarrow> u32 \<Rightarrow> u16 \<Rightarrow> u32 \<Rightarrow> u8 list \<Rightarrow> 'a audio_st_scheme \<Rightarrow> 'a audio_st_scheme option" where
  "handle_channel_request mtype requester saddr sport a body s = do {
     (_, cid) \<leftarrow> tlv_walk a handle_chid_entry body zero_id;
     Some (case find_local_channel cid s of
         None \<Rightarrow> s
       | Some k \<Rightarrow>
           let c = link_audio_local s ! k;
               c = (if mtype = 4 then add_subscriber requester saddr sport c
                    else remove_subscriber saddr sport c)
           in s\<lparr>link_audio_local := (link_audio_local s)[k := c]\<rparr>)
   }"

definition drop_remote :: "link_id \<Rightarrow> link_audio_remote_t \<Rightarrow> link_audio_remote_t" where
  "drop_remote i r = (if rem_in_use r \<and> id_cmp (rem_channel_id r) i = 0 then r\<lparr>rem_in_use := False\<rparr> else r)"

definition drop_sub :: "link_id \<Rightarrow> link_audio_sub_t \<Rightarrow> link_audio_sub_t" where
  "drop_sub i b = (if sub_in_use b \<and> id_cmp (sub_channel_id b) i = 0 then b\<lparr>sub_in_use := False\<rparr> else b)"

definition drop_channel :: "link_id \<Rightarrow> 'a audio_st_scheme \<Rightarrow> 'a audio_st_scheme" where
  "drop_channel i s =
     s\<lparr>link_audio_remote := map (drop_remote i) (link_audio_remote s),
       link_audio_subs := map (drop_sub i) (link_audio_subs s)\<rparr>"

text \<open>The loop over the identifiers of a ChannelByes; each read needs its eight bytes.\<close>

fun drop_channels :: "nat \<Rightarrow> u8 list \<Rightarrow> 'a audio_st_scheme \<Rightarrow> 'a audio_st_scheme option" where
  "drop_channels 0 v s = Some s"
| "drop_channels (Suc k) v s =
     (if length v < 8 then None else drop_channels k (drop 8 v) (drop_channel (id_of_bytes v) s))"

definition handle_aucb_entry :: "'a audio_st_scheme tlv_cb" where
  "handle_aucb_entry key v n s =
     (if key \<noteq> KEY_AUCB then Some (0, s)
      else if n < 4 then Some (- 1, s)
      else let count = be32 v; v = drop 4 v; n = n - 4 in
        if n < count * 8 then Some (- 1, s)
        else do { s \<leftarrow> drop_channels (unat count) v s; Some (0, s) })"

section \<open>Announcements received\<close>

record ann_ctx =
  ping_ht :: i64
  have_ping :: bool
  peer_id :: link_id
  peer_addr :: u32
  peer_port :: u16
  peer_name :: "u8 list"

abbreviation is_remote :: "link_id \<Rightarrow> link_audio_remote_t \<Rightarrow> bool" where
  "is_remote i r \<equiv> rem_in_use r \<and> id_cmp (rem_channel_id r) i = 0"

text \<open>One announced channel entered into the catalogue.\<close>

definition note_remote :: "ann_ctx \<Rightarrow> u8 list \<Rightarrow> link_id \<Rightarrow> 'a audio_st_scheme \<Rightarrow> 'a audio_st_scheme" where
  "note_remote ctx name i s =
     (let write = (\<lambda>k r s. let (t, s) = host_time_us s
             in s\<lparr>link_audio_remote := (link_audio_remote s)[k :=
                    r\<lparr>rem_name := name, endpoint_addr := peer_addr ctx, endpoint_port := peer_port ctx,
                      last_seen_us := t\<rparr>]\<rparr>)
      in case scan_slots (is_remote i) (\<lambda>r. \<not> rem_in_use r) (link_audio_remote s) 0 None of
           (Some k, _) \<Rightarrow> write k (link_audio_remote s ! k) s
         | (None, None) \<Rightarrow> s
         | (None, Some k) \<Rightarrow>
             write k ((link_audio_remote s ! k)\<lparr>rem_in_use := True, rem_peer_id := peer_id ctx,
                        rem_channel_id := i\<rparr>) s)"

fun read_channels :: "nat \<Rightarrow> ann_ctx \<Rightarrow> u8 list \<Rightarrow> u32 \<Rightarrow> 'a audio_st_scheme \<Rightarrow> (int \<times> 'a audio_st_scheme) option"
where
  "read_channels 0 ctx v n s = Some (0, s)"
| "read_channels (Suc k) ctx v n s =
     (if n < 4 then Some (- 1, s)
      else if length v < 4 then None
      else let name_len = be32 v; v = drop 4 v; n = n - 4 in
        if n < name_len + 8 then Some (- 1, s)
        else let cp = min (unat name_len) (LINK_AUDIO_NAME_MAX - 1) in
          if length v < unat name_len + 8 then None
          else let name = take cp v @ replicate (LINK_AUDIO_NAME_MAX - cp) 0;
                   v = drop (unat name_len) v; n = n - name_len;
                   i = id_of_bytes v
               in read_channels k ctx (drop 8 v) (n - 8) (note_remote ctx name i s))"

definition ann_handler :: "(ann_ctx \<times> 'a audio_st_scheme) tlv_cb" where
  "ann_handler key v n cs =
     (let (ctx, s) = cs in
      if key = KEY_HT then
        if n \<noteq> 8 then Some (- 1, cs) else Some (0, (ctx\<lparr>ping_ht := be64 v, have_ping := True\<rparr>, s))
      else if key = KEY_PI then
        if n < 4 then Some (- 1, cs)
        else let len = be32 v in
          if n < 4 + len then Some (- 1, cs)
          else let len = (if LINK_AUDIO_NAME_MAX \<le> unat len then LINK_AUDIO_NAME_MAX - 1 else unat len) in
            if length v < 4 + len then None
            else Some (0, (ctx\<lparr>peer_name := take len (drop 4 v) @ [0] @ drop (len + 1) (peer_name ctx)\<rparr>, s))
      else if key = KEY_SESS then
        if n \<noteq> 8 then Some (- 1, cs) else Some (0, cs)
      else if key = KEY_AUCA then
        if n < 4 then Some (- 1, cs)
        else do {
          (r, s) \<leftarrow> read_channels (unat (be32 v)) ctx (drop 4 v) (n - 4) s;
          Some (r, (ctx, s))
        }
      else Some (0, cs))"

section \<open>Audio buffers\<close>

definition audio_body :: "link_id \<Rightarrow> link_id \<Rightarrow> u64 \<Rightarrow> i64 \<Rightarrow> i64 \<Rightarrow> u16 list \<Rightarrow> u8 list" where
  "audio_body channel session cnt beats bp smp =
     (let p = id_bytes channel;
          p = p @ id_bytes session;
          p = p @ put_be32 1;
          p = p @ put_be64 cnt;
          p = p @ put_be16 (of_nat AUDIO_FRAMES_PER_PKT);
          p = p @ put_be64 beats;
          p = p @ put_be64 bp;
          p = p @ [1];
          p = p @ put_be32 (of_nat LINK_TDM_FS_HZ);
          p = p @ [1];
          p = p @ put_be16 (of_nat (AUDIO_FRAMES_PER_PKT * 2))
      in p @ concat (map (\<lambda>i. put_be16 (smp ! i)) [0..<AUDIO_FRAMES_PER_PKT]))"

definition send_audio_buffer_for :: "nat \<Rightarrow> u16 list \<Rightarrow> 'a audio_st_scheme \<Rightarrow> 'a audio_st_scheme option" where
  "send_audio_buffer_for k smp s =
     (let c = link_audio_local s ! k in
      if num_subscribers c = 0 then Some s
      else let
        (now_g, s) = ghost_time_us s;
        span_us = of_nat (AUDIO_FRAMES_PER_PKT * 1000000 div LINK_TDM_FS_HZ);
        pkt_t0 = now_g - span_us;
        tml = link_self_timeline s;
        bp = tempo_us_per_beat tml
      in do {
        b \<leftarrow> beats_at pkt_t0 (time_origin_us_ghost tml) bp;
        let beats_first = beat_origin_microbeats tml + b;
            buf = encode_audio_header 6 0 s
                  @ audio_body (loc_channel_id c) (link_self_session s) (next_send_count c) beats_first bp smp;
            s = s\<lparr>link_audio_local := (link_audio_local s)[k := c\<lparr>next_send_count := next_send_count c + 1\<rparr>]\<rparr>
        in Some (fold (\<lambda>j s. snd (net_udp_send_v4_unicast (sub_addr c ! j) (sub_port c ! j)
                                    LINK_DISCOVERY_PORT buf s)) [0..<num_subscribers c] s)
      })"

definition find_sub_for_channel :: "link_id \<Rightarrow> 'a audio_st_scheme \<Rightarrow> nat option" where
  "find_sub_for_channel i s =
     find_index (\<lambda>b. sub_in_use b \<and> id_cmp (sub_channel_id b) i = 0) (link_audio_subs s)"

text \<open>The loop over the chunk headers: pointer, remaining size and frame total.\<close>

fun chunk_frames :: "nat \<Rightarrow> u8 list \<Rightarrow> u32 \<Rightarrow> u16 \<Rightarrow> (u8 list \<times> u32 \<times> u16) option" where
  "chunk_frames 0 p n tot = Some (p, n, tot)"
| "chunk_frames (Suc i) p n tot =
     (if length p < 10 then None
      else chunk_frames i (drop 26 p) (n - 26) (tot + be16 (drop 8 p)))"

definition store_samples :: "u8 list \<Rightarrow> u8 \<Rightarrow> nat \<Rightarrow> link_audio_sub_t \<Rightarrow> link_audio_sub_t option" where
  "store_samples p num_chan total_frames b =
     fold_option (\<lambda>f b. let off = f * unat num_chan * 2 in
                    if length p < off + 2 then None else Some (jbuf_push (be16 (drop off p)) b))
       [0..<total_frames] b"

definition handle_audio_buffer :: "u8 list \<Rightarrow> u32 \<Rightarrow> 'a audio_st_scheme \<Rightarrow> 'a audio_st_scheme option" where
  "handle_audio_buffer p n s =
     (if n < 8 + 8 + 4 + 26 + 1 + 4 + 1 + 2 then Some s
      else let
        channel = id_of_bytes p; session = id_of_bytes (drop 8 p); chunk_count = be32 (drop 16 p);
        p = drop 20 p; n = n - 20
      in if chunk_count = 0 \<or> n < chunk_count * 26 then Some s
      else do {
        (p, n, total_frames) \<leftarrow> chunk_frames (unat chunk_count) p n 0;
        if n < 1 + 4 + 1 + 2 then Some s
        else if length p < 8 then None
        else let
          codec = p ! 0; num_chan = p ! 5; num_bytes = be16 (drop 6 p); p = drop 8 p; n = n - 8
        in if codec \<noteq> 1 then Some s
        else if num_chan = 0 then Some s
        else if (ucast total_frames :: u32) * ucast num_chan * 2 \<noteq> ucast num_bytes then Some s
        else if n < ucast num_bytes then Some s
        else if id_cmp session (link_self_session s) \<noteq> 0 then Some s
        else case find_sub_for_channel channel s of
          None \<Rightarrow> Some s
        | Some k \<Rightarrow> do {
            b \<leftarrow> store_samples p num_chan (unat total_frames)
                  ((link_audio_subs s ! k)\<lparr>num_chan_remote := num_chan\<rparr>);
            Some (s\<lparr>link_audio_subs := (link_audio_subs s)[k := b\<lparr>last_count := last_count b + 1\<rparr>]\<rparr>)
          }
      })"

section \<open>Dispatch\<close>

definition link_audio_handle_rx ::
  "u32 \<Rightarrow> u8 list \<Rightarrow> u32 \<Rightarrow> u16 \<Rightarrow> 'a audio_st_scheme \<Rightarrow> 'a audio_st_scheme option" where
  "link_audio_handle_rx a buf saddr sport s =
     (if length buf < 8 + 12 then Some s
      else if memcmp (take 8 buf) kProtoAudio \<noteq> 0 then Some s
      else let mtype = buf ! 8; sender = id_of_bytes (drop 12 buf) in
        if id_cmp sender (link_self_id s) = 0 then Some s
        else let body = drop 20 buf; bodylen = of_nat (length buf - 20) in
          if mtype = 1 then do {
            (_, ctx, s) \<leftarrow> tlv_walk (a + 20) ann_handler body
              (\<lparr>ping_ht = 0, have_ping = False, peer_id = sender, peer_addr = saddr, peer_port = sport,
                peer_name = replicate LINK_AUDIO_NAME_MAX 0\<rparr>, s);
            Some (if have_ping ctx then send_pong saddr sport (ping_ht ctx) s else s)
          }
          else if mtype = 2 then do {
            (_, s) \<leftarrow> tlv_walk (a + 20) handle_aucb_entry body s;
            Some s
          }
          else if mtype = 3 then Some s
          else if mtype = 4 \<or> mtype = 5 then
            handle_channel_request mtype sender saddr sport (a + 20) body s
          else if mtype = 6 then handle_audio_buffer body bodylen s
          else Some s)"

section \<open>TDM frames and ticks\<close>

definition capture_channel :: "nat \<Rightarrow> nat \<Rightarrow> 'a audio_st_scheme \<Rightarrow> 'a audio_st_scheme option" where
  "capture_channel port ch s =
     (let (v, s) = tdm_read_rx (int port) (int ch) s;
          pos = s_tx_pkt_pos s ! port ! ch;
          buf = (s_tx_pkt_buf s ! port ! ch)[pos := v];
          s = s\<lparr>s_tx_pkt_buf := (s_tx_pkt_buf s)[port := (s_tx_pkt_buf s ! port)[ch := buf]]\<rparr>;
          pos = pos + 1
      in do {
        (pos, s) \<leftarrow> (if pos = AUDIO_FRAMES_PER_PKT then do {
            s \<leftarrow> (case find_index (\<lambda>c. loc_in_use c \<and> loc_tdm_port c = int port \<and> loc_tdm_channel c = int ch)
                        (link_audio_local s) of
                   None \<Rightarrow> Some s
                 | Some k \<Rightarrow> send_audio_buffer_for k buf s);
            Some (0, s)
          } else Some (pos, s));
        Some (s\<lparr>s_tx_pkt_pos := (s_tx_pkt_pos s)[port := (s_tx_pkt_pos s ! port)[ch := pos]]\<rparr>)
      })"

definition drain_sub :: "nat \<Rightarrow> nat \<Rightarrow> 'a audio_st_scheme \<Rightarrow> 'a audio_st_scheme" where
  "drain_sub port k s =
     (let b = link_audio_subs s ! k in
      if \<not> sub_in_use b \<or> sub_tdm_port b \<noteq> int port then s
      else case jbuf_pop b of
          None \<Rightarrow> s
        | Some (v, b) \<Rightarrow>
            tdm_write_tx (sub_tdm_port b) (sub_tdm_channel b) v
              (s\<lparr>link_audio_subs := (link_audio_subs s)[k := b]\<rparr>))"

definition link_audio_on_tdm_frame :: "nat \<Rightarrow> 'a audio_st_scheme \<Rightarrow> 'a audio_st_scheme option" where
  "link_audio_on_tdm_frame port s =
     (if LINK_NUM_TDM_PORTS \<le> port then Some s
      else do {
        s \<leftarrow> fold_option (capture_channel port) [0..<LINK_TDM_CHANNELS_PER_PORT] s;
        Some (fold (drain_sub port) [0..<LINK_AUDIO_MAX_REMOTE] s)
      })"

definition rerequest :: "u64 \<Rightarrow> nat \<Rightarrow> 'a audio_st_scheme \<Rightarrow> 'a audio_st_scheme" where
  "rerequest now k s =
     (let b = link_audio_subs s ! k in
      if \<not> sub_in_use b then s
      else if next_request_us b \<le> now then
        let s = send_channel_request 4 (source_addr b) (source_port b) (sub_channel_id b) s
        in s\<lparr>link_audio_subs := (link_audio_subs s)[k :=
               b\<lparr>next_request_us := now + of_nat (AUDIO_REQUEST_TTL_MS * 1000)\<rparr>]\<rparr>
      else s)"

definition link_audio_tick :: "'a audio_st_scheme \<Rightarrow> 'a audio_st_scheme" where
  "link_audio_tick s =
     (let (now, s) = host_time_us s;
          s = (if of_nat (LINK_DISCOVERY_BCAST_MS * 1000) < now - s_last_announce_us s
               then send_announcements s else s)
      in fold (rerequest now) [0..<LINK_AUDIO_MAX_REMOTE] s)"

section \<open>Subscription calls\<close>

definition link_audio_subscribe :: "int \<Rightarrow> int \<Rightarrow> link_id \<Rightarrow> 'a audio_st_scheme \<Rightarrow> int \<times> 'a audio_st_scheme" where
  "link_audio_subscribe port ch i s =
     (case find_index (is_remote i) (link_audio_remote s) of
        None \<Rightarrow> (- 1, s)
      | Some k \<Rightarrow>
          let r = link_audio_remote s ! k in
          case find_index (\<lambda>b. \<not> sub_in_use b) (link_audio_subs s) of
            None \<Rightarrow> (- 2, s)
          | Some j \<Rightarrow>
              (0, s\<lparr>link_audio_subs := (link_audio_subs s)[j :=
                    zero_sub\<lparr>sub_in_use := True, sub_channel_id := rem_channel_id r,
                      source_peer := rem_peer_id r, source_addr := endpoint_addr r,
                      source_port := endpoint_port r, sub_tdm_port := port, sub_tdm_channel := ch,
                      next_request_us := 0\<rparr>]\<rparr>))"

definition link_audio_unsubscribe :: "link_id \<Rightarrow> 'a audio_st_scheme \<Rightarrow> int \<times> 'a audio_st_scheme" where
  "link_audio_unsubscribe i s =
     (case find_index (\<lambda>b. sub_in_use b \<and> id_cmp (sub_channel_id b) i = 0) (link_audio_subs s) of
        None \<Rightarrow> (- 1, s)
      | Some k \<Rightarrow>
          let b = link_audio_subs s ! k;
              s = send_channel_request 5 (source_addr b) (source_port b) (sub_channel_id b) s
          in (0, s\<lparr>link_audio_subs := (link_audio_subs s)[k := b\<lparr>sub_in_use := False\<rparr>]\<rparr>))"

end
