(* ===== verification/Audio_Inv.thy ===== *)
theory Audio_Inv
  imports Link_Audio
begin

text \<open>
  The invariant of the audio tables, kept by every operation of link\_audio.c, and the part of the
  firmware's state those operations never touch.
\<close>

section \<open>What link\_audio.c leaves alone\<close>

text \<open>
  Everything of discovery, session and measurement; the audio code only reads clocks, sends
  datagrams and changes its own tables.
\<close>

definition core :: "'a meas_st_scheme \<Rightarrow> meas_st" where
  "core s = meas_st.truncate (s\<lparr>n_reads := 0, net_log := []\<rparr>)"

lemma core_update [simp]:
  "core (s1\<lparr>n_reads := n\<rparr>) = core s1" "core (s1\<lparr>net_log := l\<rparr>) = core s1" "core (logged d s1) = core s1"
  "core (s2\<lparr>tdm_accesses := k\<rparr>) = core s2" "core (s2\<lparr>tdm_tx_csr := f\<rparr>) = core s2"
  "core (s2\<lparr>tdm_ctrl := c\<rparr>) = core s2" "core (s2\<lparr>s_last_count := m\<rparr>) = core s2"
  "core (s3\<lparr>link_audio_local := x1\<rparr>) = core s3" "core (s3\<lparr>link_audio_remote := x2\<rparr>) = core s3"
  "core (s3\<lparr>link_audio_subs := x3\<rparr>) = core s3" "core (s3\<lparr>s_last_announce_us := x4\<rparr>) = core s3"
  "core (s3\<lparr>s_tx_pkt_buf := x5\<rparr>) = core s3" "core (s3\<lparr>s_tx_pkt_pos := x6\<rparr>) = core s3"
  by (simp_all add: core_def meas_st.truncate_def logged_def)

lemma core_fields [simp]:
  "link_peers (core s) = link_peers s" "link_self_id (core s) = link_self_id s" "meas (core s) = meas s"
  "bp_flags (core s) = bp_flags s" "s_flags (core s) = s_flags s"
  "link_self_session (core s) = link_self_session s" "link_self_timeline (core s) = link_self_timeline s"
  by (simp_all add: core_def meas_st.truncate_def)

lemma core_invs:
  "peers_inv s \<longleftrightarrow> peers_inv (core s)" "meas_inv (meas s) \<longleftrightarrow> meas_inv (meas (core s))"
  "flags_inv s \<longleftrightarrow> flags_inv (core s)" "length (netif_ip6 s) = length (netif_ip6 (core s))"
  by (simp_all add: peers_inv_def flags_inv_def core_def meas_st.truncate_def)

lemma core_tdm [simp]:
  "core (snd (tdm_read_rx p c s)) = core s" "core (tdm_write_tx p c v s) = core s"
  by (simp_all add: tdm_read_rx_def rx_p_def tdm_access_def tdm_write_tx_def tx_p_def)

section \<open>The invariant\<close>

definition tx_inv :: "'a audio_st_scheme \<Rightarrow> bool" where
  "tx_inv s \<longleftrightarrow> length (s_tx_pkt_buf s) = LINK_NUM_TDM_PORTS \<and> length (s_tx_pkt_pos s) = LINK_NUM_TDM_PORTS \<and>
     (\<forall>p<LINK_NUM_TDM_PORTS.
        length (s_tx_pkt_buf s ! p) = LINK_TDM_CHANNELS_PER_PORT \<and>
        length (s_tx_pkt_pos s ! p) = LINK_TDM_CHANNELS_PER_PORT \<and>
        (\<forall>c<LINK_TDM_CHANNELS_PER_PORT.
           length (s_tx_pkt_buf s ! p ! c) = AUDIO_FRAMES_PER_PKT \<and>
           s_tx_pkt_pos s ! p ! c < AUDIO_FRAMES_PER_PKT))"

definition audio_inv :: "'a audio_st_scheme \<Rightarrow> bool" where
  "audio_inv s \<longleftrightarrow>
     length (link_audio_local s) = MAX_LOCAL_CHANNELS \<and> (\<forall>c\<in>set (link_audio_local s). subs_inv c) \<and>
     length (link_audio_remote s) = LINK_AUDIO_MAX_REMOTE \<and>
     distinct_keys rem_in_use rem_channel_id (link_audio_remote s) \<and>
     length (link_audio_subs s) = LINK_AUDIO_MAX_REMOTE \<and> (\<forall>b\<in>set (link_audio_subs s). ring_inv b) \<and>
     tx_inv s"

abbreviation claim_remote :: "link_id \<Rightarrow> link_audio_remote_t \<Rightarrow> link_audio_remote_t" where
  "claim_remote i r \<equiv> r\<lparr>rem_in_use := True, rem_channel_id := i\<rparr>"

lemma zero_entries [simp]: "\<not> rem_in_use zero_remote" "subs_inv zero_local" "ring_inv zero_sub"
  by (simp_all add: zero_remote_def zero_local_def zero_sub_def subs_inv_def subscribers_def ring_inv_def audio_consts)

interpretation remotes: slot_table rem_in_use rem_channel_id zero_remote claim_remote
  by unfold_locales simp_all

lemma audio_inv_update [simp]:
  "audio_inv (s\<lparr>n_reads := n\<rparr>) = audio_inv s" "audio_inv (s\<lparr>net_log := l\<rparr>) = audio_inv s"
  "audio_inv (logged d s) = audio_inv s" "audio_inv (s\<lparr>s_last_announce_us := x\<rparr>) = audio_inv s"
  "audio_inv (s\<lparr>tdm_accesses := k\<rparr>) = audio_inv s" "audio_inv (s\<lparr>tdm_tx_csr := f\<rparr>) = audio_inv s"
  by (simp_all add: audio_inv_def tx_inv_def logged_def)

lemma audio_inv_tdm [simp]:
  "audio_inv (snd (tdm_read_rx p c s)) = audio_inv s" "audio_inv (tdm_write_tx p c v s) = audio_inv s"
  by (simp_all add: tdm_read_rx_def rx_p_def tdm_access_def tdm_write_tx_def tx_p_def)

lemma audio_inv_local:
  "audio_inv s \<Longrightarrow> subs_inv c \<Longrightarrow> audio_inv (s\<lparr>link_audio_local := (link_audio_local s)[k := c]\<rparr>)"
  by (auto simp: audio_inv_def tx_inv_def dest: in_set_updateD)

lemma audio_inv_sub:
  "audio_inv s \<Longrightarrow> ring_inv b \<Longrightarrow> audio_inv (s\<lparr>link_audio_subs := (link_audio_subs s)[k := b]\<rparr>)"
  by (auto simp: audio_inv_def tx_inv_def dest: in_set_updateD)

lemma audio_inv_remote:
  "audio_inv s \<Longrightarrow> length rs = LINK_AUDIO_MAX_REMOTE \<Longrightarrow> distinct_keys rem_in_use rem_channel_id rs \<Longrightarrow>
   audio_inv (s\<lparr>link_audio_remote := rs\<rparr>)"
  by (simp add: audio_inv_def tx_inv_def)

section \<open>Every operation keeps it\<close>

text \<open>What the node publishes: its name, and for every local channel whether it is in use, its
  identifier, name, port and slot. Fixed at initialisation.\<close>

definition channel_key :: "link_audio_local_t \<Rightarrow> bool \<times> link_id \<times> u8 list \<times> int \<times> int" where
  "channel_key c = (loc_in_use c, loc_channel_id c, loc_name c, loc_tdm_port c, loc_tdm_channel c)"

definition published :: "'a audio_st_scheme \<Rightarrow> u8 list \<times> (bool \<times> link_id \<times> u8 list \<times> int \<times> int) list" where
  "published s = (s_peer_name s, map channel_key (link_audio_local s))"

lemma published_update [simp]:
  "published (s\<lparr>n_reads := n\<rparr>) = published s" "published (s\<lparr>net_log := l\<rparr>) = published s"
  "published (logged d s) = published s" "published (s\<lparr>s_last_announce_us := x\<rparr>) = published s"
  "published (s\<lparr>tdm_accesses := k\<rparr>) = published s" "published (s\<lparr>tdm_tx_csr := f\<rparr>) = published s"
  "published (s\<lparr>link_audio_subs := x3\<rparr>) = published s" "published (s\<lparr>link_audio_remote := x2\<rparr>) = published s"
  "published (s\<lparr>s_tx_pkt_buf := x5\<rparr>) = published s" "published (s\<lparr>s_tx_pkt_pos := x6\<rparr>) = published s"
  "published (snd (tdm_read_rx p c s)) = published s" "published (tdm_write_tx p c v s) = published s"
  by (simp_all add: published_def logged_def tdm_read_rx_def rx_p_def tdm_access_def tdm_write_tx_def tx_p_def)

lemma length_c_str: "length (c_str p) \<le> length p"
  by (simp add: c_str_def length_takeWhile_le)

lemma c_str_padded: "length (c_str (t @ replicate n 0)) \<le> length t"
  by (induction t) (simp_all add: c_str_def takeWhile_replicate)

text \<open>The names of the remote channels are terminated strings.\<close>

definition short_names :: "link_audio_remote_t list \<Rightarrow> bool" where
  "short_names rs \<longleftrightarrow> (\<forall>r\<in>set rs. length (c_str (rem_name r)) < LINK_AUDIO_NAME_MAX)"

lemma short_names_update: "short_names rs \<Longrightarrow> length (c_str (rem_name r)) < LINK_AUDIO_NAME_MAX \<Longrightarrow> short_names (rs[k := r])"
  by (auto simp: short_names_def dest: in_set_updateD)

text \<open>The facts proved of each operation.\<close>

definition audio_ok :: "'a audio_st_scheme \<Rightarrow> 'a audio_st_scheme \<Rightarrow> bool" where
  "audio_ok s t \<longleftrightarrow> core t = core s \<and> published t = published s \<and> audio_st.more t = audio_st.more s \<and>
     (audio_inv s \<longrightarrow> audio_inv t) \<and> (short_names (link_audio_remote s) \<longrightarrow> short_names (link_audio_remote t))"

lemma audio_ok_refl [simp]: "audio_ok s s"
  by (simp add: audio_ok_def)

lemma audio_ok_trans [trans]: "audio_ok s t \<Longrightarrow> audio_ok t u \<Longrightarrow> audio_ok s u"
  by (simp add: audio_ok_def)

lemma audio_ok_fold:
  "(\<And>x t. audio_ok t (f x t)) \<Longrightarrow> audio_ok s (fold f xs s)"
  by (rule fold_inv [where P = "audio_ok s"]) (auto intro: audio_ok_trans)

lemma audio_ok_fold_option:
  assumes "\<And>x t u. x \<in> set xs \<Longrightarrow> f x t = Some u \<Longrightarrow> audio_ok t u" "fold_option f xs s = Some t"
  shows "audio_ok s t"
  using fold_option_inv [where P = "audio_ok s" and f = f, OF _ audio_ok_refl assms(2)] assms(1)
  by (meson audio_ok_trans)

lemma audio_ok_hw [simp]:
  "audio_ok s (s\<lparr>n_reads := n\<rparr>)" "audio_ok s (logged d s)" "audio_ok s (snd (tdm_read_rx p c s))"
  "audio_ok s (tdm_write_tx p c v s)" "audio_ok s (s\<lparr>s_last_announce_us := x\<rparr>)"
  by (simp_all add: audio_ok_def) (simp_all add: logged_def tdm_read_rx_def rx_p_def tdm_access_def tdm_write_tx_def tx_p_def)

lemma send_pong_ok: "audio_ok s (send_pong addr port t s)"
  by (simp add: send_pong_def Let_def)

lemma send_channel_request_ok: "audio_ok s (send_channel_request m addr port i s)"
  by (simp add: send_channel_request_def Let_def)

lemma encode_peer_announcement_ok: "audio_ok s (snd (encode_peer_announcement ping s))"
  by (simp add: encode_peer_announcement_def Let_def host_time_us_eq case_prod_beta)

lemma announce_to_ok: "audio_ok s (announce_to ps first s)"
proof (induction ps arbitrary: first s)
  case (Cons p ps)
  have "audio_ok s (logged d (snd (encode_peer_announcement first s)))" for d
    using encode_peer_announcement_ok audio_ok_hw(2) by (rule audio_ok_trans)
  from audio_ok_trans [OF this Cons.IH] Cons.IH show ?case
    by (simp add: case_prod_beta)
qed simp

lemma send_announcements_ok: "audio_ok s (send_announcements s)"
  using announce_to_ok [of s "link_peers s" True]
  by (auto simp: send_announcements_def host_time_us_eq Let_def audio_ok_def)

lemma subscriber_ops_ok:
  assumes "k < length (link_audio_local s)" "\<And>c. subs_inv c \<Longrightarrow> subs_inv (f c)" "\<And>c. channel_key (f c) = channel_key c"
  shows "audio_ok s (s\<lparr>link_audio_local := (link_audio_local s)[k := f (link_audio_local s ! k)]\<rparr>)"
proof -
  have "map channel_key ((link_audio_local s)[k := f (link_audio_local s ! k)]) = map channel_key (link_audio_local s)"
    using assms(1,3) by (simp add: map_update list_update_same_conv)
  then show ?thesis
    using assms(1,2) by (auto simp: audio_ok_def published_def audio_inv_def [of s] intro!: audio_inv_local)
qed

lemma subscriber_ops_key [simp]:
  "channel_key (add_subscriber i ip port c) = channel_key c" "channel_key (remove_subscriber ip port c) = channel_key c"
  "channel_key (c\<lparr>next_send_count := n\<rparr>) = channel_key c"
  by (simp_all add: channel_key_def add_subscriber_def remove_subscriber_def Let_def split: option.split)

lemma handle_channel_request_ok:
  assumes "handle_channel_request m i ip port a body s = Some t"
  shows "audio_ok s t"
proof -
  obtain r cid where "t = (case find_local_channel cid s of
         None \<Rightarrow> s
       | Some k \<Rightarrow>
           let c = link_audio_local s ! k;
               c = (if m = 4 then add_subscriber i ip port c else remove_subscriber ip port c)
           in s\<lparr>link_audio_local := (link_audio_local s)[k := c]\<rparr>)"
    using assms by (auto simp: handle_channel_request_def bind_eq_Some_conv)
  then show ?thesis
    using subscriber_ops_ok [of _ s "add_subscriber i ip port"]
      subscriber_ops_ok [of _ s "remove_subscriber ip port"]
    by (auto simp: Let_def find_local_channel_def add_subscriber_inv remove_subscriber_inv
        dest: find_index_bound split: option.split)
qed

lemma drop_channel_ok: "audio_ok s (drop_channel i s)"
proof -
  have "distinct_keys rem_in_use rem_channel_id (map (drop_remote i) (link_audio_remote s))"
    if "audio_inv s"
    using that by (intro remotes.distinct_map) (auto simp: audio_inv_def drop_remote_def split: if_splits)
  then show ?thesis
    by (auto simp: audio_ok_def drop_channel_def audio_inv_def tx_inv_def drop_sub_def ring_inv_def drop_remote_def short_names_def)
qed

lemma drop_channels_ok: "drop_channels k v s = Some t \<Longrightarrow> audio_ok s t"
  by (induction k v s rule: drop_channels.induct)
    (auto split: if_splits intro: audio_ok_trans [OF drop_channel_ok])

interpretation aucb_reader: tlv_reader handle_aucb_entry "audio_ok s" for s
proof unfold_locales
  fix c t :: "'a audio_st_scheme" and n :: u32 and v key r
  assume "audio_ok s c" "handle_aucb_entry key v n c = Some (r, t)"
  moreover from this(2) have "audio_ok c t"
    by (auto simp: handle_aucb_entry_def Let_def bind_eq_Some_conv drop_channels_ok split: if_splits)
  ultimately show "audio_ok s t" by (blast intro: audio_ok_trans)
qed

lemma remote_write_ok:
  assumes "length rs = length (link_audio_remote s)"
    "audio_inv s \<Longrightarrow> distinct_keys rem_in_use rem_channel_id rs" "short_names (link_audio_remote s) \<Longrightarrow> short_names rs"
  shows "audio_ok s (s\<lparr>n_reads := n, link_audio_remote := rs\<rparr>)"
  using assms audio_inv_remote [of "s\<lparr>n_reads := n\<rparr>" rs]
  by (simp add: audio_ok_def) (simp add: audio_inv_def)

text \<open>The entry an announced channel gets; a known channel keeps the peer it was first heard from.\<close>

definition heard_remote :: "ann_ctx \<Rightarrow> u8 list \<Rightarrow> u64 \<Rightarrow> link_audio_remote_t \<Rightarrow> link_audio_remote_t" where
  "heard_remote ctx name now r = r\<lparr>rem_name := name, endpoint_addr := peer_addr ctx,
     endpoint_port := peer_port ctx, last_seen_us := now\<rparr>"

lemma heard_remote_fields [simp]:
  "rem_in_use (heard_remote ctx name now r) = rem_in_use r"
  "rem_channel_id (heard_remote ctx name now r) = rem_channel_id r"
  "rem_peer_id (heard_remote ctx name now r) = rem_peer_id r"
  "rem_name (heard_remote ctx name now r) = name"
  "endpoint_addr (heard_remote ctx name now r) = peer_addr ctx"
  "endpoint_port (heard_remote ctx name now r) = peer_port ctx"
  by (simp_all add: heard_remote_def)

lemma note_remote_known:
  assumes "find_index (is_remote i) (link_audio_remote s) = Some k"
  shows "note_remote ctx name i s = s\<lparr>n_reads := n_reads s + 2, link_audio_remote :=
    (link_audio_remote s)[k := heard_remote ctx name (host_now s) (link_audio_remote s ! k)]\<rparr>"
proof -
  let ?scan = "scan_slots (is_remote i) (\<lambda>r. \<not> rem_in_use r) (link_audio_remote s) 0 None"
  obtain z where "?scan = (Some k, z)"
    using assms scan_slots_hit [of "is_remote i" "\<lambda>r. \<not> rem_in_use r" "link_audio_remote s"]
    by (cases ?scan) (simp only: fst_conv)
  then show ?thesis
    by (simp only: note_remote_def Let_def host_time_us_eq prod.case option.case heard_remote_def) simp
qed

lemma note_remote_new:
  assumes "find_index (is_remote i) (link_audio_remote s) = None"
  shows "note_remote ctx name i s = (case find_index (\<lambda>r. \<not> rem_in_use r) (link_audio_remote s) of
      None \<Rightarrow> s
    | Some k \<Rightarrow> s\<lparr>n_reads := n_reads s + 2, link_audio_remote := (link_audio_remote s)[k :=
        claim_remote i (heard_remote ctx name (host_now s) ((link_audio_remote s ! k)\<lparr>rem_peer_id := peer_id ctx\<rparr>))]\<rparr>)"
proof -
  have r: "r\<lparr>rem_in_use := True, rem_peer_id := p, rem_channel_id := i, rem_name := name, endpoint_addr := a,
      endpoint_port := q, last_seen_us := t\<rparr> = claim_remote i (r\<lparr>rem_peer_id := p, rem_name := name,
      endpoint_addr := a, endpoint_port := q, last_seen_us := t\<rparr>)" for r p a q t
    by (rule link_audio_remote_t.equality) simp_all
  show ?thesis
    using scan_slots_miss [OF assms, of "\<lambda>r. \<not> rem_in_use r"]
    by (cases "find_index (\<lambda>r. \<not> rem_in_use r) (link_audio_remote s)")
      (simp_all only: note_remote_def Let_def host_time_us_eq prod.case option.case heard_remote_def flip: r, simp_all)
qed

lemma note_remote_writes:
  "note_remote ctx name i s = s \<or> (\<exists>n k r. k < length (link_audio_remote s) \<and> rem_name r = name \<and>
     (audio_inv s \<longrightarrow> distinct_keys rem_in_use rem_channel_id ((link_audio_remote s)[k := r])) \<and>
     note_remote ctx name i s = s\<lparr>n_reads := n, link_audio_remote := (link_audio_remote s)[k := r]\<rparr>)"
proof (cases "find_index (is_remote i) (link_audio_remote s)")
  case (Some k)
  let ?r = "heard_remote ctx name (host_now s) (link_audio_remote s ! k)"
  have "audio_inv s \<longrightarrow> distinct_keys rem_in_use rem_channel_id ((link_audio_remote s)[k := ?r])"
    by (simp add: audio_inv_def remotes.distinct_rewrite)
  then show ?thesis
    using note_remote_known [OF Some, of ctx name] find_index_bound [OF Some] heard_remote_fields(4) by metis
next
  case None
  show ?thesis
  proof (cases "find_index (\<lambda>r. \<not> rem_in_use r) (link_audio_remote s)")
    case (Some k)
    let ?r = "claim_remote i (heard_remote ctx name (host_now s) ((link_audio_remote s ! k)\<lparr>rem_peer_id := peer_id ctx\<rparr>))"
    have "audio_inv s \<longrightarrow> distinct_keys rem_in_use rem_channel_id ((link_audio_remote s)[k := ?r])"
      using None find_index_bound [OF Some] by (simp add: audio_inv_def remotes.distinct_claim)
    moreover have "rem_name ?r = name" by simp
    ultimately show ?thesis
      using note_remote_new [OF None, of ctx name, unfolded Some option.case] find_index_bound [OF Some] by metis
  qed (simp add: note_remote_new [OF None])
qed

lemma note_remote_inv: "audio_inv s \<Longrightarrow> audio_inv (note_remote ctx name i s)"
  using note_remote_writes [of ctx name i s] audio_inv_remote [of "s\<lparr>n_reads := n\<rparr>" for n]
  by (auto simp: audio_inv_def [of s])

lemma note_remote_ok:
  assumes "length (c_str name) < LINK_AUDIO_NAME_MAX"
  shows "audio_ok s (note_remote ctx name i s)"
  using note_remote_writes [of ctx name i s] assms by (auto intro!: remote_write_ok short_names_update)

lemma read_channels_ok: "read_channels k ctx v n s = Some (r, t) \<Longrightarrow> audio_ok s t"
proof (induction k arbitrary: v n s)
  case (Suc k)
  have cut: "length (c_str (take (min l (LINK_AUDIO_NAME_MAX - 1)) v @
      replicate (LINK_AUDIO_NAME_MAX - min l (LINK_AUDIO_NAME_MAX - 1)) 0)) < LINK_AUDIO_NAME_MAX" for l v
    using c_str_padded [of "take (min l 31) v" "32 - min l 31"] by (simp add: audio_consts)
  from Suc have "t = s \<or> (\<exists>v' n' name i. length (c_str name) < LINK_AUDIO_NAME_MAX \<and>
      read_channels k ctx v' n' (note_remote ctx name i s) = Some (r, t))"
    using cut by (auto simp: Let_def split: if_splits)
  then show ?case using Suc.IH note_remote_ok audio_ok_trans by fastforce
qed simp

interpretation ann_reader: tlv_reader ann_handler "\<lambda>cs. audio_ok s (snd cs)" for s
proof unfold_locales
  fix c t :: "ann_ctx \<times> 'a audio_st_scheme" and n :: u32 and v key r
  assume "audio_ok s (snd c)" "ann_handler key v n c = Some (r, t)"
  moreover from this(2) have "audio_ok (snd c) (snd t)"
    by (auto simp: ann_handler_def Let_def bind_eq_Some_conv case_prod_beta read_channels_ok split: if_splits)
  ultimately show "audio_ok s (snd t)" by (blast intro: audio_ok_trans)
qed

lemma fold_sends_ok:
  "audio_ok s (fold (\<lambda>j s. snd (net_udp_send_v4_unicast (f j) (g j) q buf s)) js s)"
  by (rule audio_ok_fold) simp

lemma next_send_count_inv: "subs_inv c \<Longrightarrow> subs_inv (c\<lparr>next_send_count := n\<rparr>)"
  by (simp add: subs_inv_def subscribers_def subscriber_def [abs_def])

lemma send_audio_buffer_for_ok:
  assumes "send_audio_buffer_for k smp s = Some t" "k < length (link_audio_local s)"
  shows "audio_ok s t"
proof (cases "num_subscribers (link_audio_local s ! k) = 0")
  case True
  with assms show ?thesis by (simp add: send_audio_buffer_for_def Let_def)
next
  case False
  let ?c = "link_audio_local s ! k"
  let ?s = "s\<lparr>n_reads := n_reads s + 3, link_audio_local := (link_audio_local s)[k :=
      ?c\<lparr>next_send_count := next_send_count ?c + 1\<rparr>]\<rparr>"
  from assms False obtain buf where t: "t = fold (\<lambda>j s. snd (net_udp_send_v4_unicast (sub_addr ?c ! j)
      (sub_port ?c ! j) LINK_DISCOVERY_PORT buf s)) [0..<num_subscribers ?c] ?s"
    by (auto simp: send_audio_buffer_for_def Let_def ghost_time_us_eq bind_eq_Some_conv)
  have "audio_ok (s\<lparr>n_reads := n_reads s + 3\<rparr>) ?s"
    using subscriber_ops_ok [of k "s\<lparr>n_reads := n_reads s + 3\<rparr>" "\<lambda>c. c\<lparr>next_send_count := next_send_count c + 1\<rparr>"]
      assms(2) next_send_count_inv by simp
  then have "audio_ok s ?s" by (rule audio_ok_trans [OF audio_ok_hw(1)])
  then show ?thesis unfolding t using fold_sends_ok by (rule audio_ok_trans)
qed

lemma ring_inv_update [simp]:
  "ring_inv (b\<lparr>num_chan_remote := x\<rparr>) = ring_inv b" "ring_inv (b\<lparr>last_count := y\<rparr>) = ring_inv b"
  "ring_inv (b\<lparr>next_request_us := z\<rparr>) = ring_inv b" "ring_inv (b\<lparr>sub_in_use := w\<rparr>) = ring_inv b"
  by (simp_all add: ring_inv_def)

lemma store_samples_inv: "store_samples p c n b = Some b' \<Longrightarrow> ring_inv b \<Longrightarrow> ring_inv b'"
  unfolding store_samples_def
  by (rule fold_option_inv [where P = ring_inv]) (auto simp: Let_def jbuf_push_refines split: if_splits)

lemma sub_write_ok:
  assumes "k < length (link_audio_subs s)" "ring_inv (link_audio_subs s ! k) \<Longrightarrow> ring_inv b"
  shows "audio_ok s (s\<lparr>link_audio_subs := (link_audio_subs s)[k := b]\<rparr>)"
proof -
  have "ring_inv (link_audio_subs s ! k)" if "audio_inv s"
    using that assms(1) by (simp add: audio_inv_def)
  then show ?thesis using assms(2) audio_inv_sub [of s b k] by (simp add: audio_ok_def)
qed

text \<open>A buffer either changes nothing or reaches one subscription, samples and count together.\<close>

lemma handle_audio_buffer_cases:
  assumes "handle_audio_buffer p n s = Some t"
  obtains (ignored) "t = s"
    | (stored) channel k q c m b where "find_sub_for_channel channel s = Some k"
        "store_samples q c m ((link_audio_subs s ! k)\<lparr>num_chan_remote := c\<rparr>) = Some b"
        "t = s\<lparr>link_audio_subs := (link_audio_subs s)[k := b\<lparr>last_count := last_count b + 1\<rparr>]\<rparr>"
proof (cases "t = s")
  case False
  note [simp del] = id_cmp_eq_0
  from assms False obtain q m tot where chunks:
    "chunk_frames (unat (be32 (drop 16 p))) (drop 20 p) (n - 20) 0 = Some (q, m, tot)"
    by (auto simp: handle_audio_buffer_def Let_def bind_eq_Some_conv simp del: drop_drop split: if_splits)
  from assms False obtain k b where
    "find_sub_for_channel (id_of_bytes p) s = Some k"
    "store_samples (drop 8 q) (q ! 5) (unat tot) ((link_audio_subs s ! k)\<lparr>num_chan_remote := q ! 5\<rparr>) = Some b"
    "t = s\<lparr>link_audio_subs := (link_audio_subs s)[k := b\<lparr>last_count := last_count b + 1\<rparr>]\<rparr>"
    unfolding handle_audio_buffer_def Let_def
    by (auto simp: chunks bind_eq_Some_conv simp del: drop_drop split: if_splits option.splits)
  then show thesis by (rule stored)
qed (rule ignored)

lemma handle_audio_buffer_ok:
  assumes "handle_audio_buffer p n s = Some t"
  shows "audio_ok s t"
  using assms
proof (cases rule: handle_audio_buffer_cases)
  case (stored channel k q c m b)
  then have "k < length (link_audio_subs s)"
    unfolding find_sub_for_channel_def by (intro find_index_bound)
  then show ?thesis
    unfolding stored(3) by (rule sub_write_ok) (use store_samples_inv [OF stored(2)] in simp)
qed simp

text \<open>What the dispatch leaves to do, by message type.\<close>

lemma link_audio_handle_rx_cases:
  fixes a :: u32 and s t :: "'a audio_st_scheme"
  assumes "link_audio_handle_rx a buf ip port s = Some t"
  obtains (ignored) "t = s"
    | (announcement) r c u where "tlv_walk (a + 20) ann_handler (drop 20 buf)
          (\<lparr>ping_ht = 0, have_ping = False, peer_id = id_of_bytes (drop 12 buf), peer_addr = ip,
            peer_port = port, peer_name = replicate LINK_AUDIO_NAME_MAX 0\<rparr>, s) = Some (r, c, u)"
        "t = (if have_ping c then send_pong ip port (ping_ht c) u else u)"
    | (byes) r where "tlv_walk (a + 20) handle_aucb_entry (drop 20 buf) s = Some (r, t)"
    | (request) "handle_channel_request (buf ! 8) (id_of_bytes (drop 12 buf)) ip port (a + 20) (drop 20 buf) s = Some t"
    | (audio) "handle_audio_buffer (drop 20 buf) (of_nat (length buf - 20)) s = Some t"
proof -
  note [simp del] = id_cmp_eq_0
  note assms' = assms [unfolded link_audio_handle_rx_def Let_def]
  show thesis
  proof (cases "length buf < 8 + 12 \<or> memcmp (take 8 buf) kProtoAudio \<noteq> 0 \<or>
      id_cmp (id_of_bytes (drop 12 buf)) (link_self_id s) = 0")
    case True
    with assms' have "t = s" by (auto split: if_splits)
    then show thesis by (rule ignored)
  next
    case False
    then have header: "\<not> length buf < 8 + 12" "\<not> memcmp (take 8 buf) kProtoAudio \<noteq> 0"
      "id_cmp (id_of_bytes (drop 12 buf)) (link_self_id s) \<noteq> 0" by blast+
    note body = assms' [unfolded if_not_P [OF header(1)] if_not_P [OF header(2)] if_not_P [OF header(3)]]
    consider "buf ! 8 = 1" | "buf ! 8 = 2" | "buf ! 8 = 3" | "buf ! 8 = 4 \<or> buf ! 8 = 5"
      | "buf ! 8 = 6" | "buf ! 8 \<notin> {1, 2, 3, 4, 5, 6}" by blast
    then show thesis
    proof cases
      case 1
      then show thesis using body announcement by (auto simp: bind_eq_Some_conv)
    next
      case 2
      then show thesis using body byes by (auto simp: bind_eq_Some_conv)
    next
      case 3
      then show thesis using body ignored by simp
    next
      case 4
      then show thesis using body request by auto
    next
      case 5
      then show thesis using body audio by simp
    next
      case 6
      then show thesis using body ignored by simp
    qed
  qed
qed

lemma link_audio_handle_rx_ok:
  assumes "link_audio_handle_rx a buf ip port s = Some t"
  shows "audio_ok s t"
  using assms
proof (cases rule: link_audio_handle_rx_cases)
  case (announcement r c u)
  have "audio_ok s u" using ann_reader.walk_keeps [OF _ announcement(1)] by simp
  then show ?thesis by (auto simp: announcement(2) intro: audio_ok_trans [OF _ send_pong_ok])
next
  case (byes r)
  then show ?thesis using aucb_reader.walk_keeps [OF audio_ok_refl] by blast
qed (auto intro: handle_channel_request_ok handle_audio_buffer_ok)

lemma tx_writes_ok:
  assumes "port < LINK_NUM_TDM_PORTS" "ch < LINK_TDM_CHANNELS_PER_PORT"
  shows "length buf = AUDIO_FRAMES_PER_PKT \<Longrightarrow>
      audio_ok s (s\<lparr>s_tx_pkt_buf := (s_tx_pkt_buf s)[port := (s_tx_pkt_buf s ! port)[ch := buf]]\<rparr>)"
    "pos < AUDIO_FRAMES_PER_PKT \<Longrightarrow>
      audio_ok s (s\<lparr>s_tx_pkt_pos := (s_tx_pkt_pos s)[port := (s_tx_pkt_pos s ! port)[ch := pos]]\<rparr>)"
  using assms by (auto simp: audio_ok_def audio_inv_def tx_inv_def nth_list_update)

lemma capture_channel_ok:
  assumes "capture_channel port ch s = Some t" "port < LINK_NUM_TDM_PORTS" "ch < LINK_TDM_CHANNELS_PER_PORT"
    and inv: "audio_inv s"
  shows "audio_ok s t"
proof -
  let ?v = "fst (tdm_read_rx (int port) (int ch) s)" and ?s = "snd (tdm_read_rx (int port) (int ch) s)"
  let ?pos = "s_tx_pkt_pos ?s ! port ! ch" and ?buf = "(s_tx_pkt_buf ?s ! port ! ch)[s_tx_pkt_pos ?s ! port ! ch := ?v]"
  let ?b = "?s\<lparr>s_tx_pkt_buf := (s_tx_pkt_buf ?s)[port := (s_tx_pkt_buf ?s ! port)[ch := ?buf]]\<rparr>"
  have tx: "tx_inv ?s" using inv audio_inv_tdm(1) [of "int port" "int ch" s] by (simp add: audio_inv_def)
  then have buf: "length ?buf = AUDIO_FRAMES_PER_PKT" and pos: "?pos < AUDIO_FRAMES_PER_PKT"
    using assms(2,3) by (simp_all add: tx_inv_def)
  have b: "audio_ok s ?b" using tx_writes_ok(1) [OF assms(2,3) buf] audio_ok_trans [OF audio_ok_hw(3)] by blast
  obtain p u where step: "p < AUDIO_FRAMES_PER_PKT" "audio_ok ?b u"
    and t: "t = u\<lparr>s_tx_pkt_pos := (s_tx_pkt_pos u)[port := (s_tx_pkt_pos u ! port)[ch := p]]\<rparr>"
  proof (cases "?pos + 1 = AUDIO_FRAMES_PER_PKT")
    case False
    moreover from this assms(1) have "t = ?b\<lparr>s_tx_pkt_pos := (s_tx_pkt_pos ?b)[port := (s_tx_pkt_pos ?b ! port)[ch := ?pos + 1]]\<rparr>"
      by (simp add: capture_channel_def Let_def case_prod_beta)
    ultimately show thesis using that pos by (metis Suc_eq_plus1 Suc_lessI audio_ok_refl)
  next
    case True
    let ?find = "find_index (\<lambda>c. loc_in_use c \<and> loc_tdm_port c = int port \<and> loc_tdm_channel c = int ch) (link_audio_local ?b)"
    from True assms(1) obtain u where
      "(case ?find of None \<Rightarrow> Some ?b | Some k \<Rightarrow> send_audio_buffer_for k ?buf ?b) = Some u"
      and t: "t = u\<lparr>s_tx_pkt_pos := (s_tx_pkt_pos u)[port := (s_tx_pkt_pos u ! port)[ch := 0]]\<rparr>"
      by (auto simp: capture_channel_def Let_def case_prod_beta bind_eq_Some_conv)
    then have "audio_ok ?b u"
    proof (cases ?find)
      case (Some k)
      with \<open>(case ?find of None \<Rightarrow> Some ?b | Some k \<Rightarrow> send_audio_buffer_for k ?buf ?b) = Some u\<close>
      have "send_audio_buffer_for k ?buf ?b = Some u" by (simp only: option.case)
      then show ?thesis using find_index_bound [OF Some] by (rule send_audio_buffer_for_ok)
    qed simp
    moreover have "(0::nat) < AUDIO_FRAMES_PER_PKT" by (simp add: audio_consts)
    ultimately show thesis using t that by blast
  qed
  show ?thesis
    unfolding t using tx_writes_ok(2) [OF assms(2,3) step(1)] audio_ok_trans [OF b step(2)] by (rule audio_ok_trans [rotated])
qed

lemma drain_sub_ok:
  assumes "k < LINK_AUDIO_MAX_REMOTE"
  shows "audio_ok s (drain_sub port k s)"
proof (cases "jbuf_pop (link_audio_subs s ! k)")
  case (Some q)
  then obtain v b where pop: "jbuf_pop (link_audio_subs s ! k) = Some (v, b)" by (cases q) auto
  have "audio_ok s (s\<lparr>link_audio_subs := (link_audio_subs s)[k := b]\<rparr>)"
  proof (cases "audio_inv s")
    case True
    with assms have "k < length (link_audio_subs s)" "ring_inv (link_audio_subs s ! k)"
      by (simp_all add: audio_inv_def)
    then show ?thesis using jbuf_pop_refines by (intro sub_write_ok) (force simp: pop)+
  qed (simp add: audio_ok_def)
  then show ?thesis by (auto simp: drain_sub_def Let_def pop intro: audio_ok_trans [OF _ audio_ok_hw(4)])
qed (simp add: drain_sub_def Let_def)

lemma on_tdm_frame_ok:
  assumes "link_audio_on_tdm_frame port s = Some t" "audio_inv s"
  shows "audio_ok s t"
proof (cases "LINK_NUM_TDM_PORTS \<le> port")
  case True
  with assms show ?thesis by (simp add: link_audio_on_tdm_frame_def)
next
  case False
  with assms obtain u where u: "fold_option (capture_channel port) [0..<LINK_TDM_CHANNELS_PER_PORT] s = Some u"
    and t: "t = fold (drain_sub port) [0..<LINK_AUDIO_MAX_REMOTE] u"
    by (auto simp: link_audio_on_tdm_frame_def bind_eq_Some_conv)
  have "audio_ok s w \<and> audio_inv w" if "ch \<in> set [0..<LINK_TDM_CHANNELS_PER_PORT]" "audio_ok s v \<and> audio_inv v"
    "capture_channel port ch v = Some w" for ch v w
    using capture_channel_ok [OF that(3)] that(1,2) False audio_ok_trans [of s v w] by (simp add: audio_ok_def [of v])
  then have "audio_ok s u \<and> audio_inv u"
    by (rule fold_option_inv [OF _ _ u]) (simp_all add: assms(2))
  moreover have "audio_ok u t"
    unfolding t by (rule fold_inv [where P = "audio_ok u"]) (auto intro: audio_ok_trans [OF _ drain_sub_ok])
  ultimately show ?thesis using audio_ok_trans by blast
qed

lemma rerequest_ok:
  assumes "k < LINK_AUDIO_MAX_REMOTE"
  shows "audio_ok s (rerequest now k s)"
proof -
  let ?b = "link_audio_subs s ! k"
  let ?s = "send_channel_request 4 (source_addr ?b) (source_port ?b) (sub_channel_id ?b) s"
  have subs: "link_audio_subs ?s = link_audio_subs s" by (simp add: send_channel_request_def Let_def logged_def)
  have "audio_ok ?s (?s\<lparr>link_audio_subs := (link_audio_subs ?s)[k :=
      ?b\<lparr>next_request_us := now + of_nat (AUDIO_REQUEST_TTL_MS * 1000)\<rparr>]\<rparr>)"
    (is "audio_ok ?s ?t")
  proof (cases "audio_inv ?s")
    case True
    with assms show ?thesis by (intro sub_write_ok) (simp_all add: audio_inv_def subs)
  qed (simp add: audio_ok_def)
  then have "audio_ok s ?t" by (rule audio_ok_trans [OF send_channel_request_ok])
  then show ?thesis by (simp add: rerequest_def Let_def)
qed

lemma link_audio_tick_ok: "audio_ok s (link_audio_tick s)"
proof -
  let ?s = "s\<lparr>n_reads := n_reads s + 2\<rparr>"
  have "audio_ok ?s t \<Longrightarrow> audio_ok s (fold (rerequest now) [0..<LINK_AUDIO_MAX_REMOTE] t)" for t now
    by (rule fold_inv [where P = "audio_ok s"])
      (auto intro: audio_ok_trans [OF _ rerequest_ok] audio_ok_trans [OF audio_ok_hw(1)])
  then show ?thesis
    using send_announcements_ok [of ?s] by (simp add: link_audio_tick_def Let_def host_time_us_eq)
qed

lemma link_audio_subscribe_ok: "audio_ok s (snd (link_audio_subscribe port ch i s))"
proof -
  have "audio_ok s (s\<lparr>link_audio_subs := (link_audio_subs s)[j := zero_sub\<lparr>sub_in_use := True, sub_channel_id := x,
      source_peer := y, source_addr := u, source_port := v, sub_tdm_port := port, sub_tdm_channel := ch,
      next_request_us := 0\<rparr>]\<rparr>)" if "j < length (link_audio_subs s)" for j x y u v
    using that by (intro sub_write_ok) (simp_all add: zero_sub_def ring_inv_def)
  then show ?thesis
    by (auto simp: link_audio_subscribe_def Let_def simp del: id_cmp_eq_0 dest: find_index_bound split: option.split)
qed

lemma link_audio_unsubscribe_ok: "audio_ok s (snd (link_audio_unsubscribe i s))"
proof (cases "find_sub_for_channel i s")
  case (Some k)
  let ?b = "link_audio_subs s ! k"
  let ?s = "send_channel_request 5 (source_addr ?b) (source_port ?b) (sub_channel_id ?b) s"
  have subs: "link_audio_subs ?s = link_audio_subs s" by (simp add: send_channel_request_def Let_def logged_def)
  from Some have "k < length (link_audio_subs ?s)"
    unfolding find_sub_for_channel_def subs by (rule find_index_bound)
  then have "audio_ok ?s (?s\<lparr>link_audio_subs := (link_audio_subs ?s)[k := ?b\<lparr>sub_in_use := False\<rparr>]\<rparr>)"
    by (rule sub_write_ok) (simp add: subs)
  then have "audio_ok s (?s\<lparr>link_audio_subs := (link_audio_subs ?s)[k := ?b\<lparr>sub_in_use := False\<rparr>]\<rparr>)"
    by (rule audio_ok_trans [OF send_channel_request_ok])
  then show ?thesis
    using Some by (simp add: link_audio_unsubscribe_def Let_def find_sub_for_channel_def)
next
  case None
  then show ?thesis by (simp add: link_audio_unsubscribe_def find_sub_for_channel_def)
qed

section \<open>Initialisation establishes it\<close>

lemma init_local_inv: "audio_inv s \<Longrightarrow> idx < MAX_LOCAL_CHANNELS \<Longrightarrow> audio_inv (init_local idx port ch s)"
  unfolding init_local_def random_id_def Let_def host_time_us_eq prod.case
  by (rule audio_inv_local) (simp_all add: audio_inv_def subs_inv_def subscribers_def subscriber_def [abs_def] tx_inv_def)

lemma zero_tables_inv:
  "tx_inv s \<Longrightarrow> audio_inv (s\<lparr>link_audio_local := replicate MAX_LOCAL_CHANNELS zero_local,
     link_audio_remote := replicate LINK_AUDIO_MAX_REMOTE zero_remote,
     link_audio_subs := replicate LINK_AUDIO_MAX_REMOTE zero_sub\<rparr>)"
  by (simp add: audio_inv_def tx_inv_def distinct_keys_def)

lemma link_audio_init_inv: "tx_inv s \<Longrightarrow> audio_inv (link_audio_init s)"
proof -
  assume tx: "tx_inv s"
  let ?step = "\<lambda>(port, ch) (idx, s). if idx < MAX_LOCAL_CHANNELS then (idx + 1, init_local idx port ch s) else (idx, s)"
  have "audio_inv (snd (fold ?step xs (0, s\<lparr>link_audio_local := replicate MAX_LOCAL_CHANNELS zero_local,
     link_audio_remote := replicate LINK_AUDIO_MAX_REMOTE zero_remote,
     link_audio_subs := replicate LINK_AUDIO_MAX_REMOTE zero_sub\<rparr>)))" for xs
    by (rule fold_inv [where P = "\<lambda>q. audio_inv (snd q)"])
      (auto simp: zero_tables_inv [OF tx] intro: init_local_inv split: if_splits)
  then show ?thesis by (simp add: link_audio_init_def Let_def case_prod_beta)
qed

lemma link_audio_init_core: "core (link_audio_init s) = core s"
proof -
  have "core (snd (fold (\<lambda>(port, ch) (idx, s). if idx < MAX_LOCAL_CHANNELS then (idx + 1, init_local idx port ch s) else (idx, s)) xs q))
      = core (snd q)" for xs and q :: "nat \<times> 'a audio_st_scheme"
    by (rule fold_inv [where P = "\<lambda>r. core (snd r) = core (snd q)"])
      (auto simp: init_local_def random_id_def Let_def host_time_us_eq)
  then show ?thesis by (simp add: link_audio_init_def Let_def case_prod_beta)
qed

text \<open>The names published fit a message.\<close>

definition names_inv :: "'a audio_st_scheme \<Rightarrow> bool" where
  "names_inv s \<longleftrightarrow> length (s_peer_name s) = LINK_AUDIO_NAME_MAX \<and> length (c_str (s_peer_name s)) < LINK_AUDIO_NAME_MAX \<and>
     (\<forall>c\<in>set (link_audio_local s). length (loc_name c) = LINK_AUDIO_NAME_MAX \<and> length (c_str (loc_name c)) \<le> 10)"

definition names_ok :: "u8 list \<times> (bool \<times> link_id \<times> u8 list \<times> int \<times> int) list \<Rightarrow> bool" where
  "names_ok q \<longleftrightarrow> length (fst q) = LINK_AUDIO_NAME_MAX \<and> length (c_str (fst q)) < LINK_AUDIO_NAME_MAX \<and>
     (\<forall>(_, _, n, _)\<in>set (snd q). length n = LINK_AUDIO_NAME_MAX \<and> length (c_str n) \<le> 10)"

lemma names_inv_names_ok: "names_inv s \<longleftrightarrow> names_ok (published s)"
  by (simp add: names_inv_def names_ok_def published_def channel_key_def)

lemma names_inv_published: "published t = published s \<Longrightarrow> names_inv t = names_inv s"
  by (simp add: names_inv_names_ok)

lemma channel_name_fits:
  "length (channel_name port ch) = LINK_AUDIO_NAME_MAX \<and> length (c_str (channel_name port ch)) \<le> 10"
proof -
  define t where "t = [0x74, 0x64, 0x6D] @ fmt_d port @ [0x2D, 0x63, 0x68] @ fmt_02d ch"
  have "length t \<le> 10" by (simp add: t_def fmt_d_def fmt_02d_def)
  moreover have "channel_name port ch = t @ replicate (LINK_AUDIO_NAME_MAX - length t) 0"
    by (simp add: channel_name_def t_def Let_def)
  ultimately show ?thesis
    using c_str_padded [of t "LINK_AUDIO_NAME_MAX - length t"] by (simp add: audio_consts)
qed

lemma names_inv_local:
  "names_inv s \<Longrightarrow> length (loc_name c) = LINK_AUDIO_NAME_MAX \<and> length (c_str (loc_name c)) \<le> 10 \<Longrightarrow>
   names_inv (s\<lparr>link_audio_local := (link_audio_local s)[k := c]\<rparr>)"
  by (auto simp: names_inv_def dest: in_set_updateD)

lemma init_local_names: "names_inv s \<Longrightarrow> names_inv (init_local idx port ch s)"
  unfolding init_local_def random_id_def Let_def host_time_us_eq prod.case
  by (rule names_inv_local) (simp_all add: names_inv_def channel_name_fits)

lemma zero_tables_names:
  "length (s_peer_name s) = LINK_AUDIO_NAME_MAX \<Longrightarrow> length (c_str (s_peer_name s)) < LINK_AUDIO_NAME_MAX \<Longrightarrow>
   names_inv (s\<lparr>link_audio_local := replicate MAX_LOCAL_CHANNELS zero_local,
     link_audio_remote := replicate LINK_AUDIO_MAX_REMOTE zero_remote,
     link_audio_subs := replicate LINK_AUDIO_MAX_REMOTE zero_sub\<rparr>)"
  by (simp add: names_inv_def zero_local_def c_str_def takeWhile_replicate)

lemma link_audio_init_names:
  assumes "length (s_peer_name s) = LINK_AUDIO_NAME_MAX" "length (c_str (s_peer_name s)) < LINK_AUDIO_NAME_MAX"
  shows "names_inv (link_audio_init s)"
proof -
  let ?step = "\<lambda>(port, ch) (idx, s). if idx < MAX_LOCAL_CHANNELS then (idx + 1, init_local idx port ch s) else (idx, s)"
  have "names_inv (snd (fold ?step xs (0, s\<lparr>link_audio_local := replicate MAX_LOCAL_CHANNELS zero_local,
     link_audio_remote := replicate LINK_AUDIO_MAX_REMOTE zero_remote,
     link_audio_subs := replicate LINK_AUDIO_MAX_REMOTE zero_sub\<rparr>)))" for xs
    by (rule fold_inv [where P = "\<lambda>q. names_inv (snd q)"])
      (auto simp: zero_tables_names assms intro: init_local_names split: if_splits)
  then show ?thesis by (simp add: link_audio_init_def Let_def case_prod_beta names_inv_def)
qed

end
