(* ===== verification/Convergence.thy ===== *)
theory Convergence
  imports Discovery
begin

text \<open>
  Two nodes: what happens from the moment one hears the other until it has joined its session. The
  operations are those of the modules; added is only the network between them. In each round it delivers
  the last PING of the node to the other one, and the answer back to the node. The port this answer comes
  from is a parameter: it is the choice of the other node's stack, not of its responder. Nothing is assumed
  of the clocks but what \<open>timely\<close> says of a round.
\<close>

section \<open>Rounds\<close>

definition is_ping :: "datagram \<Rightarrow> bool" where
  "is_ping d \<longleftrightarrow> take 9 (payload d) = kProtoLink @ [1]"

definition last_ping :: "'a hw_scheme \<Rightarrow> u8 list" where
  "last_ping s = payload (last (filter is_ping (sent s)))"

text \<open>
  \<open>u\<close> measures \<open>v\<close>; \<open>v\<close> sees \<open>u\<close> at \<open>ip\<close> and \<open>port\<close>, and its answers arrive from its address and \<open>aport\<close>.
\<close>

definition ping_round ::
  "u32 \<Rightarrow> u32 \<Rightarrow> u16 \<Rightarrow> u16 \<Rightarrow> 'a meas_st_scheme \<times> 'b link_st_scheme \<Rightarrow> ('a meas_st_scheme \<times> 'b link_st_scheme) option" where
  "ping_round a ip port aport q =
     (let (u, v) = q; w = measurement_responder_handle_rx (last_ping u) ip port v in do {
        t \<leftarrow> measurement_handle_rx a (payload (last (sent w))) (net_local_ipv4 v) aport u;
        Some (t, w)
      })"

fun ping_rounds ::
  "u32 \<Rightarrow> u32 \<Rightarrow> u16 \<Rightarrow> u16 \<Rightarrow> nat \<Rightarrow> 'a meas_st_scheme \<times> 'b link_st_scheme \<Rightarrow> ('a meas_st_scheme \<times> 'b link_st_scheme) option" where
  "ping_rounds a ip port aport 0 q = Some q"
| "ping_rounds a ip port aport (Suc n) q = do { r \<leftarrow> ping_round a ip port aport q; ping_rounds a ip port aport n r }"

text \<open>
  The ghost clock of \<open>v\<close> is \<open>d\<close> microseconds ahead of the host clock of \<open>u\<close>: \<open>v\<close> reads it between the
  sending of the PING and the arrival of the answer; and at most \<open>R\<close> microseconds lie between this PING
  and the next.
\<close>

definition timely :: "int \<Rightarrow> int \<Rightarrow> 'a meas_st_scheme \<Rightarrow> 'b link_st_scheme \<Rightarrow> bool" where
  "timely d R u v \<longleftrightarrow>
     (let sending = sint (prev_host_time (meas u)); answered = sint (ghost_now v) - d; arrived = sint (host_now u);
          again = sint (host_now (u\<lparr>n_reads := n_reads u + 2\<rparr>))
      in 0 \<le> sending \<and> sending \<le> answered \<and> answered \<le> arrived \<and> arrived \<le> again \<and> again - sending \<le> R \<and>
         arrived < 2 ^ 60)"

text \<open>What the node keeps while it measures.\<close>

definition same_node :: "'a meas_st_scheme \<Rightarrow> 'a meas_st_scheme \<Rightarrow> bool" where
  "same_node s t \<longleftrightarrow> link_peers t = link_peers s \<and> intercept t = intercept s \<and> link_self_session t = link_self_session s \<and>
     link_self_timeline t = link_self_timeline s \<and> link_self_id t = link_self_id s \<and>
     s_active_target_session t = s_active_target_session s"

lemma same_node_refl [simp]: "same_node s s"
  by (simp add: same_node_def)

lemma same_node_trans: "same_node s t \<Longrightarrow> same_node t u \<Longrightarrow> same_node s u"
  by (simp add: same_node_def)

text \<open>A measurement of \<open>v\<close> by \<open>u\<close> under way, its samples accurate, its last PING in flight.\<close>

definition ping_sent_by :: "int \<Rightarrow> int \<Rightarrow> 'a meas_st_scheme \<Rightarrow> bool" where
  "ping_sent_by d R u \<longleftrightarrow> (let m = meas u; h = sint (prev_host_time m); p = sint (prev_ghost_time m) - d in
     \<exists>prev. last_ping u = encode_ping (prev_host_time m) (prev_ghost_time m) prev \<and>
       (prev \<longrightarrow> h - R \<le> p \<and> p \<le> h \<and> 0 \<le> p))"

definition measures :: "int \<Rightarrow> int \<Rightarrow> 'a meas_st_scheme \<Rightarrow> 'b link_st_scheme \<Rightarrow> bool" where
  "measures d R u v \<longleftrightarrow> active (meas u) \<and> meas_inv (meas u) \<and> accurate d R (meas u) \<and>
     compl_cb (meas u) = Some On_measure_done \<and> target_addr (meas u) = net_local_ipv4 v \<and>
     target_port (meas u) = LINK_DISCOVERY_PORT \<and> target_session (meas u) = link_self_session v \<and> ping_sent_by d R u"

lemma is_ping_encode [simp]: "is_ping (sent_to x y z (encode_ping t g prev))"
  by (simp add: is_ping_def sent_to_def encode_ping_eq)

lemma last_ping_send: "last_ping (send_ping s) = encode_ping (host_now s) (prev_ghost_time (meas s)) (0 < pings_sent (meas s))"
  by (simp add: last_ping_def send_ping_sent) (simp add: sent_to_def)

section \<open>One round\<close>

lemma responder_answers:
  "measurement_responder_handle_rx (encode_ping t g prev) ip port v =
     logged (sent_to (ip4_of ip) port LINK_DISCOVERY_PORT
       (kProtoLink @ 2 # tlv_payload (pong_entries (link_self_session v) (ghost_now v) @ ping_entries t (if prev then Some g else None))))
       (v\<lparr>n_reads := n_reads v + 3\<rparr>)"
  using length_ping_payload [of t "if prev then Some g else None"] by (simp add: encode_ping_eq responder_reply)

lemma ping_round_accepts:
  assumes "measures d R u v" "last_ping u = encode_ping (prev_host_time (meas u)) (prev_ghost_time (meas u)) prev"
    "unat a + 512 < 2 ^ 32"
  shows "\<exists>w. ping_round a ip port LINK_DISCOVERY_PORT (u, v) =
      Some (accept_pong (pong_of (link_self_session v) (ghost_now v) (prev_host_time (meas u))
        (if prev then Some (prev_ghost_time (meas u)) else None)) u, w) \<and>
    link_self_session w = link_self_session v \<and> net_local_ipv4 w = net_local_ipv4 v"
proof -
  note [simp] = tlv_payload_simps(3)
  from assms(1) have m: "active (meas u)" "target_addr (meas u) = net_local_ipv4 v"
    "target_port (meas u) = LINK_DISCOVERY_PORT" "target_session (meas u) = link_self_session v"
    by (simp_all add: measures_def)
  let ?i = "link_self_session v"
  have "measurement_handle_rx a (kProtoLink @ 2 # tlv_payload (pong_entries ?i (ghost_now v) @ ping_entries (prev_host_time (meas u)) p))
      (net_local_ipv4 v) LINK_DISCOVERY_PORT u = Some (accept_pong (pong_of ?i (ghost_now v) (prev_host_time (meas u)) p) u)" for p
    using pong_received [OF m(1) assms(3), of ?i "ghost_now v" "prev_host_time (meas u)" p] m by simp
  then show ?thesis
    by (simp add: ping_round_def assms(2) responder_answers Let_def sent_to_def del: tlv_payload_simps)
      (simp add: logged_def net_local_ipv4_def)
qed

lemma timely_honest:
  assumes "timely d R u v" "\<bar>d\<bar> < 2 ^ 60"
    "prev \<longrightarrow> sint (prev_host_time (meas u)) - R \<le> sint p - d \<and> sint p - d \<le> sint (prev_host_time (meas u)) \<and> 0 \<le> sint p - d"
  shows "honest_pong d R (host_now u) (pong_of i (ghost_now v) (prev_host_time (meas u)) (if prev then Some p else None))"
  using assms by (auto simp: timely_def Let_def honest_pong_def pong_of_def)

text \<open>A round of a measurement either completes it, accurately, or is followed by the next one.\<close>

lemma ping_round_step:
  assumes m: "measures d R u v" and t: "timely d R u v" and d: "\<bar>d\<bar> < 2 ^ 60" and R: "R < 2 ^ 61" and a: "unat a + 512 < 2 ^ 32"
  shows "\<exists>u' w. ping_round a ip port LINK_DISCOVERY_PORT (u, v) = Some (u', w) \<and>
    link_self_session w = link_self_session v \<and> net_local_ipv4 w = net_local_ipv4 v \<and>
    ((\<exists>x t. u' = on_measure_done True x t \<and> within d R x \<and> same_node u t \<and> \<not> active (meas t)) \<or>
     measures d R u' w \<and> same_node u u' \<and> n_samples (meas u) < n_samples (meas u'))"
proof -
  from m have u: "active (meas u)" "meas_inv (meas u)" "accurate d R (meas u)" "compl_cb (meas u) = Some On_measure_done"
    by (simp_all add: measures_def)
  obtain prev where prev: "last_ping u = encode_ping (prev_host_time (meas u)) (prev_ghost_time (meas u)) prev"
    and echo: "prev \<longrightarrow> sint (prev_host_time (meas u)) - R \<le> sint (prev_ghost_time (meas u)) - d \<and>
      sint (prev_ghost_time (meas u)) - d \<le> sint (prev_host_time (meas u)) \<and> 0 \<le> sint (prev_ghost_time (meas u)) - d"
    using m by (auto simp: measures_def ping_sent_by_def Let_def)
  define c where "c = pong_of (link_self_session v) (ghost_now v) (prev_host_time (meas u))
      (if prev then Some (prev_ghost_time (meas u)) else None)"
  obtain w where w: "ping_round a ip port LINK_DISCOVERY_PORT (u, v) = Some (accept_pong c u, w)" "link_self_session w = link_self_session v"
    "net_local_ipv4 w = net_local_ipv4 v"
    using ping_round_accepts [OF m prev a, of ip port] unfolding c_def by blast
  have honest: "honest_pong d R (host_now u) c" unfolding c_def by (rule timely_honest [OF t d echo])
  let ?m = "take_samples c (host_now u) (meas u)"
  have s: "length (samples (meas u)) = MAX_SAMPLES" "n_samples (meas u) \<le> LINK_SAMPLE_THRESHOLD"
    using u(1,2) by (auto simp: meas_inv_def)
  have acc: "accurate d R ?m" by (rule take_samples_accurate [OF u(3) honest s])
  note count = take_samples_count [OF s(2), of c "host_now u"]
  show ?thesis
  proof (cases "100 < n_samples ?m")
    case True
    let ?x = "fst (median_i64 (samples ?m) (n_samples ?m))"
    let ?t = "u\<lparr>n_reads := n_reads u + 2, meas := ?m\<lparr>samples := snd (median_i64 (samples ?m) (n_samples ?m)), active := False\<rparr>\<rparr>"
    have "0 \<le> R" using honest by (simp add: honest_pong_def)
    then have "within d R ?x"
      using acc s count True d R by (intro median_accurate) (auto simp: measurement_consts)
    moreover have "accept_pong c u = on_measure_done True ?x ?t"
      using True u(4) by (simp add: accept_pong_eq [OF u(2,1)] Let_def call_completion_def)
    moreover have "same_node u ?t" "\<not> active (meas ?t)" by (simp_all add: same_node_def)
    ultimately have "\<exists>x t. accept_pong c u = on_measure_done True x t \<and> within d R x \<and> same_node u t \<and> \<not> active (meas t)"
      by blast
    with w show ?thesis by blast
  next
    case False
    let ?s = "u\<lparr>n_reads := n_reads u + 2, meas := ?m\<rparr>"
    have next': "accept_pong c u = send_ping ?s"
      using False by (simp add: accept_pong_eq [OF u(2,1)] Let_def)
    have gt: "gt c = ghost_now v" by (simp add: c_def pong_of_def)
    have now: "host_now (y\<lparr>meas := z\<rparr>) = host_now y" for y :: "'a meas_st_scheme" and z by (simp add: host_now_def)
    have "ping_sent_by d R (send_ping ?s)"
      using t unfolding ping_sent_by_def Let_def last_ping_send send_ping_meas
      by (intro exI [of _ "0 < pings_sent (meas ?s)"]) (simp add: now gt timely_def Let_def)
    moreover have "meas_inv (meas (accept_pong c u))" by (rule accept_pong_inv [OF u(2,1)])
    moreover have "target_addr ?m = target_addr (meas u)" "target_port ?m = target_port (meas u)"
      "target_session ?m = target_session (meas u)"
      by (simp_all add: take_samples_def push_sample_def Let_def)
    ultimately have "measures d R (accept_pong c u) w"
      using m acc w by (simp add: measures_def next' accurate_def)
    moreover have "same_node u (accept_pong c u)" by (simp add: same_node_def next')
    moreover have "n_samples (meas u) < n_samples (meas (accept_pong c u))" using count by (simp add: next')
    ultimately show ?thesis using w by blast
  qed
qed

section \<open>All rounds\<close>

text \<open>Every round adds a sample, so the hundred and first round at the latest completes the measurement.\<close>

lemma ping_rounds_complete:
  assumes "measures d R u v" "\<bar>d\<bar> < 2 ^ 60" "R < 2 ^ 61" "unat a + 512 < 2 ^ 32"
    and timely: "\<And>n t w. ping_rounds a ip port LINK_DISCOVERY_PORT n (u, v) = Some (t, w) \<Longrightarrow> active (meas t) \<Longrightarrow> timely d R t w"
  shows "\<exists>n x t w. n \<le> 101 - n_samples (meas u) \<and> ping_rounds a ip port LINK_DISCOVERY_PORT n (u, v) = Some (on_measure_done True x t, w) \<and>
    within d R x \<and> same_node u t \<and> \<not> active (meas t)"
  using assms(1) timely
proof (induction "101 - n_samples (meas u)" arbitrary: u v rule: less_induct)
  case less
  have active: "active (meas u)" and "n_samples (meas u) \<le> 100"
    using less.prems(1) by (auto simp: measures_def meas_inv_def measurement_consts)
  have "timely d R u v" using less.prems(2) [of 0] active by simp
  from ping_round_step [OF less.prems(1) this assms(2-4), of ip port]
  obtain u' w where round: "ping_round a ip port LINK_DISCOVERY_PORT (u, v) = Some (u', w)" and
    step: "(\<exists>x t. u' = on_measure_done True x t \<and> within d R x \<and> same_node u t \<and> \<not> active (meas t)) \<or>
      measures d R u' w \<and> same_node u u' \<and> n_samples (meas u) < n_samples (meas u')" by blast
  have rounds: "ping_rounds a ip port LINK_DISCOVERY_PORT (Suc n) (u, v) = ping_rounds a ip port LINK_DISCOVERY_PORT n (u', w)" for n
    by (simp add: round)
  from step show ?case
  proof
    assume "\<exists>x t. u' = on_measure_done True x t \<and> within d R x \<and> same_node u t \<and> \<not> active (meas t)"
    then obtain x t where t: "u' = on_measure_done True x t" "within d R x" "same_node u t" "\<not> active (meas t)" by blast
    have "ping_rounds a ip port LINK_DISCOVERY_PORT (Suc 0) (u, v) = Some (on_measure_done True x t, w)" unfolding rounds t(1) by simp
    moreover have "Suc 0 \<le> 101 - n_samples (meas u)" using \<open>n_samples (meas u) \<le> 100\<close> by simp
    ultimately show ?case using t by blast
  next
    assume m: "measures d R u' w \<and> same_node u u' \<and> n_samples (meas u) < n_samples (meas u')"
    then have "n_samples (meas u) < n_samples (meas u')" by blast
    with \<open>n_samples (meas u) \<le> 100\<close> have less': "101 - n_samples (meas u') < 101 - n_samples (meas u)" by linarith
    have later: "timely d R t y" if "ping_rounds a ip port LINK_DISCOVERY_PORT n (u', w) = Some (t, y)" "active (meas t)" for n t y
      using less.prems(2) [of "Suc n" t y] that rounds by simp
    obtain n x t y where n: "n \<le> 101 - n_samples (meas u')" "ping_rounds a ip port LINK_DISCOVERY_PORT n (u', w) = Some (on_measure_done True x t, y)"
      "within d R x" "same_node u' t" "\<not> active (meas t)"
      using less.hyps [OF less' conjunct1 [OF m]] later by blast
    have "ping_rounds a ip port LINK_DISCOVERY_PORT (Suc n) (u, v) = Some (on_measure_done True x t, y)" unfolding rounds by (rule n(2))
    moreover have "Suc n \<le> 101 - n_samples (meas u)" using n(1) less' by simp
    moreover have "same_node u t" using m n(4) same_node_trans by blast
    ultimately show ?case using n(3,5) by blast
  qed
qed

section \<open>Hearing a node of another session\<close>

text \<open>\<open>v\<close> is new to \<open>s\<close>, and so is its session; there is room for it in the table.\<close>

definition newcomer :: "'b link_st_scheme \<Rightarrow> 'a meas_st_scheme \<Rightarrow> bool" where
  "newcomer v s \<longleftrightarrow> link_self_id v \<noteq> link_self_id s \<and> link_self_session v \<noteq> link_self_session s \<and>
     net_local_ipv4 v \<noteq> 0 \<and> length (netif_ip6 v) = 16 \<and> \<not> known_peer (link_self_id v) s \<and>
     (\<exists>p\<in>set (link_peers s). \<not> in_use p) \<and> (\<forall>p\<in>set (link_peers s). in_use p \<longrightarrow> session_id p \<noteq> link_self_session v)"

lemma heard_newcomer_worth:
  assumes "k < length ps" "\<forall>p\<in>set ps. in_use p \<longrightarrow> session_id p \<noteq> i" "link_peers s = ps[k := q]"
    "in_use q" "session_id q = i" "\<not> measured q" "mep4_addr q \<noteq> 0" "i \<noteq> link_self_session s"
  shows "worth_measuring k k s"
proof -
  have other: "j = k" if "j < length (link_peers s)" "in_use (link_peers s ! j)" "session_id (link_peers s ! j) = i" for j
    using that assms(1-3) by (cases "j = k") auto
  have q: "q \<in> set (link_peers s)" "link_peers s ! k = q" using assms(1,3) by (simp_all add: set_update_memI)
  then have "find_founder i s \<noteq> None" unfolding find_founder_None using assms(4,5) by blast
  then obtain f where f: "find_founder i s = Some f" by blast
  note f' = find_founder_SomeD [OF f]
  have "f = k" by (rule other) (use f' in simp_all)
  have "\<not> (in_use p \<and> measured p \<and> session_id p = i)" if p: "p \<in> set (link_peers s)" for p
  proof
    assume used: "in_use p \<and> measured p \<and> session_id p = i"
    from p obtain j where "j < length (link_peers s)" "p = link_peers s ! j" by (auto simp: in_set_conv_nth)
    with used other [of j] q(2) assms(6) show False by simp
  qed
  then have "\<not> session_known_in_local_view i s"
    using assms(8) by (auto simp: session_known_in_local_view_def find_index_None)
  with f \<open>f = k\<close> show ?thesis
    using assms(5,7,8) by (simp add: worth_measuring_def q(2) Let_def)
qed

lemma not_ping_state [simp]: "\<not> is_ping (sent_to x y z (encode_msg m True s))"
proof -
  have "take 9 (encode_msg m True s) = kProtoHdr @ [m]" by (simp add: encode_msg_def Let_def tlv_emit_header_def tlv_emit_bytes_entry)
  then show ?thesis by (simp add: is_ping_def sent_to_def) (simp add: kProtoHdr_def kProtoLink_def)
qed

lemma last_ping_cong: "net_log t = net_log s \<Longrightarrow> last_ping t = last_ping s"
  by (simp add: last_ping_def)

lemma last_ping_response [simp]: "last_ping (send_response x y s) = last_ping s"
  by (simp add: last_ping_def send_response_def)

text \<open>The node enters the sender into a free slot, answers, and starts to measure it.\<close>

lemma heard_newcomer:
  assumes new: "newcomer v s" and "meas_inv (meas s)" "\<not> active (meas s)" "unat a + 256 < 2 ^ 32"
  shows "\<exists>u k p. link_handle_rx a (encode_msg 1 True v) ip port s = Some u \<and> measures d R u v \<and>
    k < length (link_peers s) \<and> link_peers u = (link_peers s)[k := p] \<and> in_use p \<and> session_id p = link_self_session v \<and>
    timeline p = link_self_timeline v \<and> intercept u = intercept s \<and> link_self_session u = link_self_session s \<and>
    s_active_target_session u = link_self_session v"
proof -
  let ?i = "link_self_session v"
  have room: "known_peer (link_self_id v) s \<or> (\<exists>p\<in>set (link_peers s). \<not> in_use p)" using new by (simp add: newcomer_def)
  obtain k s' where alloc: "find_or_alloc_peer (link_self_id v) s = (Some k, s')"
    using find_or_alloc_peer_room [OF room] .
  note slot = find_or_alloc_peer_Some [OF alloc]
  define p where "p = heard_state v (link_peers s' ! k)"
  define q where "q = p\<lparr>expires_at_us := host_now s' + 5000000\<rparr>"
  define x where "x = store_peer k q (s'\<lparr>n_reads := n_reads s' + 2\<rparr>)"
  define u where "u = observe k p True ip port s'"
  have q: "in_use q" "session_id q = ?i" "\<not> measured q" "mep4_addr q = net_local_ipv4 v" "mep4_port q = LINK_DISCOVERY_PORT"
    "timeline q = link_self_timeline v"
    using new slot(5) by (simp_all add: q_def p_def heard_state_def newcomer_def) (simp add: zero_peer_def)
  have peers: "link_peers x = (link_peers s)[k := q]"
  proof (rule nth_equalityI)
    show "link_peers x ! j = (link_peers s)[k := q] ! j" if "j < length (link_peers x)" for j
      using that slot(1,2,6) by (cases "j = k") (simp_all add: x_def)
  qed (simp add: x_def slot(2))
  have x: "link_self_session x = link_self_session s" "intercept x = intercept s" "meas x = meas s"
    using slot(8,9) find_or_alloc_peer_meas [OF alloc] by (simp_all add: x_def)
  have "worth_measuring k k x"
    using new q by (intro heard_newcomer_worth [OF slot(1) _ peers, of ?i]) (auto simp: newcomer_def x)
  moreover have "link_peers x ! k = q" using slot(1) peers by simp
  ultimately have o: "session_observe_peer k x = measurement_start (net_local_ipv4 v) LINK_DISCOVERY_PORT ?i (Some On_measure_done)
      (x\<lparr>s_active_target_session := ?i\<rparr>)"
    using session_observe_peer_measures [of k k x] q by simp
  have rx: "link_handle_rx a (encode_msg 1 True v) ip port s = Some u"
    using state_msg_received [OF _ assms(4) _ _ alloc, of 1] new by (simp add: newcomer_def u_def p_def)
  have u: "u = send_response ip port (session_observe_peer k x)"
    by (simp add: u_def observe_def Let_def x_def q_def)
  have inactive: "\<not> active (meas (x\<lparr>s_active_target_session := ?i\<rparr>))" using assms(3) x(3) by simp
  note start = measurement_start_starts [OF inactive, of "net_local_ipv4 v" LINK_DISCOVERY_PORT ?i "Some On_measure_done"]
  have "meas_inv (meas u)" using assms(2) x(3) by (simp add: u session_observe_peer_inv)
  moreover have "accurate d R (meas u)" by (simp add: u o accurate_def start)
  moreover have "ping_sent_by d R u"
    using inactive unfolding ping_sent_by_def Let_def u o last_ping_response send_response_frame
    by (intro exI [of _ False]) (simp add: measurement_start_def last_ping_send zero_state_def host_now_def)
  ultimately have "measures d R u v" by (simp add: measures_def u o start)
  moreover have "s_active_target_session u = ?i"
    using inactive by (simp add: u o measurement_start_def send_response_def logged_def)
  moreover have "link_peers u = (link_peers s)[k := q]" "intercept u = intercept s" "link_self_session u = link_self_session s"
    by (simp_all add: u peers x)
  ultimately show ?thesis using rx slot(1) q by blast
qed

section \<open>Joining\<close>

text \<open>The measured clock is far ahead, or close with the smaller session: measured to \<open>R\<close>, it still is.\<close>

definition preferable :: "int \<Rightarrow> int \<Rightarrow> 'b link_st_scheme \<Rightarrow> 'a link_st_scheme \<Rightarrow> bool" where
  "preferable d R v s \<longleftrightarrow> (let ahead = d - sint (intercept s); err = (R + 1) div 2
     in 500000 + err < ahead \<or> \<bar>ahead\<bar> + err < 500000 \<and> link_self_session v < link_self_session s)"

lemma preferable_joins:
  assumes "preferable d R v s" "within d R x" "\<bar>d\<bar> < 2 ^ 60" "0 \<le> R" "R < 2 ^ 61" "\<bar>sint (intercept s)\<bar> < 2 ^ 61"
  shows "switch_to_new (x - intercept s) (link_self_session v) (link_self_session s)"
proof -
  have x: "d - (R + 1) div 2 \<le> sint x" "sint x \<le> d + (R + 1) div 2" using assms(2) by (simp_all add: within_iff)
  then have "sint (x - intercept s) = sint x - sint (intercept s)"
    using assms(3-6) by (intro sint_diff_small) auto
  then show ?thesis
    using assms x by (subst switch_to_new_iff) (auto simp: preferable_def Let_def)
qed

lemma joined_alone:
  assumes "joins x t" "link_peers t = ps[k := p]" "k < length ps" "in_use p" "session_id p = s_active_target_session t"
    "\<forall>q\<in>set ps. in_use q \<longrightarrow> session_id q \<noteq> s_active_target_session t"
  shows "link_self_timeline (on_measure_done True x t) = timeline p"
proof -
  let ?i = "s_active_target_session t"
  let ?qs = "map (mark_measured ?i x) (link_peers t)"
  have only: "q = p" if "q \<in> set (link_peers t)" "in_use q" "session_id q = ?i" for q
  proof -
    from that(1) have "q = p \<or> q \<in> set ps" unfolding assms(2) by (auto dest: in_set_updateD)
    with that assms(6) show ?thesis by auto
  qed
  have p: "p \<in> set (link_peers t)" using assms(2,3) by (simp add: set_update_memI)
  then have "best_peer ?i ?qs \<noteq> None" unfolding best_peer_None using assms(4,5) by force
  then obtain b where b: "best_peer ?i ?qs = Some b" by blast
  obtain q where "q \<in> set (link_peers t)" "b = mark_measured ?i x q" using best_peer_max(1) [OF b] by auto
  with best_peer_max(2,3) [OF b] only have "timeline b = timeline p" by auto
  then show ?thesis using assms(1) by (simp add: on_measure_done_timeline b)
qed

lemma on_measure_done_meas: "meas (on_measure_done ok x s) = meas s"
  by (simp add: on_measure_done_def Let_def host_time_us_eq adopt_best_def ghost_time_set_intercept_def
      beat_pulse_set_sync_led_def flags_write_def beat_pulse_load_timeline_def link_broadcast_alive_now_def split: option.split)

section \<open>Answers from another port\<close>

text \<open>An answer from a port that was not announced is ignored, so nothing moves, in any number of rounds.\<close>

lemma ping_rounds_other_port:
  assumes "target_port (meas u) \<noteq> aport"
  shows "\<exists>w. ping_rounds a ip port aport n (u, v) = Some (u, w)"
proof (induction n arbitrary: v)
  case (Suc n)
  have "measurement_handle_rx a buf addr aport u = Some u" for buf addr
    using assms by (simp add: measurement_handle_rx_def)
  then show ?case using Suc by (simp add: ping_round_def Let_def)
qed simp

section \<open>Property\<close>

text \<open>
  C3: A node hears the ALIVE of a node of another session that was unknown to it, and starts to measure
  it; the PINGs it then sends and the answers to them are delivered. If the answers come from the port
  that the ALIVE announces, it has joined that session after at most 101 rounds, provided the
  session has the clock further ahead or, of two close clocks, the smaller identifier: its ghost clock
  agrees with the other node's to half a round, its timeline is the other node's, and the change will be
  announced by its next tick. If they come from any other port, no number of rounds changes anything: the
  node stays in its session. Both the delivery and the port are up to the stacks of the two nodes, which
  the rounds stand for. A node that owns a socket on its announced port satisfies them; two nodes of this
  firmware do not, because \<open>udp_tx\<close> cannot bind a port that is being listened on (\<open>source_port_taken\<close>).
\<close>

theorem node_joins:
  assumes "newcomer v s" "meas_inv (meas s)" "\<not> active (meas s)" "unat a + 512 < 2 ^ 32"
    "preferable d R v s" "\<bar>d\<bar> < 2 ^ 60" "0 \<le> R" "R < 2 ^ 61" "\<bar>sint (intercept s)\<bar> < 2 ^ 61"
    and timely: "\<And>u n t w. link_handle_rx a (encode_msg 1 True v) ip port s = Some u \<Longrightarrow>
      ping_rounds a jp jport LINK_DISCOVERY_PORT n (u, v) = Some (t, w) \<Longrightarrow> active (meas t) \<Longrightarrow> timely d R t w"
  shows "\<exists>u. link_handle_rx a (encode_msg 1 True v) ip port s = Some u \<and> active (meas u) \<and>
    (\<exists>n t w. n \<le> 101 \<and> ping_rounds a jp jport LINK_DISCOVERY_PORT n (u, v) = Some (t, w) \<and> \<not> active (meas t) \<and>
      link_self_session t = link_self_session v \<and> 2 * \<bar>sint (intercept t) - d\<bar> \<le> R + 1 \<and>
      link_self_timeline t = link_self_timeline v \<and> s_state_dirty t) \<and>
    (\<forall>n aport. aport \<noteq> LINK_DISCOVERY_PORT \<longrightarrow>
      (\<exists>w. ping_rounds a jp jport aport n (u, v) = Some (u, w)) \<and> link_self_session u = link_self_session s)"
proof -
  have a: "unat a + 256 < 2 ^ 32" using assms(4) by simp
  obtain u k p where u: "link_handle_rx a (encode_msg 1 True v) ip port s = Some u" "measures d R u v"
    and p: "k < length (link_peers s)" "link_peers u = (link_peers s)[k := p]" "in_use p" "session_id p = link_self_session v"
      "timeline p = link_self_timeline v"
    and same: "intercept u = intercept s" "link_self_session u = link_self_session s"
      "s_active_target_session u = link_self_session v"
    using heard_newcomer [OF assms(1-3) a, of ip port d R] by blast
  have target: "active (meas u)" "target_port (meas u) = LINK_DISCOVERY_PORT" using u(2) by (simp_all add: measures_def)
  obtain n x t w where n: "n \<le> 101 - n_samples (meas u)"
    "ping_rounds a jp jport LINK_DISCOVERY_PORT n (u, v) = Some (on_measure_done True x t, w)"
    "within d R x" "same_node u t" "\<not> active (meas t)"
    using ping_rounds_complete [OF u(2) assms(6,8,4)] timely [OF u(1)] by blast
  let ?t = "on_measure_done True x t"
  have t: "link_peers t = (link_peers s)[k := p]" "intercept t = intercept s" "link_self_session t = link_self_session s"
    "s_active_target_session t = link_self_session v"
    using n(4) same p(2) by (simp_all add: same_node_def)
  have joins: "joins x t"
    using preferable_joins [OF assms(5) n(3) assms(6-9)] by (simp add: joins_def t)
  have "link_self_session ?t = link_self_session v" "intercept ?t = x"
    using joins by (simp_all add: on_measure_done_session t)
  moreover have "link_self_timeline ?t = timeline p"
    using assms(1) by (intro joined_alone [OF joins t(1) p(1,3)]) (auto simp: t(4) p(4) newcomer_def)
  moreover have "\<not> active (meas ?t)" using n(5) by (simp add: on_measure_done_meas)
  moreover have "s_state_dirty ?t"
    using joins by (simp add: on_measure_done_def Let_def host_time_us_eq joins_def)
  ultimately have joined: "\<exists>n t w. n \<le> 101 \<and> ping_rounds a jp jport LINK_DISCOVERY_PORT n (u, v) = Some (t, w) \<and>
      \<not> active (meas t) \<and> link_self_session t = link_self_session v \<and> 2 * \<bar>sint (intercept t) - d\<bar> \<le> R + 1 \<and>
      link_self_timeline t = link_self_timeline v \<and> s_state_dirty t"
    using n p(5) by (intro exI [of _ n] exI [of _ ?t] exI [of _ w]) (simp add: within_def)
  have "\<forall>n aport. aport \<noteq> LINK_DISCOVERY_PORT \<longrightarrow>
      (\<exists>w. ping_rounds a jp jport aport n (u, v) = Some (u, w)) \<and> link_self_session u = link_self_session s"
    using ping_rounds_other_port [of u] target(2) same(2) by metis
  with joined u(1) target(1) show ?thesis by blast
qed

end
