(* ===== verification/Peer_Map.thy ===== *)
theory Peer_Map
  imports Discovery
begin

text \<open>
  The peer table as what it stands for: a finite map from node identifiers to peers. What a datagram and a
  tick do to the map is written down without slots, scans or flags; the operations of \<^verbatim>\<open>link.c\<close> refine it.
\<close>

definition peer_map :: "'a link_st_scheme \<Rightarrow> link_id \<Rightarrow> link_peer option" where
  "peer_map s = lookup in_use node_id (link_peers s)"

section \<open>The specification\<close>

text \<open>The entries of a message, applied to what was known of the sender.\<close>

definition heard :: "u32 \<Rightarrow> u8 list \<Rightarrow> u64 \<Rightarrow> link_peer option \<Rightarrow> link_peer option" where
  "heard a buf now known = do {
     (_, p) \<leftarrow> tlv_walk (a + 20) handle_entry (drop 20 buf)
       (case known of None \<Rightarrow> zero_peer\<lparr>in_use := True, node_id := id_of_bytes (drop 12 buf)\<rparr> | Some p \<Rightarrow> p);
     Some (p\<lparr>expires_at_us := now + 5000000\<rparr>)
   }"

definition discovery_spec ::
  "u32 \<Rightarrow> u8 list \<Rightarrow> u64 \<Rightarrow> link_id \<Rightarrow> (link_id \<rightharpoonup> link_peer) \<Rightarrow> (link_id \<rightharpoonup> link_peer) option" where
  "discovery_spec a buf now self m =
     (let i = id_of_bytes (drop 12 buf) in
      if \<not> is_discovery buf \<or> i = self then Some m
      else if buf ! 8 = 3 then Some (m(i := None))
      else if buf ! 8 \<noteq> 1 \<and> buf ! 8 \<noteq> 2 then Some m
      else if m i = None \<and> LINK_MAX_PEERS \<le> card (dom m) then Some m
      else map_option (\<lambda>p. m(i \<mapsto> p)) (heard a buf now (m i)))"

definition prune_spec :: "u64 \<Rightarrow> (link_id \<rightharpoonup> link_peer) \<Rightarrow> (link_id \<rightharpoonup> link_peer)" where
  "prune_spec now m i = (case m i of None \<Rightarrow> None | Some p \<Rightarrow> if expires_at_us p + 1000000 < now then None else Some p)"

section \<open>The table as a map\<close>

lemma card_dom_lookup:
  assumes "distinct_keys used key xs"
  shows "card (dom (lookup used key xs)) < length xs \<longleftrightarrow> (\<exists>x\<in>set xs. \<not> used x)"
proof -
  let ?I = "{i. i < length xs \<and> used (xs ! i)}"
  have "dom (lookup used key xs) = (\<lambda>i. key (xs ! i)) ` ?I"
    using lookup_Some [OF assms] by (auto simp: dom_def in_set_conv_nth)
  moreover have "inj_on (\<lambda>i. key (xs ! i)) ?I"
    by (rule inj_onI) (auto intro: distinct_keysD [OF assms])
  ultimately have card: "card (dom (lookup used key xs)) = card ?I" by (simp add: card_image)
  show ?thesis
  proof
    assume "card (dom (lookup used key xs)) < length xs"
    then have "?I \<noteq> {..<length xs}" using card by (metis card_lessThan less_irrefl)
    then show "\<exists>x\<in>set xs. \<not> used x" by force
  next
    assume "\<exists>x\<in>set xs. \<not> used x"
    then obtain j where "j < length xs" "\<not> used (xs ! j)" by (metis in_set_conv_nth)
    then have "?I \<subseteq> {..<length xs}" "j \<in> {..<length xs}" "j \<notin> ?I" by auto
    then have "?I \<subset> {..<length xs}" by blast
    then have "card ?I < card {..<length xs}" by (intro psubset_card_mono) auto
    with card show "card (dom (lookup used key xs)) < length xs" by simp
  qed
qed

lemma known_peer_map: "known_peer i s \<longleftrightarrow> peer_map s i \<noteq> None"
  by (auto simp: known_peer_def peer_map_def lookup_None)

lemma peer_map_slot:
  assumes "peers_inv s" "k < length (link_peers s)" "in_use (link_peers s ! k)"
  shows "peer_map s (node_id (link_peers s ! k)) = Some (link_peers s ! k)"
  using assms by (simp add: peer_map_def lookup_Some peers_inv_def)

lemma peer_map_room:
  assumes "peers_inv s"
  shows "card (dom (peer_map s)) < LINK_MAX_PEERS \<longleftrightarrow> (\<exists>p\<in>set (link_peers s). \<not> in_use p)"
  using assms card_dom_lookup [of in_use node_id "link_peers s"] by (simp add: peers_inv_def peer_map_def)

text \<open>Removal, expiry and entry.\<close>

lemma peer_map_prune:
  assumes "peers_inv s" "link_peers t = map (prune_peer now) (link_peers s)"
  shows "peer_map t = prune_spec now (peer_map s)"
proof
  fix i
  have d: "distinct_keys in_use node_id (link_peers s)" "distinct_keys in_use node_id (link_peers t)"
    using assms peers_inv_prune [of s "s\<lparr>link_peers := link_peers t\<rparr>" now] by (simp_all add: peers_inv_def)
  have kept: "p \<in> set (link_peers t) \<longleftrightarrow> p \<in> set (link_peers s) \<and> \<not> expires_at_us p + 1000000 < now" if "in_use p" for p
    using that by (auto simp: assms(2) prune_peer_def discovery_consts image_iff split: if_splits)
  show "peer_map t i = prune_spec now (peer_map s) i"
  proof (cases "peer_map s i")
    case None
    then have "peer_map t i = None" using kept by (auto simp: peer_map_def lookup_None)
    with None show ?thesis by (simp add: prune_spec_def)
  next
    case (Some p)
    then have p: "p \<in> set (link_peers s)" "in_use p" "node_id p = i" by (simp_all add: peer_map_def lookup_Some [OF d(1)])
    have only: "q = p" if "q \<in> set (link_peers t)" "in_use q" "node_id q = i" for q
      using that kept [of q] Some by (simp add: peer_map_def) (metis lookup_Some [OF d(1)] option.inject)
    have "peer_map t i = (if expires_at_us p + 1000000 < now then None else Some p)"
      using p only kept [of p] by (auto simp: peer_map_def lookup_None lookup_Some [OF d(2)])
    with Some show ?thesis by (simp add: prune_spec_def)
  qed
qed

lemma peer_map_evict:
  assumes "peers_inv s"
  shows "peer_map (evict_peer i s) = (peer_map s)(i := None)"
proof -
  have d: "distinct_keys in_use node_id (link_peers s)" "distinct_keys in_use node_id (link_peers (evict_peer i s))"
    using assms evict_peer_inv [OF assms, of i] by (simp_all add: peers_inv_def)
  show ?thesis
  proof
    fix j
    show "peer_map (evict_peer i s) j = ((peer_map s)(i := None)) j"
    proof (cases "j = i")
      case True
      then show ?thesis using evict_peer_gone [OF assms, of i] known_peer_map [of i "evict_peer i s"] by auto
    next
      case False
      have "p \<in> set (link_peers (evict_peer i s)) \<longleftrightarrow> p \<in> set (link_peers s)" if "in_use p" "node_id p = j" for p
        using that False evict_peer_others [of p s i] evict_peer_subset [of p i s] by blast
      from lookup_cong [OF d(2,1) this] False show ?thesis by (simp add: peer_map_def)
    qed
  qed
qed

text \<open>A peer as parsed, stored in its slot.\<close>

lemma peer_map_observe:
  assumes "peers_inv s" "k < length (link_peers s)" "in_use p"
    "in_use (link_peers s ! k) \<and> node_id (link_peers s ! k) = node_id p \<or> \<not> in_use (link_peers s ! k) \<and> peer_map s (node_id p) = None"
    "link_peers t = (link_peers s)[k := p]"
  shows "peer_map t = (peer_map s)(node_id p \<mapsto> p)"
  using assms lookup_write [of in_use node_id "link_peers s" k p] by (auto simp: peer_map_def peers_inv_def)

lemma on_state_msg_map:
  assumes inv: "peers_inv s" and i: "i = id_of_bytes (drop 12 buf)"
  shows "map_option peer_map (on_state_msg a buf ip port s) =
    (if peer_map s i = None \<and> LINK_MAX_PEERS \<le> card (dom (peer_map s)) then Some (peer_map s)
     else map_option (\<lambda>p. (peer_map s)(i \<mapsto> p)) (heard a buf (host_now s) (peer_map s i)))"
proof -
  have stored: "map_option peer_map (on_state_msg a buf ip port s) =
      map_option (\<lambda>p. (peer_map s)(i \<mapsto> p)) (heard a buf (host_now s) (peer_map s i))"
    if alloc: "find_or_alloc_peer i s = (Some k, s')" and k: "k < length (link_peers s)"
      and start: "link_peers s' ! k = (case peer_map s i of None \<Rightarrow> claim_peer i undefined | Some p \<Rightarrow> p)"
      and slot: "in_use (link_peers s ! k) \<and> node_id (link_peers s ! k) = i \<or> \<not> in_use (link_peers s ! k) \<and> peer_map s i = None"
    for k s'
  proof -
    note s' = find_or_alloc_peer_Some [OF alloc]
    have h: "heard a buf (host_now s) (peer_map s i) = do {
        (_, p) \<leftarrow> tlv_walk (a + 20) handle_entry (drop 20 buf) (link_peers s' ! k); Some (p\<lparr>expires_at_us := host_now s + 5000000\<rparr>) }"
      unfolding heard_def start unfolding i ..
    show ?thesis
    proof (cases "tlv_walk (a + 20) handle_entry (drop 20 buf) (link_peers s' ! k)")
      case None
      then show ?thesis unfolding h by (simp add: on_state_msg_def alloc [unfolded i])
    next
      case (Some rp)
      then obtain r p where p: "tlv_walk (a + 20) handle_entry (drop 20 buf) (link_peers s' ! k) = Some (r, p)" by (cases rp) auto
      let ?p = "p\<lparr>expires_at_us := host_now s + 5000000\<rparr>"
      let ?t = "observe k p (buf ! 8 = 1) ip port s'"
      have fields: "in_use ?p" "node_id ?p = i"
        using entry_reader.walk_keeps [OF _ p, of True i] s'(3,4) by auto
      have "link_peers ?t = (link_peers s)[k := ?p]"
      proof (rule nth_equalityI)
        show "link_peers ?t ! j = (link_peers s)[k := ?p] ! j" if "j < length (link_peers ?t)" for j
          using that s'(1,2,6,12) by (cases "j = k") simp_all
      qed (simp add: s'(2))
      from peer_map_observe [OF inv k fields(1) _ this]
      have "peer_map ?t = (peer_map s)(i \<mapsto> ?p)" using slot unfolding fields(2) .
      moreover have "on_state_msg a buf ip port s = Some ?t" by (simp add: on_state_msg_def alloc [unfolded i] p)
      moreover have "heard a buf (host_now s) (peer_map s i) = Some ?p"
        unfolding h by (simp add: p)
      ultimately show ?thesis by simp
    qed
  qed
  show ?thesis
    using find_or_alloc_peer_cases [of i s]
  proof cases
    case (known k)
    have "peer_map s i = Some (link_peers s ! k)" using peer_map_slot [OF inv known(2,3)] known(4) by simp
    then show ?thesis using stored [OF known(1,2)] known(3,4) by simp
  next
    case (fresh k)
    have "peer_map s i = None" using fresh(4) known_peer_map [of i s] by auto
    moreover have "\<not> LINK_MAX_PEERS \<le> card (dom (peer_map s))"
      using peer_map_room [OF inv] fresh(2,3) nth_mem by (auto simp: not_le)
    ultimately show ?thesis using stored [OF fresh(1,2)] fresh(2,3) by simp
  next
    case full
    have "peer_map s i = None" using full(3) known_peer_map [of i s] by auto
    moreover have "LINK_MAX_PEERS \<le> card (dom (peer_map s))" using peer_map_room [OF inv] full(2) by (auto simp: not_less)
    ultimately show ?thesis using full(1) by (simp add: on_state_msg_def i)
  qed
qed

section \<open>Property\<close>

text \<open>
  C7: The peer table implements a finite map with room for sixteen peers. Receiving a datagram and a tick do to
  the map exactly what the specification says: a state message enters or updates its sender for five
  seconds, unless it is new and the map is full; a BYEBYE removes its sender; a tick removes the expired
  peers; nothing else changes it. Receiving is undefined where the walk over the entries is.
\<close>

theorem peer_table_refines:
  assumes "peers_inv s"
  shows "map_option peer_map (link_handle_rx a buf ip port s) =
      discovery_spec a buf (host_now s) (link_self_id s) (peer_map s) \<and>
    peer_map (link_tick s) = prune_spec (host_now s) (peer_map s)"
proof
  let ?i = "id_of_bytes (drop 12 buf)"
  show "map_option peer_map (link_handle_rx a buf ip port s) =
      discovery_spec a buf (host_now s) (link_self_id s) (peer_map s)"
    unfolding link_handle_rx_eq discovery_spec_def Let_def
    using peer_map_evict [OF assms, of ?i] on_state_msg_map [OF assms refl, of a buf ip port] by simp
  show "peer_map (link_tick s) = prune_spec (host_now s) (peer_map s)"
    by (rule peer_map_prune [OF assms]) (rule link_tick_peers)
qed

end
