(* ===== verification/Witnesses.thy ===== *)
theory Witnesses
  imports Audio_Inv Convergence Peer_Map
begin

text \<open>
  Concrete nodes at which the hypotheses of the properties hold. \<open>node i\<close> is a freshly booted node
  with identifier \<open>i\<close>, in its own session, on a host clock that advances by one microsecond per
  register access; the other states change single fields of it.
\<close>

definition node :: "link_id \<Rightarrow> meas_st" where
  "node i = \<lparr>host_clk = (\<lambda>k. 1000000 + of_nat k), n_reads = 0, inter_lo = 0, inter_hi = 0,
     period_beat = 0, period_24ppqn = 0, period_48ppqn = 0, period_96ppqn = 0, period_bar = 0,
     soft_resets = 0, bp_flags = 0, pulse_width = 1000, netif_ip4 = 0x0100000A,
     netif_ip6 = replicate 16 0, lwip = (\<lambda>_. Sent True), net_log = [],
     s_flags = 0, s_beats_per_bar = 4,
     link_self_id = i, link_self_session = i,
     link_self_timeline = \<lparr>tempo_us_per_beat = 500000, beat_origin_microbeats = 0, time_origin_us_ghost = 0\<rparr>,
     link_self_startstop = zero_startstop, link_peers = replicate 16 zero_peer,
     s_last_bcast_us = 0, s_next_bcast_us = 0, s_state_dirty = True, prng_s = 1,
     s_last_remeasure_us = 0, s_active_target_session = zero_id, meas = zero_state\<rparr>"

abbreviation idA :: link_id where "idA \<equiv> Link_id 1 0 0 0 0 0 0 0"
abbreviation idB :: link_id where "idB \<equiv> Link_id 2 0 0 0 0 0 0 0"

lemma length_zero_peers: "distinct_keys in_use node_id (replicate n zero_peer)"
  by (rule peers.distinct_free)

lemma node_fields [simp]:
  "link_self_id (node i) = i" "link_self_session (node i) = i" "link_peers (node i) = replicate 16 zero_peer"
  "length (netif_ip6 (node i)) = 16" "meas (node i) = zero_state" "intercept (node i) = 0"
  "bp_flags (node i) = 0" "s_flags (node i) = 0" "s_beats_per_bar (node i) = 4"
  "host_clk (node i) k = 1000000 + of_nat k" "n_reads (node i) = 0"
  by (simp_all add: node_def intercept_def)

lemma node_peers_inv: "peers_inv (node i)"
  by (simp add: peers_inv_def peers.distinct_free LINK_MAX_PEERS_def)

lemma node_meas_inv: "meas_inv (meas (node i))"
  by (simp add: meas_inv_def zero_state_def)

lemma node_flags_inv: "flags_inv (node i)"
  by (simp add: flags_inv_def)

section \<open>TLV and median\<close>

theorem tlv_parse_print_witness:
  "tlv_walk 0x40001000 tlv_collect (tlv_payload [(KEY_HT, [1, 2, 3]), (KEY_GT, [])]) []
     = Some (0, [(KEY_HT, [1, 2, 3]), (KEY_GT, [])])"
  using tlv_parse_print [of "0x40001000" "[(KEY_HT, [1, 2, 3]), (KEY_GT, [])]"] by simp

theorem tlv_accepts_only_payloads_witness:
  "tlv_payload [(7, [9])] = tlv_payload [(7, [9 :: u8])]"
proof -
  have "tlv_walk 0 tlv_collect (tlv_payload [(7, [9 :: u8])]) [] = Some (0, [(7, [9])])"
    by (subst collector.walk_payload) (simp_all add: tlv_collect_def)
  then show ?thesis by (intro tlv_accepts_only_payloads [of 0]) simp_all
qed

theorem rv32_walk_refines_witness:
  "let p = tlv_payload [(7, [9 :: u8])] in
   tlv_walk_rv32 (\<lambda>x. p ! unat x) (\<lambda>key b n c. (0, c + 1)) 0 (0 + of_nat (length p)) (0 :: nat) = Some (0, 1)"
proof -
  let ?p = "tlv_payload [(7, [9 :: u8])]"
  have safe: "tlv_safe_reader (\<lambda>key v n c. Some (0, c + 1 :: nat)) (\<lambda>_. True)"
    by unfold_locales simp_all
  have walk: "tlv_walk 0 (\<lambda>key v n c. Some (0, c + 1 :: nat)) ?p 0 = Some (0, 1)"
    by (subst tlv_safe_reader.walk_payload [OF safe]) simp_all
  have len: "length ?p = 9" by simp
  then have mem: "mem_at (\<lambda>x. ?p ! unat x) 0 ?p"
    by (simp add: mem_at_def unat_of_nat_small)
  show ?thesis
    unfolding Let_def
    by (rule rv32_walk_refines [OF _ mem _ walk]) (use len in simp_all)
qed

theorem rv32_walk_hangs_witness:
  "tlv_walk_rv32 (\<lambda>x. if x = 0x1007 then 0xF8 else if x = 0x1004 \<or> x = 0x1005 \<or> x = 0x1006 then 0xFF else 0)
     (\<lambda>key b n c. (0, c)) 0x1000 0x1100 () = None"
  by (rule rv32_walk_hangs) (simp_all add: mem_be32_def be32_def)

theorem median_i64_correct_witness:
  "sint (fst (median_i64 [3, 1, 2, 10] 4)) = 2"
  using median_i64_correct [of 4 "[3, 1, 2, 10]"] by (simp add: median_spec_def c_div_def)

section \<open>Hardware\<close>

theorem host_time_us_torn_witness:
  "fst (host_time_us (node idA\<lparr>host_clk := \<lambda>k. 0xFFFFFFFF + of_nat k\<rparr>)) = 0x1FFFFFFFF"
  using host_time_us_torn [of "node idA\<lparr>host_clk := \<lambda>k. 0xFFFFFFFF + of_nat k\<rparr>"]
  by (simp add: drop_bit_eq_div)

theorem ghost_time_is_host_plus_intercept_witness:
  "let s = node idA\<lparr>host_clk := \<lambda>k. 1000000\<rparr> in
   fst (ghost_time_us (ghost_time_set_intercept 5000 s)) = 1005000"
  using ghost_time_is_host_plus_intercept [of 5000 "node idA\<lparr>host_clk := \<lambda>k. 1000000\<rparr>"] unfolding Let_def
  by (simp add: drop_bit_eq_div) (metis)

theorem flag_register_witness:
  "sync_led (beat_pulse_set_sync_led True (node idA)) \<and> \<not> run_bit (beat_pulse_set_sync_led True (node idA))"
  using flag_register [where s = "node idA" and on = True] node_flags_inv by (simp add: run_bit_def)

theorem load_timeline_periods_witness:
  "uint (period_24ppqn (beat_pulse_load_timeline (link_self_timeline (node idA)) zero_startstop (node idA))) = 20833"
  using load_timeline_periods [where s = "node idA" and tml = "link_self_timeline (node idA)"
      and ss = zero_startstop]
  by (simp add: effective_tempo_def node_def Let_def)

section \<open>Discovery\<close>

theorem peer_table_inv_witness: "peers_inv (link_tick (node idA))"
  using peer_table_inv [of "node idA"] node_peers_inv by simp

theorem discovery_exchange_witness:
  "\<exists>t k p. link_handle_rx 0x40001000 (encode_msg 1 True (node idA)) 0x0A000001 20808 (node idB) = Some t \<and>
     link_peers t ! k = (heard_state (node idA) p)\<lparr>expires_at_us := host_now (node idB) + 5000000\<rparr>"
  using discovery_exchange [where u = "node idA" and a = "0x40001000" and s = "node idB" and m = 1
      and ip = "0x0A000001" and port = 20808] by auto

theorem link_handle_rx_inv_witness:
  "case link_handle_rx 0x40001000 (encode_msg 1 True (node idA)) 0x0A000001 20808 (node idB) of
     None \<Rightarrow> False | Some t \<Rightarrow> peers_inv t"
proof -
  obtain k s' where alloc: "find_or_alloc_peer (link_self_id (node idA)) (node idB) = (Some k, s')"
    by (rule find_or_alloc_peer_room) auto
  then have "\<exists>t. link_handle_rx 0x40001000 (encode_msg 1 True (node idA)) 0x0A000001 20808 (node idB) = Some t"
    by (subst state_msg_received [OF _ _ _ _ alloc]) simp_all
  then show ?thesis
    using link_handle_rx_inv [OF node_peers_inv node_meas_inv] by (auto split: option.split)
qed

text \<open>A session entry, then the header of a timeline of 23 bytes.\<close>

theorem malformed_state_message_witness:
  "\<exists>t k. link_handle_rx 0x40001000 (discovery_header 1 5 idA @ tlv_payload [(KEY_SESS, id_bytes idB)] @
       put_be32 KEY_TMLN @ put_be32 23 @ replicate 23 7) 0 0 (node idB) = Some t \<and> k < 16 \<and>
     in_use (link_peers t ! k) \<and> node_id (link_peers t ! k) = idA \<and> session_id (link_peers t ! k) = idB \<and>
     expires_at_us (link_peers t ! k) = host_now (node idB) + 5000000"
proof -
  let ?b = "put_be32 KEY_TMLN @ put_be32 23 @ replicate 23 7 :: u8 list"
  have size: "drop 4 ?b = put_be32 23 @ replicate 23 7" "tlv_size ?b = 23" "tlv_key ?b = KEY_TMLN"
    by simp_all
  then have "malformed ?b" by (simp add: malformed_def entry_size_def)
  then obtain t k p r q where t: "link_handle_rx 0x40001000 (discovery_header 1 5 idA @
      tlv_payload [(KEY_SESS, id_bytes idB)] @ ?b) 0 0 (node idB) = Some t" "k < length (link_peers (node idB))"
      "in_use p" "node_id p = idA" "tlv_fold handle_entry [(KEY_SESS, id_bytes idB)] p = Some (r, q)"
      "link_peers t ! k = q\<lparr>expires_at_us := host_now (node idB) + 5000000\<rparr>"
    using malformed_state_message [of ?b "0x40001000" "[(KEY_SESS, id_bytes idB)]" 1 idA "node idB" 5 0 0] size(2)
    by auto
  have "q = p\<lparr>session_id := idB\<rparr>"
    using t(5) handle_session [of idB p] by simp
  with t show ?thesis by (intro exI [of _ t] exI [of _ k]) simp
qed

theorem byebye_evicts_witness:
  "\<exists>bye t. link_handle_rx 0x40001000 bye 0 0 (node idB) = Some t \<and> \<not> known_peer idA t"
  using byebye_evicts [where s = "node idB" and u = "node idA" and a = "0x40001000" and ip = 0 and port = 0]
    node_peers_inv by auto

theorem heard_peer_lifetime_witness:
  "\<exists>t k. link_handle_rx 0x40001000 (encode_msg 1 True (node idA)) 0 0 (node idB) = Some t \<and>
     link_handle_rx 0x40001000 ((encode_msg 1 True (node idA))[9 := 60]) 0 0 (node idB) = Some t \<and>
     link_peers (link_tick t) ! k =
       (if unat (host_now t) \<le> unat (host_now (node idB)) + 6000000 then link_peers t ! k else zero_peer)"
proof -
  let ?buf = "encode_msg 1 True (node idA)"
  have buf: "?buf = discovery_header 1 5 idA @ tlv_payload (state_entries (node idA))"
    by (simp add: encode_msg_eq)
  obtain k s' where alloc: "find_or_alloc_peer idA (node idB) = (Some k, s')"
    by (rule find_or_alloc_peer_room) auto
  define t where "t = observe k (heard_state (node idA) (link_peers s' ! k)) True 0 0 s'"
  have rx: "link_handle_rx 0x40001000 ?buf 0 0 (node idB) = Some t"
    using alloc unfolding t_def by (subst state_msg_received) simp_all
  have k: "k < length (link_peers t)"
    using find_or_alloc_peer_Some(1,2) [OF alloc] by (simp add: t_def)
  have now: "unat (host_now (node idB)) + 6000000 < 2 ^ 64"
    by (simp add: host_now_def join_words_same drop_bit_eq_div)
  show ?thesis
    using heard_peer_lifetime [OF rx _ _ _ _ now refl k, where ttl = 60] alloc rx
    unfolding buf discovery_fields by (auto simp: discovery_fields simp del: drop_append)
qed

section \<open>Session election\<close>

theorem session_election_witness:
  "let s = node idB\<lparr>s_active_target_session := idA\<rparr>; t = on_measure_done True (word_of_int (- 1200)) s in
   link_self_session t = idA \<and> intercept t = word_of_int (- 1200)"
proof -
  let ?s = "node idB\<lparr>s_active_target_session := idA\<rparr>"
  have int: "intercept ?s = 0" by (simp add: intercept_def node_def)
  have "sint (word_of_int (- 1200) - intercept ?s) = - 1200"
    by (simp add: int sint_word_of_int_small del: of_int_minus of_int_numeral)
  moreover have "idA < idB" by (simp add: less_link_id_def)
  ultimately show ?thesis
    using session_election [where s = ?s and x = "word_of_int (- 1200)"]
    by (simp add: Let_def del: of_int_minus of_int_numeral)
qed

theorem election_antisymmetric_witness:
  "switch_to_new 100 idA idB \<or> switch_to_new (- 100) idB idA"
  using election_antisymmetric [of idB idA 100] by auto

text \<open>A member of session A as a peer; its timeline starts at 42.\<close>

definition member :: link_peer where
  "member = zero_peer\<lparr>in_use := True, node_id := idA, session_id := idA, mep4_addr := 0x0A000001,
     mep4_port := 20808, timeline := \<lparr>tempo_us_per_beat = 400000, beat_origin_microbeats = 0,
     time_origin_us_ghost = 42\<rparr>\<rparr>"

lemma member_fields [simp]:
  "in_use member" "node_id member = idA" "session_id member = idA" "mep4_addr member = 0x0A000001"
  "mep4_port member = 20808" "\<not> measured member"
  "timeline member = \<lparr>tempo_us_per_beat = 400000, beat_origin_microbeats = 0, time_origin_us_ghost = 42\<rparr>"
  by (simp_all add: member_def zero_peer_def)

theorem joined_timeline_latest_witness:
  "link_self_timeline (on_measure_done True 600000
     (node idB\<lparr>s_active_target_session := idA, link_peers := [member]\<rparr>)) = timeline member"
proof -
  let ?s = "node idB\<lparr>s_active_target_session := idA, link_peers := [member]\<rparr>"
  have "joins 600000 ?s"
    by (simp add: joins_def switch_to_new_def LINK_SESSION_EPS_US_def)
  moreover have "{p \<in> set (link_peers ?s). in_use p \<and> session_id p = s_active_target_session ?s} = {member}"
    by auto
  ultimately show ?thesis
    using joined_timeline_latest [where s = ?s and x = 600000] by (simp only: Let_def) blast
qed

theorem remeasurement_discards_drift_witness:
  "intercept (on_measure_done True 300000 (node idB\<lparr>s_active_target_session := idB\<rparr>)) = 0"
proof -
  let ?s = "node idB\<lparr>s_active_target_session := idB\<rparr>"
  have "intercept ?s = 0" by (simp add: intercept_def node_def)
  then show ?thesis using remeasurement_discards_drift [where s = ?s and x = 300000] by simp
qed

section \<open>Session supervisor\<close>

theorem foreign_session_measured_witness:
  "let t = session_observe_peer 0 (node idB\<lparr>link_peers := [member]\<rparr>) in
   active (meas t) \<and> target_session (meas t) = idA"
proof -
  let ?s = "node idB\<lparr>link_peers := [member]\<rparr>"
  have "worth_measuring 0 0 ?s"
    by (simp add: worth_measuring_def session_known_in_local_view_def find_founder_def Let_def)
  moreover have "\<not> active (meas ?s)" by (simp add: zero_state_def)
  ultimately show ?thesis
    using foreign_session_measured [where s = ?s and k = 0 and f = 0] by (simp add: Let_def)
qed

text \<open>A measurement of session B in progress.\<close>

definition measuring :: state_t where
  "measuring = zero_state\<lparr>active := True, target_addr := 0x0A000002, target_port := 20808,
     target_session := idB, pings_sent := 5, compl_cb := Some On_measure_done\<rparr>"

lemma measuring_fields [simp]:
  "active measuring" "target_session measuring = idB" "target_addr measuring = 0x0A000002"
  "target_port measuring = 20808" "pings_sent measuring = 5" "n_samples measuring = 0"
  "next_send_us measuring = 0" "meas_inv measuring"
  by (simp_all add: measuring_def zero_state_def meas_inv_def measurement_consts)

abbreviation idC :: link_id where "idC \<equiv> Link_id 3 0 0 0 0 0 0 0"

theorem running_measurement_retargeted_witness:
  "let t = session_observe_peer 0 (node idC\<lparr>link_peers := [member], meas := measuring\<rparr>) in
   s_active_target_session t \<noteq> target_session (meas t)"
proof -
  let ?s = "node idC\<lparr>link_peers := [member], meas := measuring\<rparr>"
  have "worth_measuring 0 0 ?s"
    by (simp add: worth_measuring_def session_known_in_local_view_def find_founder_def Let_def)
  moreover have "active (meas ?s)" "target_session (meas ?s) \<noteq> session_id (link_peers ?s ! 0)" by simp_all
  ultimately show ?thesis
    using running_measurement_retargeted [where s = ?s and k = 0 and f = 0 and x = 0]
    unfolding Let_def by blast
qed

theorem session_tick_peer_led_witness:
  "\<not> peer_led (session_tick (node idB\<lparr>link_peers := [member]\<rparr>)) \<and>
   peer_led (session_tick (node idB\<lparr>link_peers := [member], link_self_session := idA\<rparr>))"
  using session_tick_peer_led [of "node idB\<lparr>link_peers := [member]\<rparr>"]
    session_tick_peer_led [of "node idB\<lparr>link_peers := [member], link_self_session := idA\<rparr>"]
    node_flags_inv [of idB]
  by (simp add: flags_inv_def peer_led_def [of "node idB\<lparr>link_peers := [member]\<rparr>"])

section \<open>Measurement\<close>

theorem ping_pong_exchange_witness:
  "\<exists>reply. sent (measurement_responder_handle_rx (encode_ping 1000 0 False) 0x0A000001 20808 (node idB)) =
     sent (node idB) @ [sent_to (ip4_of 0x0A000001) 20808 20808 reply] \<and>
   measurement_handle_rx 0x40001000 reply 0x0A000002 20808 (node idA\<lparr>meas := measuring\<rparr>) =
     Some (accept_pong (pong_of idB (ghost_now (node idB)) 1000 None) (node idA\<lparr>meas := measuring\<rparr>))"
  using ping_pong_exchange [where s = "node idA\<lparr>meas := measuring\<rparr>" and r = "node idB"
      and a = "0x40001000" and t = 1000 and g = 0 and hp = False and ip = "0x0A000001" and port = 20808]
  by auto

theorem measurement_within_half_round_trip_witness:
  "let s = node idA\<lparr>meas := measuring\<rparr>; c = (pong_of idB 999998 999995 None) in
   (\<exists>x t. accept_pong c s = call_completion True x t \<and> 2 * \<bar>sint x\<bar> \<le> 11) \<or> active (meas (accept_pong c s))"
proof -
  let ?s = "node idA\<lparr>meas := measuring\<rparr>" and ?c = "pong_of idB 999998 999995 None"
  have "host_now ?s = 1000000" by (simp add: host_now_def join_words_same drop_bit_eq_div)
  then have "honest_pong 0 10 (host_now ?s) ?c"
    by (simp add: honest_pong_def pong_of_def)
  then show ?thesis
    using measurement_within_half_round_trip [where s = ?s and c = ?c and d = 0 and R = 10]
    by (simp add: accurate_def Let_def) blast
qed

theorem measurement_ops_inv_witness: "meas_inv (meas (measurement_tick (node idA\<lparr>meas := measuring\<rparr>)))"
  using measurement_ops_inv [of "node idA\<lparr>meas := measuring\<rparr>"] by simp

theorem unanswered_measurement_ends_witness:
  "\<not> active (meas ((measurement_tick ^^ 5) (node idA\<lparr>meas := measuring\<rparr>)))"
proof (rule unanswered_measurement_ends)
  let ?s = "node idA\<lparr>meas := measuring\<rparr>"
  have "ping_due ?s" by (simp add: ping_due_def)
  then have "\<not> active (meas (measurement_tick ?s))"
    using measurement_tick_due [of ?s] by (simp add: LINK_MAX_PINGS_def)
  then have idle: "\<not> active (meas ((measurement_tick ^^ Suc k) ?s))" for k
    by (induction k) (auto dest: measurement_tick_active)
  show "ping_due ((measurement_tick ^^ k) ?s)" if "active (meas ((measurement_tick ^^ k) ?s))" for k
    using that idle \<open>ping_due ?s\<close> by (cases k) auto
qed simp

section \<open>The peer table\<close>

theorem peer_table_refines_witness:
  "map_option peer_map (link_handle_rx 0x40000000 (encode_msg 1 True (node idB)) 0x0A000002 20808 (node idA)) =
     discovery_spec 0x40000000 (encode_msg 1 True (node idB)) (host_now (node idA)) idA (peer_map (node idA))"
  using peer_table_refines [OF node_peers_inv] by simp

section \<open>Two nodes\<close>

text \<open>Nodes whose clocks stand still: every round is timely, and nothing else in it reads a clock.\<close>

definition still :: "u64 \<Rightarrow> 'a meas_st_scheme \<Rightarrow> bool" where
  "still c s \<longleftrightarrow> host_clk s = (\<lambda>_. c) \<and> (active (meas s) \<longrightarrow> prev_host_time (meas s) = c)"

lemma still_now: "host_clk s = (\<lambda>_. c) \<Longrightarrow> host_now s = c" "host_clk s = (\<lambda>_. c) \<Longrightarrow> intercept s = 0 \<Longrightarrow> ghost_now s = c"
  by (simp_all add: host_now_def ghost_now_def join_words_same)

lemma still_send_ping: "host_clk s = (\<lambda>_. c) \<Longrightarrow> still c (send_ping s)"
  by (simp add: still_def still_now) (simp add: send_ping_def host_time_us_eq Let_def logged_def)

lemma still_measure_done: "host_clk (on_measure_done ok x s) = host_clk s"
  by (simp add: on_measure_done_def Let_def host_time_us_eq adopt_best_def ghost_time_set_intercept_def
      beat_pulse_set_sync_led_def flags_write_def beat_pulse_load_timeline_def link_broadcast_alive_now_def split: option.split)

lemma still_measurement:
  assumes "measurement_handle_rx a buf ip port s = Some t" "still c s"
  shows "still c t"
  using assms(1)
proof (cases rule: measurement_handle_rx_cases)
  case (reply x)
  have clk: "host_clk (call_completion ok y z) = host_clk z" for ok y and z :: "'a meas_st_scheme"
    by (simp add: call_completion_def still_measure_done split: option.split completion.split)
  have s: "host_clk s = (\<lambda>_. c)" using assms(2) by (simp add: still_def)
  show ?thesis
  proof (cases "LINK_SAMPLE_THRESHOLD < n_samples (take_samples x (host_now s) (meas s))")
    case True
    then show ?thesis using s by (simp add: reply(5) accept_pong_def Let_def host_time_us_eq case_prod_beta still_def clk)
  next
    case False
    then show ?thesis
      unfolding reply(5) accept_pong_def Let_def host_time_us_eq prod.case using s
      by (simp add: still_send_ping)
  qed
qed (use assms(2) in \<open>simp_all add: still_def\<close>)

lemma still_discovery:
  assumes "link_handle_rx a buf ip port s = Some t" "still c s"
  shows "still c t"
  using assms(1)
proof (cases rule: link_handle_rx_cases)
  case (byebye i)
  have "host_clk (evict_peer i s) = host_clk s" by (simp add: evict_peer_def split: option.split)
  with byebye assms(2) show ?thesis by (simp add: still_def)
next
  case (state k s' r p)
  have "host_clk s' = host_clk s \<and> meas s' = meas s"
    using state(1) by (auto simp: find_or_alloc_peer_def split: prod.splits option.splits)
  with assms(2) have s': "still c s'" by (simp add: still_def)
  have "still c (session_observe_peer k x)" if "still c x" for x :: "'a meas_st_scheme" and k
    using that by (auto simp: session_observe_peer_def Let_def measurement_start_def intro!: still_send_ping split: option.split)
      (simp_all add: still_def)
  moreover have "still c (store_peer k (p\<lparr>expires_at_us := e\<rparr>) (s'\<lparr>n_reads := n\<rparr>))" for e n
    using s' by (simp add: still_def store_peer_def)
  moreover have "still c (send_response x y z) = still c z" for x y and z :: "'a meas_st_scheme"
    by (simp add: still_def) (simp add: send_response_def logged_def)
  ultimately show ?thesis by (simp add: state(4) observe_def Let_def)
qed (use assms(2) in simp)

lemma still_rounds:
  assumes "ping_rounds a ip port aport n (u, v) = Some (t, w)" "still c u" "host_clk v = (\<lambda>_. c)" "intercept v = 0"
  shows "still c t \<and> host_clk w = (\<lambda>_. c) \<and> intercept w = 0"
  using assms
proof (induction n arbitrary: u v)
  case (Suc n)
  obtain x where x: "measurement_handle_rx a (payload (last (sent (measurement_responder_handle_rx (last_ping u) ip port v))))
      (net_local_ipv4 v) aport u = Some x"
    and rest: "ping_rounds a ip port aport n (x, measurement_responder_handle_rx (last_ping u) ip port v) = Some (t, w)"
    using Suc.prems(1) by (auto simp: ping_round_def Let_def bind_eq_Some_conv)
  have "host_clk (measurement_responder_handle_rx b ip port v) = host_clk v"
    "intercept (measurement_responder_handle_rx b ip port v) = intercept v" for b
    by (simp_all add: measurement_responder_handle_rx_def Let_def ghost_time_us_eq logged_def intercept_def)
  then show ?case using Suc.IH [OF rest still_measurement [OF x Suc.prems(2)]] Suc.prems(3,4) by simp
qed simp

lemma still_timely: "still 1000000 t \<Longrightarrow> active (meas t) \<Longrightarrow> host_clk w = (\<lambda>_. 1000000) \<Longrightarrow> intercept w = 0 \<Longrightarrow> timely 0 0 t w"
  by (simp add: timely_def still_now still_def)

abbreviation stopped :: "link_id \<Rightarrow> meas_st" where
  "stopped i \<equiv> (node i)\<lparr>host_clk := \<lambda>_. 1000000\<rparr>"

lemma node_joins_witness:
  "\<exists>u. link_handle_rx 0x40000000 (encode_msg 1 True (stopped idA)) 0x0A000001 20808 (stopped idB) = Some u \<and>
     (\<exists>n t w. n \<le> 101 \<and> ping_rounds 0x40000000 0x0A000002 20808 20808 n (u, stopped idA) = Some (t, w) \<and> link_self_session t = idA) \<and>
     (\<exists>w. ping_rounds 0x40000000 0x0A000002 20808 49152 1000 (u, stopped idA) = Some (u, w)) \<and> link_self_session u = idB"
proof -
  have port: "LINK_DISCOVERY_PORT = 20808" "(49152::u16) \<noteq> LINK_DISCOVERY_PORT" by (simp_all add: LINK_DISCOVERY_PORT_def)
  have stopped: "intercept (stopped i) = 0" "idA < idB" for i
    by (simp_all add: intercept_def less_link_id_def) (simp add: node_def)
  have "net_local_ipv4 (stopped idA) \<noteq> 0" by (simp add: net_local_ipv4_def lwip_htonl_def node_def be32_def)
  then have 1: "newcomer (stopped idA) (stopped idB)" by (simp add: newcomer_def known_peer_def)
  have 2: "meas_inv (meas (stopped idB))" using node_meas_inv [of idB] by simp
  have 3: "preferable 0 0 (stopped idA) (stopped idB)" by (simp add: preferable_def Let_def stopped)
  have still: "still 1000000 (stopped idB)" "\<not> active (meas (stopped idB))" by (simp_all add: still_def zero_state_def)
  have timely: "timely 0 0 t w"
    if u: "link_handle_rx 0x40000000 (encode_msg 1 True (stopped idA)) 0x0A000001 20808 (stopped idB) = Some u"
      and t: "ping_rounds 0x40000000 0x0A000002 20808 LINK_DISCOVERY_PORT n (u, stopped idA) = Some (t, w)" "active (meas t)"
    for u n t w
  proof -
    have "still 1000000 u" by (rule still_discovery [OF u still(1)])
    from still_rounds [OF t(1) this _ stopped(1)] t(2) show ?thesis by (simp add: still_timely)
  qed
  have a: "unat (0x40000000 :: u32) + 512 < 2 ^ 32" "\<bar>0 :: int\<bar> < 2 ^ 60" "(0 :: int) \<le> 0" "(0 :: int) < 2 ^ 61"
    "\<bar>sint (intercept (stopped idB))\<bar> < 2 ^ 61" by (simp_all add: stopped)
  have id: "link_self_session (stopped i) = i" for i by simp
  have "\<exists>u. link_handle_rx 0x40000000 (encode_msg 1 True (stopped idA)) 0x0A000001 20808 (stopped idB) = Some u \<and>
      active (meas u) \<and>
      (\<exists>n t w. n \<le> 101 \<and> ping_rounds 0x40000000 0x0A000002 20808 LINK_DISCOVERY_PORT n (u, stopped idA) = Some (t, w) \<and>
        \<not> active (meas t) \<and> link_self_session t = link_self_session (stopped idA) \<and> 2 * \<bar>sint (intercept t) - 0\<bar> \<le> 0 + 1 \<and>
        link_self_timeline t = link_self_timeline (stopped idA) \<and> s_state_dirty t) \<and>
      (\<forall>n aport. aport \<noteq> LINK_DISCOVERY_PORT \<longrightarrow>
        (\<exists>w. ping_rounds 0x40000000 0x0A000002 20808 aport n (u, stopped idA) = Some (u, w)) \<and>
        link_self_session u = link_self_session (stopped idB))"
    by (rule node_joins [OF 1 2 still(2) a(1) 3 a(2-5)]) (rule timely)
  then show ?thesis
    using port(2) unfolding port(1) id by blast
qed

end
