(* ===== verification/Midi.thy ===== *)
theory Midi
  imports Audio_Inv
begin

text \<open>
  \<^verbatim>\<open>firmware/midi.c\<close>: the registers of the MIDI core (two byte queues, one slot for a received
  real-time byte with its time stamp, the period meter and the automatic transmission mask), and the
  follower that drives the local tempo and transport from an incoming clock. The hardware does not
  move during one call.
\<close>

definition MIDI_RT_CLOCK :: u8 where "MIDI_RT_CLOCK = 0xF8"
definition MIDI_RT_START :: u8 where "MIDI_RT_START = 0xFA"
definition MIDI_RT_CONTINUE :: u8 where "MIDI_RT_CONTINUE = 0xFB"
definition MIDI_RT_STOP :: u8 where "MIDI_RT_STOP = 0xFC"
definition MIDI_AUTO_CLOCK :: u8 where "MIDI_AUTO_CLOCK = 0x01"
definition MIDI_AUTO_START :: u8 where "MIDI_AUTO_START = 0x02"
definition MIDI_AUTO_STOP :: u8 where "MIDI_AUTO_STOP = 0x04"

lemmas midi_consts = MIDI_RT_CLOCK_def MIDI_RT_START_def MIDI_RT_CONTINUE_def MIDI_RT_STOP_def
  MIDI_AUTO_CLOCK_def MIDI_AUTO_START_def MIDI_AUTO_STOP_def

datatype midi_sync_mode_t = MIDI_SYNC_OFF | MIDI_SYNC_OBSERVE | MIDI_SYNC_FOLLOWER

text \<open>Registers, then the module's own variables. The queues hold 64 bytes.\<close>

record midi_st = audio_st +
  midi_ctrl :: u8
  midi_auto_tx_ctrl :: u8
  midi_tx_fifo :: "u8 list"
  midi_rx_fifo :: "u8 list"
  midi_rt_ev :: "(u8 \<times> u64) option"
  midi_clk_period :: u32
  s_sync_mode :: midi_sync_mode_t
  s_observed_bpm :: f64
  s_observed_period_us :: u32
  s_last_clock_ts :: u64

definition midi_init :: "'a midi_st_scheme \<Rightarrow> 'a midi_st_scheme" where
  "midi_init s = s\<lparr>midi_ctrl := 0x01,
     midi_auto_tx_ctrl := MIDI_AUTO_CLOCK OR MIDI_AUTO_START OR MIDI_AUTO_STOP,
     s_sync_mode := MIDI_SYNC_OBSERVE, s_observed_bpm := Fin 0, s_observed_period_us := 0, s_last_clock_ts := 0\<rparr>"

definition midi_send_byte :: "u8 \<Rightarrow> 'a midi_st_scheme \<Rightarrow> int \<times> 'a midi_st_scheme" where
  "midi_send_byte b s =
     (if 64 - length (midi_tx_fifo s) = 0 then (- 1, s)
      else (0, s\<lparr>midi_tx_fifo := midi_tx_fifo s @ [b]\<rparr>))"

definition midi_set_auto_tx :: "u8 \<Rightarrow> 'a midi_st_scheme \<Rightarrow> 'a midi_st_scheme" where
  "midi_set_auto_tx flags s = s\<lparr>midi_auto_tx_ctrl := flags AND 0x07\<rparr>"

definition midi_get_auto_tx :: "'a midi_st_scheme \<Rightarrow> u8" where
  "midi_get_auto_tx s = midi_auto_tx_ctrl s AND 0x07"

definition midi_recv_byte :: "'a midi_st_scheme \<Rightarrow> (int \<times> u8 option) \<times> 'a midi_st_scheme" where
  "midi_recv_byte s =
     (case midi_rx_fifo s of [] \<Rightarrow> ((- 1, None), s)
      | b # bs \<Rightarrow> ((0, Some b), s\<lparr>midi_rx_fifo := bs\<rparr>))"

definition midi_set_sync_mode :: "midi_sync_mode_t \<Rightarrow> 'a midi_st_scheme \<Rightarrow> 'a midi_st_scheme" where
  "midi_set_sync_mode m s = s\<lparr>s_sync_mode := m\<rparr>"

definition midi_get_sync_mode :: "'a midi_st_scheme \<Rightarrow> midi_sync_mode_t" where
  "midi_get_sync_mode s = s_sync_mode s"

definition midi_observed_bpm :: "'a midi_st_scheme \<Rightarrow> f64" where
  "midi_observed_bpm s = s_observed_bpm s"

definition midi_observed_period_us :: "'a midi_st_scheme \<Rightarrow> u32" where
  "midi_observed_period_us s = s_observed_period_us s"

definition midi_last_clock_ts_us :: "'a midi_st_scheme \<Rightarrow> u64" where
  "midi_last_clock_ts_us s = s_last_clock_ts s"

definition midi_tick :: "'a midi_st_scheme \<Rightarrow> 'a midi_st_scheme option" where
  "midi_tick s =
     (let period = midi_clk_period s;
          s = (if 0 < period \<and> period \<noteq> s_observed_period_us s
               then s\<lparr>s_observed_period_us := period,
                      s_observed_bpm := f64_div (Fin 60000000) (f64_mul (f64_of_u32 period) (Fin 24))\<rparr>
               else s)
      in case midi_rt_ev s of
           None \<Rightarrow> Some s
         | Some (byte, stamp) \<Rightarrow>
             let lo = ucast stamp :: u32; hi = ucast (drop_bit 32 stamp) :: u32;
                 ts = push_bit 32 (ucast hi) OR ucast lo;
                 s = s\<lparr>midi_rt_ev := None\<rparr>
             in if byte = MIDI_RT_CLOCK then
                  let s = s\<lparr>s_last_clock_ts := ts\<rparr> in
                  if s_sync_mode s = MIDI_SYNC_FOLLOWER \<and> f64_less (Fin 0) (s_observed_bpm s)
                  then link_set_local_tempo (s_observed_bpm s) s
                  else Some s
                else if byte = MIDI_RT_START \<or> byte = MIDI_RT_CONTINUE then
                  if s_sync_mode s \<noteq> MIDI_SYNC_OFF then link_set_play True s else Some s
                else if byte = MIDI_RT_STOP then
                  if s_sync_mode s \<noteq> MIDI_SYNC_OFF then link_set_play False s else Some s
                else Some s)"

section \<open>The follower\<close>

text \<open>The observed tempo is that of the observed period.\<close>

definition midi_inv :: "'a midi_st_scheme \<Rightarrow> bool" where
  "midi_inv s \<longleftrightarrow> s_observed_bpm s = (if s_observed_period_us s = 0 then Fin 0
     else bpm_of_beat (f64_mul (f64_of_u32 (s_observed_period_us s)) (Fin (of_int 24)))) \<and>
     length (midi_tx_fifo s) \<le> 64"

lemma midi_retimed [simp]:
  "midi_rt_ev (retimed tml ss n s) = midi_rt_ev s" "midi_clk_period (retimed tml ss n s) = midi_clk_period s"
  "s_observed_period_us (retimed tml ss n s) = s_observed_period_us s"
  "s_observed_bpm (retimed tml ss n s) = s_observed_bpm s" "s_last_clock_ts (retimed tml ss n s) = s_last_clock_ts s"
  "s_sync_mode (retimed tml ss n s) = s_sync_mode s" "midi_tx_fifo (retimed tml ss n s) = midi_tx_fifo s"
  "midi_rx_fifo (retimed tml ss n s) = midi_rx_fifo s"
  by (simp_all add: retimed_def link_broadcast_alive_now_def host_time_us_eq beat_pulse_load_timeline_def Let_def
      flags_write_def)

text \<open>The meter read, and then the pending byte handled.\<close>

definition midi_measure :: "'a midi_st_scheme \<Rightarrow> 'a midi_st_scheme" where
  "midi_measure s =
     (let period = midi_clk_period s in
      if 0 < period \<and> period \<noteq> s_observed_period_us s
      then s\<lparr>s_observed_period_us := period,
             s_observed_bpm := bpm_of_beat (f64_mul (f64_of_u32 period) (Fin (of_int 24)))\<rparr>
      else s)"

lemma midi_measure_fields [simp]:
  "midi_clk_period (midi_measure s) = midi_clk_period s" "midi_rt_ev (midi_measure s) = midi_rt_ev s"
  "s_sync_mode (midi_measure s) = s_sync_mode s" "midi_tx_fifo (midi_measure s) = midi_tx_fifo s"
  "link_self_timeline (midi_measure s) = link_self_timeline s" "ghost_now (midi_measure s) = ghost_now s"
  "link_self_startstop (midi_measure s) = link_self_startstop s" "n_reads (midi_measure s) = n_reads s"
  "0 < midi_clk_period s \<Longrightarrow> s_observed_period_us (midi_measure s) = midi_clk_period s"
  by (simp_all add: midi_measure_def Let_def ghost_now_def intercept_def)

lemma midi_measure_idem [simp]: "midi_measure (midi_measure s) = midi_measure s"
  by (simp add: midi_measure_def Let_def)

lemma midi_measure_inv: "midi_inv s \<Longrightarrow> midi_inv (midi_measure s)"
  by (auto simp: midi_measure_def midi_inv_def Let_def)

lemma stamp_joined: "push_bit 32 (ucast (ucast (drop_bit 32 x) :: u32)) OR ucast (ucast x :: u32) = (x :: u64)"
  using join_words_same [of x x] by (simp add: join_words_def)

lemma midi_tick_measure:
  "midi_tick s = (case midi_rt_ev s of
      None \<Rightarrow> Some (midi_measure s)
    | Some (byte, ts) \<Rightarrow>
        let u = (midi_measure s)\<lparr>midi_rt_ev := None\<rparr> in
        if byte = MIDI_RT_CLOCK then
          let v = u\<lparr>s_last_clock_ts := ts\<rparr> in
          if s_sync_mode s = MIDI_SYNC_FOLLOWER \<and> f64_less (Fin 0) (s_observed_bpm v)
          then link_set_local_tempo (s_observed_bpm v) v else Some v
        else if (byte = MIDI_RT_START \<or> byte = MIDI_RT_CONTINUE \<or> byte = MIDI_RT_STOP) \<and> s_sync_mode s \<noteq> MIDI_SYNC_OFF
        then link_set_play (byte \<noteq> MIDI_RT_STOP) u else Some u)"
  by (auto simp: midi_tick_def midi_measure_def bpm_of_beat_def Let_def stamp_joined midi_consts split: option.split)

text \<open>The byte handled is gone, and nothing but the two setters touches the Link state.\<close>

lemma midi_tick_cases:
  assumes "midi_tick s = Some t"
  obtains (quiet) u where "t = u" "u = midi_measure s\<lparr>midi_rt_ev := None\<rparr> \<or> (\<exists>ts. u = midi_measure s\<lparr>midi_rt_ev := None, s_last_clock_ts := ts\<rparr>)"
  | (retimed) u tml ss n where "t = retimed tml ss n u"
      "u = midi_measure s\<lparr>midi_rt_ev := None\<rparr> \<or> (\<exists>ts. u = midi_measure s\<lparr>midi_rt_ev := None, s_last_clock_ts := ts\<rparr>)"
proof (cases "midi_rt_ev s")
  case None
  with assms have "t = midi_measure s" by (simp add: midi_tick_measure)
  moreover have "midi_measure s = midi_measure s\<lparr>midi_rt_ev := None\<rparr>"
    using None by (simp add: midi_measure_def Let_def)
  ultimately show thesis using quiet by metis
next
  case (Some q)
  obtain byte ts where q: "q = (byte, ts)" by (cases q)
  let ?u = "midi_measure s\<lparr>midi_rt_ev := None\<rparr>" and ?v = "midi_measure s\<lparr>midi_rt_ev := None, s_last_clock_ts := ts\<rparr>"
  have "t = ?u \<or> t = ?v \<or> link_set_local_tempo (s_observed_bpm ?v) ?v = Some t \<or>
      link_set_play (byte \<noteq> MIDI_RT_STOP) ?u = Some t"
    using assms by (auto simp: midi_tick_measure Some q Let_def split: if_splits)
  then show thesis
    using quiet retimed link_set_local_tempo_SomeD [of "s_observed_bpm ?v" ?v t] link_set_play_SomeD [of "byte \<noteq> MIDI_RT_STOP" ?u t]
    by metis
qed

lemma midi_tick_inv:
  assumes "midi_inv s" "midi_tick s = Some t"
  shows "midi_inv t \<and> midi_rt_ev t = None"
  using assms(2) midi_measure_inv [OF assms(1)] by (cases rule: midi_tick_cases) (auto simp: midi_inv_def)

text \<open>
  C25: In follower mode a received clock byte sets the tempo to exactly 24 measured clock periods per
  beat: the period is turned into a \<open>double\<close> number of beats per minute and back without an error,
  for every period the meter can show. The beat position does not jump.
\<close>

theorem midi_follower_tempo:
  assumes "midi_inv s" "s_sync_mode s = MIDI_SYNC_FOLLOWER" "midi_rt_ev s = Some (MIDI_RT_CLOCK, ts)"
    "0 < midi_clk_period s" "usable_timeline (link_self_timeline s) (ghost_now s)"
  shows "\<exists>t. midi_tick s = Some t \<and>
    sint (tempo_us_per_beat (link_self_timeline t)) = 24 * uint (midi_clk_period s) \<and>
    s_last_clock_ts t = ts \<and> midi_rt_ev t = None \<and>
    \<bar>beat_pos (link_self_timeline t) (ghost_now s) - beat_pos (link_self_timeline s) (ghost_now s)\<bar>
      < 1 + \<bar>beat_pos (link_self_timeline s) (ghost_now s) -
             of_int (sint (beat_origin_microbeats (link_self_timeline s)))\<bar> / 2 ^ 51"
proof -
  let ?p = "uint (midi_clk_period s)"
  let ?v = "midi_measure s\<lparr>midi_rt_ev := None, s_last_clock_ts := ts\<rparr>"
  have p: "0 < ?p" "?p < 2 ^ 32"
    using assms(4) uint_lt2p [of "midi_clk_period s"] by (simp_all add: word_less_def)
  have bpm: "s_observed_bpm ?v = bpm_of_beat (f64_mul (f64_of_u32 (midi_clk_period s)) (Fin (of_int 24)))"
    using midi_measure_inv [OF assms(1)] assms(4) less_imp_neq [OF assms(4)] by (simp add: midi_inv_def)
  note beat = clock_beat [OF p(1), of 24]
  have now: "ghost_now ?v = ghost_now s" "link_self_timeline ?v = link_self_timeline s"
    using midi_measure_fields(5,6) [of s] by (simp_all add: ghost_now_def intercept_def)
  obtain q where q: "link_set_local_tempo (s_observed_bpm ?v) ?v = Some (retimed
      \<lparr>tempo_us_per_beat = word_of_int (?p * 24), beat_origin_microbeats = q, time_origin_us_ghost = ghost_now s\<rparr>
      (link_self_startstop ?v) (n_reads ?v + 3) ?v)"
    "\<bar>of_int (sint q) - beat_pos (link_self_timeline s) (ghost_now s)\<bar>
      < 1 + \<bar>beat_pos (link_self_timeline s) (ghost_now s) -
             of_int (sint (beat_origin_microbeats (link_self_timeline s)))\<bar> / 2 ^ 51"
    using set_tempo_usable [where s = ?v and bpm = "s_observed_bpm ?v" and r = "word_of_int (?p * 24)"] beat(1) bpm assms(5)
    unfolding now by auto
  have "sint (word_of_int (?p * 24) :: i64) = ?p * 24"
    using p by (intro sint_word_of_int_small) simp
  moreover have "midi_tick s = link_set_local_tempo (s_observed_bpm ?v) ?v"
    using beat(2) bpm assms(2,3) by (simp add: midi_tick_measure Let_def)
  ultimately show ?thesis
    using q by (simp add: beat_pos_def)
qed

text \<open>
  C32: A received real-time byte is acted on once: a second call with unchanged inputs does nothing. In
  observing mode, documented as leaving Link alone, a START, CONTINUE or STOP byte nevertheless starts
  or stops the local session.
\<close>

theorem midi_events_once:
  assumes "midi_tick s = Some t"
  shows "midi_tick t = Some t \<and>
    (s_sync_mode s = MIDI_SYNC_OBSERVE \<and> midi_rt_ev s = Some (byte, ts) \<and>
       byte \<in> {MIDI_RT_START, MIDI_RT_CONTINUE, MIDI_RT_STOP} \<longrightarrow>
     is_playing (link_self_startstop t) = (if byte = MIDI_RT_STOP then 0 else 1))"
proof
  show "midi_tick t = Some t"
    using assms
    by (rule midi_tick_cases) (auto simp: midi_tick_measure midi_measure_def Let_def)
next
  show "s_sync_mode s = MIDI_SYNC_OBSERVE \<and> midi_rt_ev s = Some (byte, ts) \<and>
       byte \<in> {MIDI_RT_START, MIDI_RT_CONTINUE, MIDI_RT_STOP} \<longrightarrow>
     is_playing (link_self_startstop t) = (if byte = MIDI_RT_STOP then 0 else 1)"
  proof (intro impI)
    assume b: "s_sync_mode s = MIDI_SYNC_OBSERVE \<and> midi_rt_ev s = Some (byte, ts) \<and>
       byte \<in> {MIDI_RT_START, MIDI_RT_CONTINUE, MIDI_RT_STOP}"
    then have "byte \<noteq> MIDI_RT_CLOCK" by (auto simp: midi_consts)
    with b assms have "link_set_play (byte \<noteq> MIDI_RT_STOP) (midi_measure s\<lparr>midi_rt_ev := None\<rparr>) = Some t"
      by (auto simp: midi_tick_measure)
    then show "is_playing (link_self_startstop t) = (if byte = MIDI_RT_STOP then 0 else 1)"
      by (auto simp: link_set_play_def ghost_time_us_eq Let_def bind_eq_Some_conv)
  qed
qed

end
