(* ===== verification/Eurorack.thy ===== *)
theory Eurorack
  imports Midi
begin

text \<open>
  \<^verbatim>\<open>firmware/eurorack.c\<close>: edge counters, period meter and run level of the three trigger inputs, and
  the follower that drives tempo, phase and transport from them. The inputs do not move during one
  call.
\<close>

datatype euro_sync_mode_t = EURO_SYNC_OFF | EURO_SYNC_OBSERVE | EURO_SYNC_FOLLOWER

text \<open>Registers, then the module's own variables. The status register has the run level in bit 0.\<close>

record euro_st = midi_st +
  eurorack_ctrl :: u8
  eurorack_status :: u8
  eurorack_clk_count :: u32
  eurorack_clk_period :: u32
  eurorack_rst_count :: u32
  eurorack_run_count :: u32
  s_mode :: euro_sync_mode_t
  s_ppqn :: u8
  s_bpm :: f64
  s_period :: u32
  s_last_clk_count :: u32
  s_last_rst_count :: u32
  s_last_run_count :: u32
  s_run_level :: bool

abbreviation run_input :: "'a euro_st_scheme \<Rightarrow> bool" where
  "run_input s \<equiv> eurorack_status s AND 1 \<noteq> 0"

definition euro_init :: "'a euro_st_scheme \<Rightarrow> 'a euro_st_scheme" where
  "euro_init s = s\<lparr>eurorack_ctrl := 0x01, s_mode := EURO_SYNC_OBSERVE, s_ppqn := 4, s_bpm := Fin 0, s_period := 0,
     s_last_clk_count := eurorack_clk_count s, s_last_rst_count := eurorack_rst_count s,
     s_last_run_count := eurorack_run_count s, s_run_level := run_input s\<rparr>"

definition euro_set_ppqn :: "u8 \<Rightarrow> 'a euro_st_scheme \<Rightarrow> 'a euro_st_scheme" where
  "euro_set_ppqn ppqn s = s\<lparr>s_ppqn := (if ppqn = 0 then 1 else ppqn)\<rparr>"

definition euro_get_ppqn :: "'a euro_st_scheme \<Rightarrow> u8" where
  "euro_get_ppqn s = s_ppqn s"

definition euro_set_sync_mode :: "euro_sync_mode_t \<Rightarrow> 'a euro_st_scheme \<Rightarrow> 'a euro_st_scheme" where
  "euro_set_sync_mode m s = s\<lparr>s_mode := m\<rparr>"

definition euro_get_sync_mode :: "'a euro_st_scheme \<Rightarrow> euro_sync_mode_t" where
  "euro_get_sync_mode s = s_mode s"

definition euro_observed_bpm :: "'a euro_st_scheme \<Rightarrow> f64" where
  "euro_observed_bpm s = s_bpm s"

definition euro_observed_period_us :: "'a euro_st_scheme \<Rightarrow> u32" where
  "euro_observed_period_us s = s_period s"

definition euro_clk_count :: "'a euro_st_scheme \<Rightarrow> u32" where
  "euro_clk_count s = eurorack_clk_count s"

definition euro_run_level :: "'a euro_st_scheme \<Rightarrow> bool" where
  "euro_run_level s = s_run_level s"

text \<open>\<open>euro_tick\<close>, one definition per event it reacts to.\<close>

definition euro_measure :: "'a euro_st_scheme \<Rightarrow> 'a euro_st_scheme" where
  "euro_measure s =
     (let period = eurorack_clk_period s in
      if 0 < period \<and> period \<noteq> s_period s
      then s\<lparr>s_period := period,
             s_bpm := f64_div (Fin 60000000) (f64_mul (f64_of_u32 period) (Fin (of_int (uint (s_ppqn s)))))\<rparr>
      else s)"

definition euro_clock_edge :: "'a euro_st_scheme \<Rightarrow> 'a euro_st_scheme option" where
  "euro_clock_edge s =
     (if eurorack_clk_count s \<noteq> s_last_clk_count s then
        let s = s\<lparr>s_last_clk_count := eurorack_clk_count s\<rparr> in
        if s_mode s = EURO_SYNC_FOLLOWER \<and> f64_less (Fin 0) (s_bpm s)
        then link_set_local_tempo (s_bpm s) s else Some s
      else Some s)"

definition euro_reset_edge :: "'a euro_st_scheme \<Rightarrow> 'a euro_st_scheme" where
  "euro_reset_edge s =
     (if eurorack_rst_count s \<noteq> s_last_rst_count s then
        let s = s\<lparr>s_last_rst_count := eurorack_rst_count s\<rparr> in
        if s_mode s = EURO_SYNC_FOLLOWER then
          let s = s\<lparr>link_self_timeline := (link_self_timeline s)\<lparr>beat_origin_microbeats := 0\<rparr>\<rparr>;
              (t, s) = ghost_time_us s;
              s = s\<lparr>link_self_timeline := (link_self_timeline s)\<lparr>time_origin_us_ghost := t\<rparr>\<rparr>
          in link_broadcast_alive_now s
        else s
      else s)"

definition euro_run_edge :: "'a euro_st_scheme \<Rightarrow> 'a euro_st_scheme option" where
  "euro_run_edge s =
     (if eurorack_run_count s \<noteq> s_last_run_count s \<or> run_input s \<noteq> s_run_level s then
        let s = s\<lparr>s_last_run_count := eurorack_run_count s, s_run_level := run_input s\<rparr> in
        if s_mode s = EURO_SYNC_FOLLOWER then link_set_play (run_input s) s else Some s
      else Some s)"

definition euro_tick :: "'a euro_st_scheme \<Rightarrow> 'a euro_st_scheme option" where
  "euro_tick s = do {
     s \<leftarrow> euro_clock_edge (euro_measure s);
     euro_run_edge (euro_reset_edge s)
   }"

section \<open>The follower\<close>

lemma euro_retimed [simp]:
  "eurorack_clk_count (retimed tml ss n s) = eurorack_clk_count s"
  "eurorack_rst_count (retimed tml ss n s) = eurorack_rst_count s"
  "eurorack_run_count (retimed tml ss n s) = eurorack_run_count s"
  "eurorack_status (retimed tml ss n s) = eurorack_status s" "eurorack_clk_period (retimed tml ss n s) = eurorack_clk_period s"
  "s_last_clk_count (retimed tml ss n s) = s_last_clk_count s" "s_last_rst_count (retimed tml ss n s) = s_last_rst_count s"
  "s_last_run_count (retimed tml ss n s) = s_last_run_count s" "s_run_level (retimed tml ss n s) = s_run_level s"
  "s_mode (retimed tml ss n s) = s_mode s" "s_period (retimed tml ss n s) = s_period s"
  "s_ppqn (retimed tml ss n s) = s_ppqn s" "s_bpm (retimed tml ss n s) = s_bpm s"
  by (simp_all add: retimed_def link_broadcast_alive_now_def host_time_us_eq beat_pulse_load_timeline_def Let_def
      flags_write_def)

lemma euro_reset_edge_fields [simp]:
  "eurorack_clk_count (euro_reset_edge s) = eurorack_clk_count s" "eurorack_rst_count (euro_reset_edge s) = eurorack_rst_count s"
  "eurorack_run_count (euro_reset_edge s) = eurorack_run_count s" "eurorack_status (euro_reset_edge s) = eurorack_status s"
  "eurorack_clk_period (euro_reset_edge s) = eurorack_clk_period s" "s_last_clk_count (euro_reset_edge s) = s_last_clk_count s"
  "s_last_rst_count (euro_reset_edge s) = eurorack_rst_count s" "s_period (euro_reset_edge s) = s_period s"
  "s_last_run_count (euro_reset_edge s) = s_last_run_count s" "s_run_level (euro_reset_edge s) = s_run_level s"
  by (simp_all add: euro_reset_edge_def link_broadcast_alive_now_def host_time_us_eq ghost_time_us_eq Let_def)

lemma euro_measure_fields [simp]:
  "eurorack_clk_count (euro_measure s) = eurorack_clk_count s" "eurorack_rst_count (euro_measure s) = eurorack_rst_count s"
  "eurorack_run_count (euro_measure s) = eurorack_run_count s" "eurorack_status (euro_measure s) = eurorack_status s"
  "eurorack_clk_period (euro_measure s) = eurorack_clk_period s" "s_last_clk_count (euro_measure s) = s_last_clk_count s"
  "s_last_rst_count (euro_measure s) = s_last_rst_count s" "s_last_run_count (euro_measure s) = s_last_run_count s"
  "s_run_level (euro_measure s) = s_run_level s" "s_mode (euro_measure s) = s_mode s"
  "eurorack_clk_period s = 0 \<or> s_period (euro_measure s) = eurorack_clk_period s"
  by (auto simp: euro_measure_def Let_def word_gt_0)

lemma euro_clock_edge_fields:
  assumes "euro_clock_edge s = Some t"
  shows "eurorack_clk_count t = eurorack_clk_count s" "eurorack_rst_count t = eurorack_rst_count s"
    "eurorack_run_count t = eurorack_run_count s" "eurorack_status t = eurorack_status s"
    "eurorack_clk_period t = eurorack_clk_period s" "s_last_clk_count t = eurorack_clk_count s" "s_period t = s_period s"
  using assms by (auto simp: euro_clock_edge_def Let_def split: if_splits dest!: link_set_local_tempo_SomeD)

lemma euro_run_edge_fields:
  assumes "euro_run_edge s = Some t"
  shows "eurorack_clk_count t = eurorack_clk_count s" "eurorack_rst_count t = eurorack_rst_count s"
    "eurorack_run_count t = eurorack_run_count s" "eurorack_status t = eurorack_status s"
    "eurorack_clk_period t = eurorack_clk_period s" "s_last_clk_count t = s_last_clk_count s" "s_period t = s_period s"
    "s_last_rst_count t = s_last_rst_count s" "s_last_run_count t = eurorack_run_count s" "s_run_level t = run_input s"
  using assms by (auto simp: euro_run_edge_def Let_def split: if_splits dest!: link_set_play_SomeD)

abbreviation follows :: "'a euro_st_scheme \<Rightarrow> bool" where
  "follows s \<equiv> s_mode s = EURO_SYNC_FOLLOWER"

lemma euro_clock_edge_effect:
  assumes "euro_clock_edge s = Some t"
  obtains (acts) r b where "follows s" "eurorack_clk_count s \<noteq> s_last_clk_count s" "f64_less (Fin 0) (s_bpm s)"
      "us_per_beat_of (s_bpm s) = Some r"
      "t = retimed \<lparr>tempo_us_per_beat = r, beat_origin_microbeats = beat_origin_microbeats (link_self_timeline s) + b,
         time_origin_us_ghost = ghost_now s\<rparr> (link_self_startstop s) (n_reads s + 3) (s\<lparr>s_last_clk_count := eurorack_clk_count s\<rparr>)"
    | (rests) "\<not> (follows s \<and> eurorack_clk_count s \<noteq> s_last_clk_count s \<and> f64_less (Fin 0) (s_bpm s))"
      "t = s\<lparr>s_last_clk_count := eurorack_clk_count s\<rparr>"
proof (cases "follows s \<and> eurorack_clk_count s \<noteq> s_last_clk_count s \<and> f64_less (Fin 0) (s_bpm s)")
  case True
  let ?s = "s\<lparr>s_last_clk_count := eurorack_clk_count s\<rparr>"
  have now: "ghost_now ?s = ghost_now s" by (simp add: ghost_now_def intercept_def)
  have set: "link_set_local_tempo (s_bpm s) ?s = Some t" using assms True by (simp add: euro_clock_edge_def Let_def)
  then obtain r b where r: "us_per_beat_of (s_bpm s) = Some r"
    and b: "beats_at (ghost_now ?s) (time_origin_us_ghost (link_self_timeline ?s)) (tempo_us_per_beat (link_self_timeline ?s)) = Some b"
    by (auto simp: link_set_local_tempo_def bind_eq_Some_conv ghost_time_us_eq Let_def)
  show thesis
    using acts True r link_set_local_tempo_retimed [OF r b] set unfolding now by simp
next
  case False
  then have "t = s\<lparr>s_last_clk_count := eurorack_clk_count s\<rparr>"
    using assms by (auto simp: euro_clock_edge_def Let_def split: if_splits)
  with False show thesis by (rule rests)
qed

lemma euro_run_edge_effect:
  assumes "euro_run_edge s = Some t"
  obtains (acts) b where "follows s" "eurorack_run_count s \<noteq> s_last_run_count s \<or> run_input s \<noteq> s_run_level s"
      "beats_at (ghost_now s) (time_origin_us_ghost (link_self_timeline s)) (tempo_us_per_beat (link_self_timeline s)) = Some b"
      "t = retimed (link_self_timeline s) \<lparr>is_playing = (if run_input s then 1 else 0),
         beats_microbeats = beat_origin_microbeats (link_self_timeline s) + b, timestamp_us_ghost = ghost_now s\<rparr> (n_reads s + 3)
         (s\<lparr>s_last_run_count := eurorack_run_count s, s_run_level := run_input s\<rparr>)"
    | (rests) "\<not> (follows s \<and> (eurorack_run_count s \<noteq> s_last_run_count s \<or> run_input s \<noteq> s_run_level s))"
      "t = s\<lparr>s_last_run_count := eurorack_run_count s, s_run_level := run_input s\<rparr>"
proof (cases "follows s \<and> (eurorack_run_count s \<noteq> s_last_run_count s \<or> run_input s \<noteq> s_run_level s)")
  case True
  let ?s = "s\<lparr>s_last_run_count := eurorack_run_count s, s_run_level := run_input s\<rparr>"
  have now: "ghost_now ?s = ghost_now s" by (simp add: ghost_now_def intercept_def)
  have set: "link_set_play (run_input s) ?s = Some t" using assms True by (auto simp: euro_run_edge_def Let_def)
  then obtain b where
    b: "beats_at (ghost_now ?s) (time_origin_us_ghost (link_self_timeline ?s)) (tempo_us_per_beat (link_self_timeline ?s)) = Some b"
    by (auto simp: link_set_play_def bind_eq_Some_conv ghost_time_us_eq Let_def)
  show thesis
    using acts True b link_set_play_retimed [OF b, of "run_input s"] set unfolding now by simp
next
  case False
  then have "t = s\<lparr>s_last_run_count := eurorack_run_count s, s_run_level := run_input s\<rparr>"
    using assms by (auto simp: euro_run_edge_def Let_def split: if_splits)
  with False show thesis by (rule rests)
qed


lemma euro_reset_edge_effect:
  "link_self_startstop (euro_reset_edge s) = link_self_startstop s"
  "tempo_us_per_beat (link_self_timeline (euro_reset_edge s)) = tempo_us_per_beat (link_self_timeline s)"
  "s_mode (euro_reset_edge s) = s_mode s" "soft_resets (euro_reset_edge s) = soft_resets s"
  "follows s \<and> eurorack_rst_count s \<noteq> s_last_rst_count s \<Longrightarrow>
     beat_origin_microbeats (link_self_timeline (euro_reset_edge s)) = 0 \<and>
     time_origin_us_ghost (link_self_timeline (euro_reset_edge s)) = ghost_now s \<and> s_state_dirty (euro_reset_edge s)"
  "\<not> (follows s \<and> eurorack_rst_count s \<noteq> s_last_rst_count s) \<Longrightarrow>
     link_self_timeline (euro_reset_edge s) = link_self_timeline s \<and> s_state_dirty (euro_reset_edge s) = s_state_dirty s"
  by (simp_all add: euro_reset_edge_def Let_def ghost_time_us_eq link_broadcast_alive_now_def host_time_us_eq)
    (simp_all add: ghost_now_def intercept_def)

lemma euro_measure_effect:
  "link_self_timeline (euro_measure s) = link_self_timeline s" "link_self_startstop (euro_measure s) = link_self_startstop s"
  "s_state_dirty (euro_measure s) = s_state_dirty s" "soft_resets (euro_measure s) = soft_resets s"
  "n_reads (euro_measure s) = n_reads s" "ghost_now (euro_measure s) = ghost_now s"
  by (simp_all add: euro_measure_def Let_def ghost_now_def intercept_def)

lemma ghost_now_retimed: "\<exists>k. k \<le> 5 \<and> ghost_now (retimed tml ss (n_reads s + 3) (s\<lparr>s_last_clk_count := c\<rparr>)) = ghost_now (s\<lparr>n_reads := n_reads s + k\<rparr>)"
proof -
  have "n_reads (retimed tml ss (n_reads s + 3) (s\<lparr>s_last_clk_count := c\<rparr>)) = n_reads s + 5"
    "host_clk (retimed tml ss (n_reads s + 3) (s\<lparr>s_last_clk_count := c\<rparr>)) = host_clk s"
    "intercept (retimed tml ss (n_reads s + 3) (s\<lparr>s_last_clk_count := c\<rparr>)) = intercept s"
    by (simp_all add: retimed_def link_broadcast_alive_now_def host_time_us_eq beat_pulse_load_timeline_def Let_def flags_write_def
        intercept_def)
  then show ?thesis by (intro exI [of _ 5]) (simp add: ghost_now_def)
qed

lemma measured_tempo:
  assumes "0 < eurorack_clk_period s" "eurorack_clk_period s \<noteq> s_period s" "0 < s_ppqn s"
  shows "us_per_beat_of (s_bpm (euro_measure s)) = Some (word_of_int (uint (eurorack_clk_period s) * uint (s_ppqn s)))"
    "sint (word_of_int (uint (eurorack_clk_period s) * uint (s_ppqn s)) :: i64) = uint (eurorack_clk_period s) * uint (s_ppqn s)"
    "f64_less (Fin 0) (s_bpm (euro_measure s))"
proof -
  let ?p = "uint (eurorack_clk_period s)" and ?k = "uint (s_ppqn s)"
  have p: "0 < ?p" "?p < 2 ^ 32" "0 < ?k" "?k < 2 ^ 8"
    using assms(1,3) uint_lt2p [of "eurorack_clk_period s"] uint_lt2p [of "s_ppqn s"] by (simp_all add: word_less_def)
  then show "us_per_beat_of (s_bpm (euro_measure s)) = Some (word_of_int (?p * ?k))" "f64_less (Fin 0) (s_bpm (euro_measure s))"
    using clock_beat [of "eurorack_clk_period s" ?k] assms(1,2) by (simp_all add: euro_measure_def Let_def bpm_of_beat_def)
  show "sint (word_of_int (?p * ?k) :: i64) = ?p * ?k"
  proof (rule sint_word_of_int_small)
    have "?p * ?k < 2 ^ 32 * 2 ^ 8" using p by (intro mult_strict_mono) simp_all
    moreover have "0 < ?p * ?k" using p by simp
    ultimately show "i64_range (?p * ?k)" by simp
  qed
qed


text \<open>
  In follower mode a clock edge with a newly measured period sets the tempo to exactly the period
  times the pulses per beat, for every period and every resolution; changing the resolution alone has
  no effect until the measured period changes.
\<close>

theorem euro_follower_tempo:
  assumes "s_mode s = EURO_SYNC_FOLLOWER" "eurorack_clk_count s \<noteq> s_last_clk_count s"
    "0 < eurorack_clk_period s" "eurorack_clk_period s \<noteq> s_period s" "0 < s_ppqn s"
    "usable_timeline (link_self_timeline s) (ghost_now s)"
  shows "(\<exists>t. euro_clock_edge (euro_measure s) = Some t \<and>
      sint (tempo_us_per_beat (link_self_timeline t)) = uint (eurorack_clk_period s) * uint (s_ppqn s)) \<and>
    (eurorack_clk_period s' = s_period s' \<longrightarrow> s_bpm (euro_measure (euro_set_ppqn k s')) = s_bpm s')"
proof
  let ?p = "uint (eurorack_clk_period s)" and ?k = "uint (s_ppqn s)"
  let ?u = "s\<lparr>s_period := eurorack_clk_period s,
      s_bpm := bpm_of_beat (f64_mul (f64_of_u32 (eurorack_clk_period s)) (Fin (of_int ?k))),
      s_last_clk_count := eurorack_clk_count s\<rparr>"
  have p: "0 < ?p" "?p < 2 ^ 32" "0 < ?k" "?k < 2 ^ 8"
    using assms(3,5) uint_lt2p [of "eurorack_clk_period s"] uint_lt2p [of "s_ppqn s"] by (simp_all add: word_less_def)
  then have beat: "us_per_beat_of (s_bpm ?u) = Some (word_of_int (?p * ?k))" "f64_less (Fin 0) (s_bpm ?u)"
    using clock_beat [of "eurorack_clk_period s" ?k] by simp_all
  have now: "ghost_now ?u = ghost_now s" by (simp add: ghost_now_def intercept_def)
  have us: "usable_timeline (link_self_timeline ?u) (ghost_now ?u)" using assms(6) unfolding now by simp
  have "euro_clock_edge (euro_measure s) = link_set_local_tempo (s_bpm ?u) ?u"
    using assms(1-4) beat(2) by (simp add: euro_clock_edge_def euro_measure_def Let_def bpm_of_beat_def)
  moreover obtain q where "link_set_local_tempo (s_bpm ?u) ?u = Some (retimed
      \<lparr>tempo_us_per_beat = word_of_int (?p * ?k), beat_origin_microbeats = q, time_origin_us_ghost = ghost_now s\<rparr>
      (link_self_startstop ?u) (n_reads ?u + 3) ?u)"
    using set_tempo_usable [OF beat(1) us] unfolding now by blast
  moreover have "sint (word_of_int (?p * ?k) :: i64) = ?p * ?k"
  proof (rule sint_word_of_int_small)
    have "?p * ?k < 2 ^ 32 * 2 ^ 8" using p by (intro mult_strict_mono) simp_all
    moreover have "0 < ?p * ?k" using p by simp
    ultimately show "i64_range (?p * ?k)" by simp
  qed
  ultimately show "\<exists>t. euro_clock_edge (euro_measure s) = Some t \<and>
      sint (tempo_us_per_beat (link_self_timeline t)) = ?p * ?k"
    by simp
qed (simp add: euro_measure_def euro_set_ppqn_def)

text \<open>
  In follower mode a reset edge puts the timeline at beat zero now and has it announced, but unlike
  the two setters it does not restart the pulse generator, whose outputs keep their old phase.
\<close>

theorem euro_reset_snaps:
  assumes "s_mode s = EURO_SYNC_FOLLOWER" "eurorack_rst_count s \<noteq> s_last_rst_count s"
  shows "beat_pos (link_self_timeline (euro_reset_edge s)) (ghost_now s) = 0 \<and>
    tempo_us_per_beat (link_self_timeline (euro_reset_edge s)) = tempo_us_per_beat (link_self_timeline s) \<and>
    s_state_dirty (euro_reset_edge s) \<and> soft_resets (euro_reset_edge s) = soft_resets s \<and>
    (link_set_play p s = Some t \<longrightarrow> soft_resets t = Suc (soft_resets s)) \<and>
    (link_set_local_tempo bpm s = Some t \<longrightarrow> soft_resets t = Suc (soft_resets s))"
proof -
  let ?r = "euro_reset_edge s"
  have "soft_resets t = Suc (soft_resets s)"
    if "link_set_play p s = Some t \<or> link_set_local_tempo bpm s = Some t"
    using that link_set_play_SomeD [of p s t] link_set_local_tempo_SomeD [of bpm s t] by auto
  moreover have "beat_pos (link_self_timeline ?r) (ghost_now s) = 0 \<and>
      tempo_us_per_beat (link_self_timeline ?r) = tempo_us_per_beat (link_self_timeline s) \<and>
      s_state_dirty ?r \<and> soft_resets ?r = soft_resets s"
    using assms
    by (simp add: euro_reset_edge_def Let_def ghost_time_us_eq ghost_now_def intercept_def)
      (simp add: link_broadcast_alive_now_def host_time_us_eq beat_pos_def)
  ultimately show ?thesis by blast
qed

end
