(* ===== verification/Frames.thy ===== *)
theory Frames
  imports Eurorack
begin

text \<open>
  What the operations of the lower modules leave alone, and the invariant they keep: \<open>link_ok s t\<close> says
  that a step from \<open>s\<close> to \<open>t\<close> keeps the invariant of the Link state, the node's identifier and
  everything the modules above own; \<open>audio_ok\<close> says the same of a step of the audio module.
\<close>

definition core_inv :: "'a meas_st_scheme \<Rightarrow> bool" where
  "core_inv s \<longleftrightarrow> peers_inv s \<and> meas_inv (meas s) \<and> flags_inv s"

definition link_ok :: "'a meas_st_scheme \<Rightarrow> 'a meas_st_scheme \<Rightarrow> bool" where
  "link_ok s t \<longleftrightarrow> meas_st.more t = meas_st.more s \<and> link_self_id t = link_self_id s \<and> (core_inv s \<longrightarrow> core_inv t)"

lemma link_ok_refl [simp]: "link_ok s s"
  by (simp add: link_ok_def)

lemma link_ok_trans [trans]: "link_ok s t \<Longrightarrow> link_ok t u \<Longrightarrow> link_ok s u"
  by (simp add: link_ok_def)

text \<open>A write to fields no invariant speaks of.\<close>

lemma link_okI:
  assumes "meas_st.more t = meas_st.more s" "link_self_id t = link_self_id s" "link_peers t = link_peers s"
    "meas t = meas s" "bp_flags t = bp_flags s" "s_flags t = s_flags s"
  shows "link_ok s t"
  using assms by (simp add: link_ok_def core_inv_def peers_inv_def flags_inv_def)

lemma link_ok_step:
  assumes "meas_st.more t = meas_st.more s" "link_self_id t = link_self_id s" "bp_flags t = bp_flags s" "s_flags t = s_flags s"
    "peers_inv s \<Longrightarrow> peers_inv t" "meas_inv (meas s) \<Longrightarrow> meas_inv (meas t)"
  shows "link_ok s t"
  using assms by (simp add: link_ok_def core_inv_def flags_inv_def)

section \<open>Pulse generator\<close>

lemma flags_more [simp]:
  "meas_st.more (beat_pulse_load_timeline tml ss s) = meas_st.more s" "meas_st.more (beat_pulse_set_sync_led on s) = meas_st.more s"
  "meas_st.more (beat_pulse_set_peer_led on s) = meas_st.more s"
  "link_peers (beat_pulse_load_timeline tml ss s) = link_peers s" "link_self_id (beat_pulse_load_timeline tml ss s) = link_self_id s"
  "meas (beat_pulse_load_timeline tml ss s) = meas s" "meas (beat_pulse_set_sync_led on s) = meas s"
  by (simp_all add: beat_pulse_load_timeline_def beat_pulse_set_sync_led_def beat_pulse_set_peer_led_def flags_write_def Let_def)

lemma link_ok_flags:
  assumes "meas_st.more t = meas_st.more s" "link_self_id t = link_self_id s" "link_peers t = link_peers s"
    "meas t = meas s" "flags_inv s \<Longrightarrow> flags_inv t"
  shows "link_ok s t"
  using assms by (simp add: link_ok_def core_inv_def peers_inv_def)

lemma flag_writes_ok:
  "link_ok s (beat_pulse_load_timeline tml ss s)" "link_ok s (beat_pulse_set_sync_led on s)"
  "link_ok s (beat_pulse_set_peer_led on s)"
  by (rule link_ok_flags; simp add: flag_ops_inv load_timeline_inv)+

section \<open>Discovery\<close>

lemma link_tick_ok: "link_ok s (link_tick s)"
  by (rule link_ok_step) (simp_all add: link_tick_inv, simp_all add: link_tick_def host_time_us_eq send_alive_def logged_def Let_def)

lemma broadcast_ok: "link_ok s (link_broadcast_alive_now s)"
  by (rule link_okI) (simp_all add: link_broadcast_alive_now_def host_time_us_eq)

lemma retimed_ok: "link_ok s (retimed tml ss n s)"
proof -
  let ?u = "s\<lparr>n_reads := n, link_self_timeline := tml, link_self_startstop := ss\<rparr>"
  have "link_ok s ?u" by (rule link_okI) simp_all
  also have "link_ok ?u (beat_pulse_load_timeline tml ss ?u)" by (rule flag_writes_ok)
  also have "link_ok \<dots> (link_broadcast_alive_now \<dots>)" by (rule broadcast_ok)
  finally show ?thesis by (simp add: retimed_def)
qed

lemma send_ping_more [simp]: "meas_st.more (send_ping s) = meas_st.more s"
  by (simp add: send_ping_def host_time_us_eq Let_def logged_def)

lemma measurement_start_more [simp]: "meas_st.more (measurement_start a p i cb s) = meas_st.more s"
  by (simp add: measurement_start_def)

lemma measurement_start_ok: "link_ok s (measurement_start a p i cb s)"
  by (rule link_ok_step) (simp_all add: peers_inv_def measurement_start_inv)

lemma session_observe_peer_ok: "link_ok s (session_observe_peer k s)"
proof (rule link_ok_step)
  show "meas_st.more (session_observe_peer k s) = meas_st.more s"
    "bp_flags (session_observe_peer k s) = bp_flags s" "s_flags (session_observe_peer k s) = s_flags s"
    by (simp_all add: session_observe_peer_def Let_def split: option.split)
qed (simp_all add: session_ops_peers_inv session_observe_peer_inv)

lemma find_or_alloc_peer_frame:
  "find_or_alloc_peer i s = (k, t) \<Longrightarrow> meas_st.more t = meas_st.more s \<and> link_self_id t = link_self_id s \<and>
   bp_flags t = bp_flags s \<and> s_flags t = s_flags s"
  by (auto simp: find_or_alloc_peer_def Let_def split: option.splits prod.splits)

lemma observe_more:
  "meas_st.more (observe k p al ip port s) = meas_st.more s" "bp_flags (observe k p al ip port s) = bp_flags s"
  "s_flags (observe k p al ip port s) = s_flags s"
  using session_observe_peer_ok [of "store_peer k (p\<lparr>expires_at_us := host_now s + 5000000\<rparr>) (s\<lparr>n_reads := n_reads s + 2\<rparr>)" k]
  by (simp_all add: observe_def Let_def link_ok_def send_response_def logged_def store_peer_def session_observe_peer_def split: option.split)

lemma link_handle_rx_ok:
  assumes "link_handle_rx a buf ip port s = Some t"
  shows "link_ok s t"
proof -
  have "meas_st.more t = meas_st.more s \<and> link_self_id t = link_self_id s \<and> bp_flags t = bp_flags s \<and> s_flags t = s_flags s"
    using assms
  proof (cases rule: link_handle_rx_cases)
    case (byebye i)
    then show ?thesis by (simp add: evict_peer_def split: option.split)
  next
    case (state k s' r peer)
    then show ?thesis using find_or_alloc_peer_frame [OF state(1)] by (simp add: observe_more)
  qed simp
  then show ?thesis
    using link_handle_rx_peers_inv [OF _ assms] link_handle_rx_meas_inv [OF _ assms] by (intro link_ok_step) simp_all
qed

section \<open>Sessions and measurements\<close>

lemma session_more_meas:
  "session_st.more t = session_st.more s \<Longrightarrow> meas t = meas s \<and> meas_st.more t = meas_st.more s"
  by (cases s; cases t) simp

lemma session_more [simp]:
  "session_st.more (beat_pulse_load_timeline tml ss s) = session_st.more s"
  "session_st.more (beat_pulse_set_sync_led on s) = session_st.more s"
  "session_st.more (ghost_time_set_intercept x s) = session_st.more s"
  "session_st.more (link_broadcast_alive_now s) = session_st.more s" "session_st.more (adopt_best s) = session_st.more s"
  by (simp_all add: beat_pulse_load_timeline_def beat_pulse_set_sync_led_def flags_write_def Let_def ghost_time_set_intercept_def
      link_broadcast_alive_now_def host_time_us_eq adopt_best_def split: option.split)

lemma flags_inv_fields [simp]:
  "flags_inv (s\<lparr>n_reads := n\<rparr>) = flags_inv s" "flags_inv (ghost_time_set_intercept x s) = flags_inv s"
  "flags_inv (link_broadcast_alive_now t) = flags_inv t" "flags_inv (t\<lparr>link_peers := ps\<rparr>) = flags_inv t"
  "flags_inv (t\<lparr>link_self_session := i\<rparr>) = flags_inv t" "flags_inv (t\<lparr>link_self_timeline := tml\<rparr>) = flags_inv t"
  "flags_inv (t\<lparr>link_self_startstop := ss\<rparr>) = flags_inv t" "flags_inv (u\<lparr>s_last_remeasure_us := r\<rparr>) = flags_inv u"
  by (simp_all add: flags_inv_def ghost_time_set_intercept_def link_broadcast_alive_now_def host_time_us_eq)

lemma adopt_best_flags: "flags_inv s \<Longrightarrow> flags_inv (adopt_best s)"
  by (simp add: adopt_best_def load_timeline_inv split: option.split)

lemma on_measure_done_keeps:
  "session_st.more (on_measure_done ok x s) = session_st.more s" "link_self_id (on_measure_done ok x s) = link_self_id s"
  "flags_inv s \<Longrightarrow> flags_inv (on_measure_done ok x s)"
  by (simp_all add: on_measure_done_def Let_def host_time_us_eq flag_ops_inv adopt_best_flags)

lemma call_completion_keeps:
  "meas_st.more (call_completion ok x s) = meas_st.more s" "link_self_id (call_completion ok x s) = link_self_id s"
  "flags_inv s \<Longrightarrow> flags_inv (call_completion ok x s)" "peers_inv s \<Longrightarrow> peers_inv (call_completion ok x s)"
  using session_more_meas [OF on_measure_done_keeps(1) [of ok x s]]
  by (auto simp: call_completion_def on_measure_done_keeps on_measure_done_inv split: option.split completion.split)

lemma measurement_tick_ok: "link_ok s (measurement_tick s)"
proof (rule link_ok_step)
  show "meas_st.more (measurement_tick s) = meas_st.more s"
    by (simp add: measurement_tick_def host_time_us_eq Let_def)
qed (simp_all add: peers_inv_def measurement_tick_inv)

lemma session_tick_ok: "link_ok s (session_tick s)"
proof -
  define u where "u = measurement_tick s"
  have started: "link_ok u (case fo of None \<Rightarrow> v | Some f \<Rightarrow> measurement_start (a f) (p f) j cb (v\<lparr>s_active_target_session := k\<rparr>))"
    if "link_ok u v" for fo :: "nat option" and v a p j cb k
  proof (cases fo)
    case (Some f)
    have "link_ok v (v\<lparr>s_active_target_session := k\<rparr>)" by (rule link_okI) simp_all
    with that have "link_ok u (v\<lparr>s_active_target_session := k\<rparr>)" by (rule link_ok_trans)
    from link_ok_trans [OF this measurement_start_ok] show ?thesis using Some by simp
  qed (use that in simp)
  have "link_ok v (v\<lparr>s_last_remeasure_us := r\<rparr>)" for v :: "'a meas_st_scheme" and r by (rule link_okI) simp_all
  then have stamped: "link_ok u (v\<lparr>s_last_remeasure_us := r\<rparr>)" if "link_ok u v" for v r
    using that link_ok_trans by blast
  have read: "link_ok u (u\<lparr>n_reads := n\<rparr>)" for n by (rule link_okI) simp_all
  have "link_ok u (session_tick s)"
    unfolding session_tick_def u_def [symmetric] Let_def host_time_us_eq prod.case
    by (split if_split, intro conjI impI, rule link_ok_refl, rule link_ok_trans [OF _ flag_writes_ok(3)],
        split if_split, intro conjI impI, rule stamped, rule started, rule read, rule read)
  with measurement_tick_ok [of s] show ?thesis unfolding u_def by (rule link_ok_trans)
qed

lemma invs_meas [simp]:
  "peers_inv (s\<lparr>n_reads := n\<rparr>) = peers_inv s" "peers_inv (t\<lparr>meas := m\<rparr>) = peers_inv t"
  "peers_inv (send_ping t) = peers_inv t" "flags_inv (t\<lparr>meas := m\<rparr>) = flags_inv t" "flags_inv (send_ping t) = flags_inv t"
  by (simp_all add: peers_inv_def flags_inv_def)

lemma accept_pong_ok:
  assumes "active (meas s)"
  shows "link_ok s (accept_pong c s)"
proof -
  let ?t = "accept_pong c s"
  have "meas_st.more ?t = meas_st.more s" "link_self_id ?t = link_self_id s"
    "peers_inv s \<Longrightarrow> peers_inv ?t" "flags_inv s \<Longrightarrow> flags_inv ?t"
    by (simp_all add: accept_pong_def host_time_us_eq Let_def case_prod_beta call_completion_keeps)
  then show ?thesis using accept_pong_inv [OF _ assms] by (simp add: link_ok_def core_inv_def)
qed

lemma measurement_handle_rx_ok:
  assumes "measurement_handle_rx a buf ip port s = Some t"
  shows "link_ok s t"
  using assms
proof (cases rule: measurement_handle_rx_cases)
  case lost
  have "link_ok s (s\<lparr>meas := (meas s)\<lparr>active := False\<rparr>\<rparr>)"
    by (rule link_ok_step) (simp_all add: peers_inv_def meas_inv_inactive meas_inv_def [of "meas s"])
  with lost show ?thesis by simp
qed (simp_all add: accept_pong_ok)

lemma measurement_responder_ok: "link_ok s (measurement_responder_handle_rx buf ip port s)"
  by (rule link_okI) (simp_all add: measurement_responder_handle_rx_def Let_def ghost_time_us_eq logged_def)

section \<open>The modules above\<close>

lemma audio_fields_cong:
  assumes "meas_st.more t = meas_st.more s"
  shows "link_audio_local t = link_audio_local s" "link_audio_remote t = link_audio_remote s"
    "link_audio_subs t = link_audio_subs s" "s_tx_pkt_buf t = s_tx_pkt_buf s" "s_tx_pkt_pos t = s_tx_pkt_pos s"
    "s_peer_name t = s_peer_name s" "audio_st.more t = audio_st.more s"
  using assms by (cases s; cases t; simp)+

end
