(* ===== verification/Ctext.thy ===== *)
theory Ctext
  imports Link_Audio
begin

text \<open>
  The functions of \<^verbatim>\<open>string.h\<close>, \<^verbatim>\<open>stdlib.h\<close> and \<^verbatim>\<open>stdio.h\<close> the web interface uses, on lists of
  bytes. A text argument is the list of the bytes from the pointer on; its string ends before the
  first zero. \<open>None\<close> is a result C leaves undefined.
\<close>

definition bytes :: "string \<Rightarrow> u8 list" where
  "bytes t = map (\<lambda>c. of_nat (of_char c)) t"

section \<open>Searching\<close>

text \<open>\<open>strstr\<close> and \<open>strchr\<close>: the index of the first occurrence. \<open>strncmp(p, t, strlen(t)) == 0\<close>.\<close>

definition starts_with :: "u8 list \<Rightarrow> u8 list \<Rightarrow> bool" where
  "starts_with t p \<longleftrightarrow> take (length t) p = t"

definition strstr :: "u8 list \<Rightarrow> u8 list \<Rightarrow> nat option" where
  "strstr p t = find_index (\<lambda>i. starts_with t (drop i (c_str p))) [0..<length (c_str p)]"

definition strchr :: "u8 list \<Rightarrow> u8 \<Rightarrow> nat option" where
  "strchr p b = find_index (\<lambda>c. c = b) (c_str p)"

section \<open>Reading numbers\<close>

definition is_space :: "u8 \<Rightarrow> bool" where
  "is_space b \<longleftrightarrow> 9 \<le> b \<and> b \<le> 13 \<or> b = 32"

definition is_digit :: "u8 \<Rightarrow> bool" where
  "is_digit b \<longleftrightarrow> 48 \<le> b \<and> b \<le> 57"

definition hex_val :: "u8 \<Rightarrow> nat option" where
  "hex_val b =
     (if 48 \<le> b \<and> b \<le> 57 then Some (unat b - 48)
      else if 97 \<le> b \<and> b \<le> 102 then Some (unat b - 87)
      else if 65 \<le> b \<and> b \<le> 70 then Some (unat b - 55)
      else None)"

definition is_hex :: "u8 \<Rightarrow> bool" where
  "is_hex b \<longleftrightarrow> hex_val b \<noteq> None"

definition digits_val :: "nat \<Rightarrow> u8 list \<Rightarrow> nat" where
  "digits_val base ds = foldl (\<lambda>a b. a * base + the (hex_val b)) 0 ds"

definition split_sign :: "u8 list \<Rightarrow> bool \<times> u8 list" where
  "split_sign p = (case p of b # q \<Rightarrow> if b = 45 then (True, q) else if b = 43 then (False, q) else (False, p) | [] \<Rightarrow> (False, p))"

text \<open>A decimal integer after white space: its value and what follows, or no number.\<close>

definition scan_int :: "u8 list \<Rightarrow> (int \<times> u8 list) option" where
  "scan_int p =
     (let (neg, q) = split_sign (dropWhile is_space p); ds = takeWhile is_digit q
      in if ds = [] then None
         else let v = int (digits_val 10 ds) in Some (if neg then - v else v, dropWhile is_digit q))"

definition int_range :: "int \<Rightarrow> bool" where
  "int_range v \<longleftrightarrow> - (2 ^ 31) \<le> v \<and> v < 2 ^ 31"

definition atoi :: "u8 list \<Rightarrow> int option" where
  "atoi p = (case scan_int (c_str p) of
       None \<Rightarrow> Some 0 | Some (v, _) \<Rightarrow> if int_range v then Some v else None)"

text \<open>\<open>sscanf(p, "%2x", &v)\<close>: the value, or no match\<close>

definition scan_hex2 :: "u8 list \<Rightarrow> u32 option" where
  "scan_hex2 p =
     (let w = take 2 (dropWhile is_space (c_str p)); (neg, q) = split_sign w; ds = takeWhile is_hex q
      in if ds = [] \<or> (\<exists>x\<in>{88, 120}. q = [48, x]) then None
         else let v = of_nat (digits_val 16 ds) in Some (if neg then - v else v))"

text \<open>
  \<open>sscanf(p, "%d %d %16s", &a, &b, t) == 3\<close>: \<open>Some None\<close> when a conversion has no match, \<open>None\<close> when
  a number is out of the range of \<open>int\<close>.
\<close>

definition scan_d :: "u8 list \<Rightarrow> (int \<times> u8 list) option option" where
  "scan_d p = (case scan_int p of None \<Rightarrow> Some None | Some (v, q) \<Rightarrow> if int_range v then Some (Some (v, q)) else None)"

definition scan_word :: "nat \<Rightarrow> u8 list \<Rightarrow> u8 list" where
  "scan_word n p = take n (takeWhile (\<lambda>c. \<not> is_space c) (dropWhile is_space p))"

definition scan_subscribe :: "u8 list \<Rightarrow> (int \<times> int \<times> u8 list) option option" where
  "scan_subscribe p =
     (case scan_d (c_str p) of None \<Rightarrow> None | Some None \<Rightarrow> Some None
      | Some (Some (a, q)) \<Rightarrow> (case scan_d q of None \<Rightarrow> None | Some None \<Rightarrow> Some None
        | Some (Some (b, q)) \<Rightarrow> let t = scan_word 16 q in Some (if t = [] then None else Some (a, b, t))))"

text \<open>\<open>atof\<close>, rounded to the nearest \<open>double\<close>\<close>

definition rat_power :: "nat \<Rightarrow> int \<Rightarrow> rat" where
  "rat_power b e = (if 0 \<le> e then of_nat b ^ nat e else 1 / of_nat b ^ nat (- e))"

definition lower :: "u8 \<Rightarrow> u8" where
  "lower b = (if 65 \<le> b \<and> b \<le> 90 then b + 32 else b)"

text \<open>Digits with an optional fraction and an exponent marked by \<open>mark\<close>: \<open>None\<close> without a digit.\<close>

definition scan_real :: "(u8 \<Rightarrow> bool) \<Rightarrow> nat \<Rightarrow> u8 \<Rightarrow> nat \<Rightarrow> u8 list \<Rightarrow> rat option" where
  "scan_real isd base mark ebase p =
     (let ip = takeWhile isd p; q = dropWhile isd p;
          (fp, q) = (case q of b # r \<Rightarrow> if b = 46 then (takeWhile isd r, dropWhile isd r) else ([], q) | [] \<Rightarrow> ([], q))
      in if ip @ fp = [] then None
         else let e = (case q of b # r \<Rightarrow> if lower b = mark then
                         (let (neg, ds) = split_sign r; ds = takeWhile is_digit ds; v = int (digits_val 10 ds)
                          in if neg then - v else v) else 0 | [] \<Rightarrow> 0)
              in Some (of_nat (digits_val base (ip @ fp)) / of_nat base ^ length fp * rat_power ebase e))"

fun f64_neg :: "f64 \<Rightarrow> f64" where
  "f64_neg (Fin x) = Fin (- x)"
| "f64_neg (Inf s) = Inf (\<not> s)"
| "f64_neg NaN = NaN"

definition atof :: "u8 list \<Rightarrow> f64" where
  "atof p =
     (let (neg, q) = split_sign (dropWhile is_space (c_str p)); l = map lower q;
          hex = (if starts_with (bytes ''0x'') l then scan_real is_hex 16 112 2 (drop 2 q) else None);
          v = (if starts_with (bytes ''inf'') l then Inf False
               else if starts_with (bytes ''nan'') l then NaN
               else case hex of Some x \<Rightarrow> f64_round x
                 | None \<Rightarrow> (case scan_real is_digit 10 101 10 q of Some x \<Rightarrow> f64_round x | None \<Rightarrow> Fin 0))
      in if neg then f64_neg v else v)"

section \<open>Printing\<close>

text \<open>
  \<open>snprintf(buf + n, sizeof(buf) - n, ...)\<close> for the text \<open>t\<close> of the format: at most the room left is
  written, its last byte a zero. A start behind the buffer is \<open>None\<close>: the size would wrap.
\<close>

definition snprintf_at :: "nat \<Rightarrow> u8 list \<Rightarrow> u8 list \<Rightarrow> u8 list option" where
  "snprintf_at n t buf =
     (if length buf < n then None
      else if n = length buf then Some buf
      else let w = take (length buf - n - 1) t @ [0] in Some (take n buf @ w @ drop (n + length w) buf))"


fun dec :: "nat \<Rightarrow> u8 list" where
  "dec n = (if n < 10 then [digit n] else dec (n div 10) @ [digit n])"

declare dec.simps [simp del]

text \<open>\<open>%.3f\<close>\<close>

fun fmt_f3 :: "f64 \<Rightarrow> u8 list" where
  "fmt_f3 (Fin x) =
     (let k = nat (round_half_even (\<bar>x\<bar> * 1000))
      in (if x < 0 then [45] else []) @ dec (k div 1000) @ [46, digit (k div 100), digit (k div 10), digit k])"
| "fmt_f3 (Inf s) = (if s then bytes ''-inf'' else bytes ''inf'')"
| "fmt_f3 NaN = bytes ''nan''"

lemma length_dec: "n < 10 ^ Suc k \<Longrightarrow> length (dec n) \<le> Suc k"
proof (induction k arbitrary: n)
  case (Suc k)
  then show ?case by (subst dec.simps) simp
qed (simp add: dec.simps)

end
