(* ===== verification/Http_Server.thy ===== *)
theory Http_Server
  imports Eurorack Ctext
begin

text \<open>
  \<^verbatim>\<open>firmware/http_server.c\<close> on lwIP's raw TCP interface: the route table, one request buffer per
  connection, the header parser, the dispatcher and the receive callback.

  A handler is a value of a type \<open>'h\<close>; what it does is the parameter \<open>call\<close> of the operations
  that run handlers. lwIP's answer to the \<open>k\<close>-th \<open>tcp_write\<close>, of \<open>n\<close> bytes, is \<open>tcp_accepts k n\<close>:
  the code never looks at it. \<open>None\<close> is an access outside the request buffer or an undefined
  conversion.
\<close>

definition MAX_ROUTES :: nat where "MAX_ROUTES = 16"
definition REQ_BUF_MAX :: nat where "REQ_BUF_MAX = 4096"
definition HDR_BUF_MAX :: nat where "HDR_BUF_MAX = 256"

lemmas http_consts = MAX_ROUTES_def REQ_BUF_MAX_def HDR_BUF_MAX_def

record 'h route_t =
  route_method :: "u8 list"
  route_path :: "u8 list"
  route_fn :: 'h

record http_response_t =
  status :: nat
  content_type :: "u8 list option"
  resp_body :: "u8 list"
  body_len :: u32

record conn_state_t =
  req_buf :: "u8 list"
  used :: nat
  have_headers :: bool
  content_length :: int
  body_offset :: nat

definition fresh_conn :: conn_state_t where
  "fresh_conn = \<lparr>req_buf = replicate REQ_BUF_MAX 0, used = 0, have_headers = False,
     content_length = 0, body_offset = 0\<rparr>"

text \<open>Module state, with lwIP's side of the connections: the writes it accepted, and the number tried.\<close>

record 'h http_st = euro_st +
  s_routes :: "'h route_t list"
  tcp_accepts :: "nat \<Rightarrow> nat \<Rightarrow> bool"
  tcp_tried :: nat
  tcp_sent :: "(nat \<times> u8 list) list"

definition tcp_write :: "nat \<Rightarrow> u8 list \<Rightarrow> ('h, 'a) http_st_scheme \<Rightarrow> ('h, 'a) http_st_scheme" where
  "tcp_write pcb data s =
     (let s' = s\<lparr>tcp_tried := Suc (tcp_tried s)\<rparr> in
      if tcp_accepts s (tcp_tried s) (length data) then s'\<lparr>tcp_sent := tcp_sent s @ [(pcb, data)]\<rparr> else s')"

definition http_route :: "u8 list \<Rightarrow> u8 list \<Rightarrow> 'h \<Rightarrow> ('h, 'a) http_st_scheme \<Rightarrow> ('h, 'a) http_st_scheme" where
  "http_route method path fn s =
     (if MAX_ROUTES \<le> length (s_routes s) then s
      else s\<lparr>s_routes := s_routes s @
             [\<lparr>route_method = take 7 (c_str method), route_path = take 63 (c_str path), route_fn = fn\<rparr>]\<rparr>)"

definition reason :: "nat \<Rightarrow> u8 list" where
  "reason st = (if st = 200 then bytes ''OK'' else if st = 400 then bytes ''Bad Request''
     else if st = 404 then bytes ''Not Found'' else if st = 413 then bytes ''Payload Too Large''
     else if st = 500 then bytes ''Internal Server Error'' else bytes ''Error'')"

definition crlf :: "u8 list" where "crlf = [13, 10]"

text \<open>The format string of \<open>send_response\<close> (here \<open>http_send_response\<close>) filled in.\<close>

definition response_header :: "http_response_t \<Rightarrow> u8 list" where
  "response_header r =
     bytes ''HTTP/1.0 '' @ dec (status r) @ [32] @ reason (status r) @ crlf
     @ bytes ''Server: LinkFPGA'' @ crlf
     @ bytes ''Content-Type: '' @ (case content_type r of Some t \<Rightarrow> t | None \<Rightarrow> bytes ''text/plain'') @ crlf
     @ bytes ''Content-Length: '' @ dec (unat (body_len r)) @ crlf
     @ bytes ''Connection: close'' @ crlf
     @ bytes ''Access-Control-Allow-Origin: *'' @ crlf @ crlf"

definition http_send_response :: "nat \<Rightarrow> http_response_t \<Rightarrow> ('h, 'a) http_st_scheme \<Rightarrow> ('h, 'a) http_st_scheme option" where
  "http_send_response pcb r s =
     (let hdr = response_header r; hlen = length hdr in
      if HDR_BUF_MAX < hlen then None
      else let s = tcp_write pcb (if hlen = HDR_BUF_MAX then butlast hdr @ [0] else hdr) s in
        if body_len r = 0 then Some s
        else if length (resp_body r) < unat (body_len r) then None
        else Some (tcp_write pcb (take (unat (body_len r)) (resp_body r)) s))"

text \<open>The loop over the header bytes: from \<open>p\<close> on, \<open>eol\<close> bytes before the blank line.\<close>

fun find_length :: "nat \<Rightarrow> u8 list \<Rightarrow> int option" where
  "find_length 0 p = Some 0"
| "find_length (Suc n) p =
     (if (p ! 0 = 67 \<or> p ! 0 = 99) \<and> starts_with (bytes ''Content-Length'') (c_str p)
         \<or> starts_with (bytes ''content-length'') (c_str p)
      then (case strchr p 58 of
              Some c \<Rightarrow> if c < Suc n then atoi (drop (c + 1) p) else Some 0
            | None \<Rightarrow> Some 0)
      else find_length n (drop 1 p))"

definition parse_headers :: "conn_state_t \<Rightarrow> conn_state_t option" where
  "parse_headers cs =
     (if length (req_buf cs) \<le> used cs then None
      else let cs = cs\<lparr>req_buf := (req_buf cs)[used cs := 0]\<rparr> in
        case strstr (req_buf cs) (crlf @ crlf) of
          None \<Rightarrow> Some cs
        | Some eol \<Rightarrow> do {
            n \<leftarrow> find_length eol (req_buf cs);
            Some (cs\<lparr>have_headers := True, body_offset := eol + 4, content_length := n\<rparr>)
          })"

text \<open>\<open>(size_t)cs->content_length\<close> wraps, and so does the sum.\<close>

definition request_complete :: "conn_state_t \<Rightarrow> bool" where
  "request_complete cs =
     (if \<not> have_headers cs then False
      else if content_length cs = 0 then True
      else (of_nat (body_offset cs) + word_of_int (content_length cs) :: u32) \<le> of_nat (used cs))"

text \<open>The two words of the request line: at most \<open>n\<close> bytes up to a space or the end of the string.\<close>

definition req_word :: "nat \<Rightarrow> u8 list \<Rightarrow> u8 list" where
  "req_word n p = take n (takeWhile (\<lambda>c. c \<noteq> 0 \<and> c \<noteq> 32) p)"

type_synonym 's handler_fn =
  "u8 list \<Rightarrow> u8 list \<Rightarrow> u32 \<Rightarrow> http_response_t \<Rightarrow> 's \<Rightarrow> (http_response_t \<times> 's) option"

type_synonym ('h, 's) handler_call = "'h \<Rightarrow> 's handler_fn"

definition dispatch ::
  "('h, ('h, 'a) http_st_scheme) handler_call \<Rightarrow> nat \<Rightarrow> conn_state_t \<Rightarrow>
   ('h, 'a) http_st_scheme \<Rightarrow> ('h, 'a) http_st_scheme option" where
  "dispatch call pcb cs s =
     (let method = req_word 7 (req_buf cs); off = length method in
      if req_buf cs ! off \<noteq> 32 then
        http_send_response pcb \<lparr>status = 400, content_type = Some (bytes ''text/plain''), resp_body = bytes ''bad'', body_len = 3\<rparr> s
      else let path = req_word 63 (drop (off + 1) (req_buf cs));
               resp = \<lparr>status = 404, content_type = Some (bytes ''text/plain''), resp_body = bytes ''not found'', body_len = 9\<rparr>
      in case find_index (\<lambda>r. route_method r = method \<and> route_path r = path) (s_routes s) of
           None \<Rightarrow> http_send_response pcb resp s
         | Some i \<Rightarrow> do {
             (resp, s) \<leftarrow> call (route_fn (s_routes s ! i)) path (drop (body_offset cs) (req_buf cs))
                 (word_of_int (content_length cs))
                 (resp\<lparr>status := 200, resp_body := [], body_len := 0\<rparr>) s;
             http_send_response pcb resp s
           })"

text \<open>What lwIP passes to the receive callback: a segment, or the end of the connection.\<close>

datatype tcp_event = Segment "u8 list" | Shut

text \<open>The connection state left, \<open>None\<close> when the callback closed the connection.\<close>

definition on_recv ::
  "('h, ('h, 'a) http_st_scheme) handler_call \<Rightarrow> nat \<Rightarrow> tcp_event \<Rightarrow> conn_state_t \<Rightarrow>
   ('h, 'a) http_st_scheme \<Rightarrow> (conn_state_t option \<times> ('h, 'a) http_st_scheme) option" where
  "on_recv call pcb ev cs s =
     (case ev of
        Shut \<Rightarrow> Some (None, s)
      | Segment p \<Rightarrow>
          if REQ_BUF_MAX < used cs + length p then do {
            s \<leftarrow> http_send_response pcb \<lparr>status = 413, content_type = Some (bytes ''text/plain''),
                    resp_body = bytes ''too large'', body_len = 9\<rparr> s;
            Some (None, s)
          }
          else do {
            let cs = cs\<lparr>req_buf := take (used cs) (req_buf cs) @ p @ drop (used cs + length p) (req_buf cs),
                        used := used cs + length p\<rparr>;
            cs \<leftarrow> (if have_headers cs then Some cs else parse_headers cs);
            if \<not> request_complete cs then Some (Some cs, s)
            else do { s \<leftarrow> dispatch call pcb cs s; Some (None, s) }
          })"

text \<open>The accept callback: \<open>ok\<close> is whether lwIP passes a connection, \<open>mem\<close> whether \<open>calloc\<close> has memory.\<close>

definition on_accept :: "bool \<Rightarrow> bool \<Rightarrow> conn_state_t option" where
  "on_accept ok mem = (if \<not> ok then None else if \<not> mem then None else Some fresh_conn)"

definition http_init :: "('h, 'a) http_st_scheme \<Rightarrow> ('h, 'a) http_st_scheme" where
  "http_init s = s\<lparr>s_routes := []\<rparr>"

section \<open>Searching a text that goes on\<close>

lemma c_str_append: "0 \<notin> set x \<Longrightarrow> c_str (x @ y) = x @ c_str y"
  unfolding c_str_def by (induction x) auto

lemma c_str_zeros [simp]: "c_str (replicate n 0) = []" "c_str [0] = []" "c_str (0 # y) = []"
  by (simp_all add: c_str_def takeWhile_replicate)

lemma starts_with_append:
  "length t \<le> length x \<Longrightarrow> starts_with t (x @ y) \<longleftrightarrow> starts_with t x"
  by (simp add: starts_with_def)

lemma starts_with_length: "starts_with t x \<Longrightarrow> length t \<le> length x"
  by (metis length_take min.cobounded1 starts_with_def)

text \<open>A word without a line end cannot reach across one.\<close>

lemma starts_with_before:
  assumes "b \<notin> set t" "m < length x" "x ! m = b"
  shows "starts_with t (x @ y) \<longleftrightarrow> starts_with t x"
proof (cases "length t \<le> length x")
  case False
  then have m: "m < length t" using assms(2) by simp
  have "\<not> starts_with t (x @ z)" for z
  proof
    assume "starts_with t (x @ z)"
    then have "t ! m = (x @ z) ! m" using m unfolding starts_with_def by (metis nth_take)
    then show False using m assms by (metis nth_append nth_mem)
  qed
  from this [of y] this [of "[]"] show ?thesis by simp
qed (simp add: starts_with_append)

end
