(* ===== verification/Http_Segments.thy ===== *)
theory Http_Segments
  imports Http_Server
begin

text \<open>
  How TCP cuts a request into segments does not matter: the buffer fills up, the header is parsed once,
  when it is complete, and the request is dispatched when its last byte is there.
\<close>

section \<open>The end of the header\<close>

abbreviation blank_line :: "u8 list" where "blank_line \<equiv> crlf @ crlf"

text \<open>A header: no zero byte, and its only blank line at its end.\<close>

definition header_text :: "u8 list \<Rightarrow> bool" where
  "header_text h \<longleftrightarrow> 0 \<notin> set h \<and> strstr h blank_line = Some (length h - 4)"

lemma strstr_eq_Some:
  assumes "i < length (c_str p)" "starts_with t (drop i (c_str p))" "\<And>j. j < i \<Longrightarrow> \<not> starts_with t (drop j (c_str p))"
  shows "strstr p t = Some i"
proof -
  have "find_index (\<lambda>i. starts_with t (drop i (c_str p))) [0..<length (c_str p)] = Some i"
    by (rule find_index_eq_Some) (use assms in simp_all)
  then show ?thesis by (simp add: strstr_def)
qed

lemma strstr_SomeD:
  assumes "strstr p t = Some i"
  shows "i < length (c_str p)" "starts_with t (drop i (c_str p))" "j < i \<Longrightarrow> \<not> starts_with t (drop j (c_str p))"
  using assms find_index_SomeD [of "\<lambda>i. starts_with t (drop i (c_str p))" "[0..<length (c_str p)]" i] find_index_bound [of "\<lambda>i. starts_with t (drop i (c_str p))" "[0..<length (c_str p)]" i]
  by (auto simp: strstr_def)

lemma length_blank_line [simp]: "length blank_line = 4" "length crlf = 2"
  by (simp_all add: crlf_def)

lemma header_textD:
  assumes "header_text h"
  shows "0 \<notin> set h" "4 \<le> length h" "drop (length h - 4) h = blank_line"
    "i < length h - 4 \<Longrightarrow> \<not> starts_with blank_line (drop i h)" "c_str h = h"
proof -
  show z: "0 \<notin> set h" using assms by (simp add: header_text_def)
  show c: "c_str h = h" using c_str_append [OF z, of "[]"] by (simp add: c_str_def)
  note d = strstr_SomeD [of h blank_line "length h - 4", unfolded c]
  have s: "starts_with blank_line (drop (length h - 4) h)" using d(2) assms by (simp add: header_text_def)
  from starts_with_length [OF this] show len: "4 \<le> length h" by simp
  then show "drop (length h - 4) h = blank_line" using s by (simp add: starts_with_def)
  show "i < length h - 4 \<Longrightarrow> \<not> starts_with blank_line (drop i h)" using d(3) assms by (simp add: header_text_def)
qed

text \<open>Found behind a whole header, and not before.\<close>

lemma strstr_header:
  assumes "header_text h"
  shows "strstr (h @ y) blank_line = Some (length h - 4)"
proof -
  note h = header_textD [OF assms]
  have c: "c_str (h @ y) = h @ c_str y" using h(1) by (rule c_str_append)
  show ?thesis
  proof (rule strstr_eq_Some; unfold c)
    show "length h - 4 < length (h @ c_str y)" using h(2) by simp
    show "starts_with blank_line (drop (length h - 4) (h @ c_str y))"
      using h(2,3) by (simp add: starts_with_def)
    show "\<not> starts_with blank_line (drop j (h @ c_str y))" if "j < length h - 4" for j
      using h(4) [OF that] that starts_with_append [of blank_line "drop j h" "c_str y"] by simp
  qed
qed

lemma strstr_prefix:
  assumes "header_text h" "k < length h"
  shows "strstr (take k h @ replicate n 0) blank_line = None"
proof (rule ccontr)
  note h = header_textD [OF assms(1)]
  have z: "0 \<notin> set (take k h)" using h(1) by (meson in_set_takeD)
  have c: "c_str (take k h @ replicate n 0) = take k h" using c_str_append [OF z] by simp
  assume "strstr (take k h @ replicate n 0) blank_line \<noteq> None"
  then obtain i where i: "strstr (take k h @ replicate n 0) blank_line = Some i" by blast
  note d = strstr_SomeD [OF i, unfolded c]
  have "4 \<le> length (drop i (take k h))" using starts_with_length [OF d(2)] by simp
  then have "i < length h - 4" using assms(2) by simp
  moreover have "drop i h = drop i (take k h) @ drop k h"
  proof -
    have "drop i (take k h @ drop k h) = drop i (take k h) @ drop (i - length (take k h)) (drop k h)" by (rule drop_append)
    then show ?thesis using d(1) by simp
  qed
  then have "starts_with blank_line (drop i h)"
    using d(2) \<open>4 \<le> length (drop i (take k h))\<close> starts_with_append [of blank_line "drop i (take k h)" "drop k h"]
    by simp
  ultimately show False using h(4) by blast
qed

section \<open>The announced length\<close>

lemma dropWhile_append_stop: "\<exists>x\<in>set q. \<not> P x \<Longrightarrow> dropWhile P (q @ z) = dropWhile P q @ z"
  by (induction q) auto

lemma takeWhile_append_stop: "\<exists>x\<in>set q. \<not> P x \<Longrightarrow> takeWhile P (q @ z) = takeWhile P q"
  by (induction q) auto

lemma split_sign_append: "e \<noteq> [] \<Longrightarrow> split_sign (e @ z) = (fst (split_sign e), snd (split_sign e) @ z)"
  by (cases e) (auto simp: split_sign_def)

text \<open>Digits that end before a line end are read the same whatever follows.\<close>

lemma scan_int_local:
  assumes "scan_int (q @ [10]) = Some (n, r)"
  shows "\<exists>r'. scan_int ((q @ [10]) @ z) = Some (n, r')"
proof -
  let ?d = "dropWhile is_space (q @ [10])"
  have stop: "\<exists>x\<in>set (q @ [10]). \<not> is_space x"
  proof (rule ccontr)
    assume "\<not> ?thesis"
    then have "?d = []" by (simp only: dropWhile_eq_Nil_conv) blast
    then show False using assms by (simp add: scan_int_def split_sign_def)
  qed
  then obtain e where e: "?d = e @ [10]" "e \<noteq> []"
  proof -
    from stop have "\<exists>x\<in>set q. \<not> is_space x" by (auto simp: is_space_def)
    then show ?thesis using that dropWhile_append_stop [of q is_space "[10]"]
      by (metis dropWhile_eq_Nil_conv)
  qed
  obtain neg w where w: "split_sign ?d = (neg, w @ [10])" "split_sign (?d @ z) = (neg, (w @ [10]) @ z)"
    using that split_sign_append [OF e(2), of "[10]"] split_sign_append [OF e(2), of "[10] @ z"] e(1) by simp
  have "\<exists>x\<in>set (w @ [10]). \<not> is_digit x" by (simp add: is_digit_def)
  from takeWhile_append_stop [OF this, of z]
  have t: "takeWhile is_digit ((w @ [10]) @ z) = takeWhile is_digit (w @ [10])" .
  have d: "dropWhile is_space ((q @ [10]) @ z) = ?d @ z" by (rule dropWhile_append_stop [OF stop])
  show ?thesis using assms unfolding scan_int_def d Let_def w prod.case t by (auto split: if_splits)
qed

lemma atoi_local:
  assumes "0 \<notin> set q" "atoi ((q @ [10]) @ [0]) = Some n" "n \<noteq> 0"
  shows "atoi ((q @ [10]) @ y) = Some n"
proof -
  have z: "0 \<notin> set (q @ [10])" using assms(1) by simp
  from assms(2) have "atoi (q @ [10]) = Some n"
    using c_str_append [OF z, of "[0]"] c_str_append [OF z, of "[]"] by (simp add: atoi_def c_str_def)
  then obtain r where r: "scan_int (q @ [10]) = Some (n, r)" "int_range n"
    using assms(3) c_str_append [OF z, of "[]"]
    by (auto simp: atoi_def c_str_def split: option.splits if_splits)
  from scan_int_local [OF r(1), of "c_str y"] r(2) show ?thesis
    unfolding atoi_def c_str_append [OF z] by auto
qed

lemma find_index_append_Some:
  "find_index P x = Some i \<Longrightarrow> find_index P (x @ y) = Some i"
  by (induction x arbitrary: i) (auto split: if_splits option.splits)

lemma find_index_append_bound:
  "find_index P (x @ y) = Some i \<Longrightarrow> i < length x \<Longrightarrow> find_index P x = Some i"
  by (induction x arbitrary: i) (auto split: if_splits option.splits)

text \<open>A length the header names is read the same behind a header that goes on.\<close>

lemma find_length_local:
  assumes "0 \<notin> set p" "length p = m + 4" "drop m p = blank_line"
    "find_length m (p @ [0]) = Some n" "n \<noteq> 0"
  shows "find_length m (p @ y) = Some n"
  using assms
proof (induction m arbitrary: p)
  case (Suc m)
  have c: "c_str (p @ z) = p @ c_str z" for z using Suc.prems(1) by (rule c_str_append)
  have cr: "p ! Suc m = 13" "Suc m < length p"
    using Suc.prems(2,3) by (auto simp: crlf_def nth_via_drop)
  have sw: "starts_with (bytes ''Content-Length'') (p @ z) = starts_with (bytes ''Content-Length'') p"
    "starts_with (bytes ''content-length'') (p @ z) = starts_with (bytes ''content-length'') p" for z
    by (rule starts_with_before [OF _ cr(2,1)]; simp add: bytes_def)+
  have p0: "(p @ z) ! 0 = p ! 0" for z using cr(2) nth_append_left [of 0 p z] by linarith
  define hit where "hit \<longleftrightarrow> (p ! 0 = 67 \<or> p ! 0 = 99) \<and> starts_with (bytes ''Content-Length'') p \<or> starts_with (bytes ''content-length'') p"
  have step: "find_length (Suc m) (p @ z) =
      (if hit then (case strchr (p @ z) 58 of Some c \<Rightarrow> if c < Suc m then atoi (drop (c + 1) (p @ z)) else Some 0 | None \<Rightarrow> Some 0)
       else find_length m (drop 1 p @ z))" for z
  proof -
    have d: "drop 1 (p @ z) = drop 1 p @ z" using cr(2) by simp
    show ?thesis unfolding find_length.simps c sw p0 hit_def d ..
  qed
  show ?case
  proof (cases hit)
    case False
    have "0 \<notin> set (drop 1 p)" "length (drop 1 p) = m + 4" "drop m (drop 1 p) = blank_line"
      using Suc.prems(1,2,3) by (auto dest: in_set_dropD)
    moreover from Suc.prems(4) False have "find_length m (drop 1 p @ [0]) = Some n" by (simp only: step if_False)
    ultimately have "find_length m (drop 1 p @ y) = Some n" using Suc.prems(5) by (rule Suc.IH)
    then show ?thesis using False by (simp only: step if_False)
  next
    case True
    with Suc.prems(4,5) obtain i where i: "strchr (p @ [0]) 58 = Some i" "i < Suc m" "atoi (drop (i + 1) (p @ [0])) = Some n"
      unfolding step by (auto split: option.splits if_splits)
    have "find_index (\<lambda>b. b = 58) p = Some i"
      using i(1,2) cr(2) find_index_append_bound unfolding strchr_def c by fastforce
    then have j: "strchr (p @ y) 58 = Some i" unfolding strchr_def c by (rule find_index_append_Some)
    define q where "q = butlast (drop (i + 1) p)"
    have "p \<noteq> []" "last p = 10"
      using Suc.prems(2,3) last_drop [of "Suc m" p] by (auto simp: crlf_def)
    then have q: "drop (i + 1) p = q @ [10]"
      using i(2) cr(2) Suc.prems(2) append_butlast_last_id [of "drop (i + 1) p"] by (simp add: q_def)
    have "0 \<notin> set q" using Suc.prems(1) in_set_dropD [of 0 "i + 1" p] q by auto
    moreover have d: "drop (i + 1) (p @ z) = (q @ [10]) @ z" for z using i(2) cr(2) q by simp
    then have "atoi ((q @ [10]) @ [0]) = Some n" using i(3) by metis
    ultimately have "atoi ((q @ [10]) @ y) = Some n" using Suc.prems(5) by (rule atoi_local)
    then have "atoi (drop (i + 1) (p @ y)) = Some n" using d by metis
    then show ?thesis using True i(2) j by (simp only: step if_True option.case)
  qed
qed simp

text \<open>Behind a zero byte nothing is read.\<close>

lemma find_length_zero:
  "0 \<notin> set p \<Longrightarrow> m < length p \<Longrightarrow> find_length m (p @ 0 # z) = find_length m (p @ 0 # z')"
proof (induction m arbitrary: p)
  case (Suc m)
  have c: "c_str (p @ 0 # z) = p" for z using c_str_append [OF Suc.prems(1), of "0 # z"] by simp
  have d: "atoi (drop (Suc i) (p @ 0 # z)) = atoi (drop (Suc i) (p @ 0 # z'))" if "i < Suc m" for i
  proof -
    have "0 \<notin> set (drop (Suc i) p)" using Suc.prems(1) by (auto dest: in_set_dropD)
    then have "c_str (drop (Suc i) p @ 0 # z) = c_str (drop (Suc i) p @ 0 # z')" by (simp add: c_str_append)
    then show ?thesis using that Suc.prems(2) by (simp add: atoi_def)
  qed
  have p0: "(p @ w) ! 0 = p ! 0" for w using Suc.prems(2) nth_append_left [of 0 p w] by linarith
  have "0 \<notin> set (drop 1 p)" using Suc.prems(1) by (auto dest: in_set_dropD)
  then have "find_length m (drop 1 p @ 0 # z) = find_length m (drop 1 p @ 0 # z')"
    using Suc.IH [of "drop 1 p"] Suc.prems(2) by simp
  moreover have dr: "drop 1 (p @ w) = drop 1 p @ w" for w using Suc.prems(2) by simp
  moreover have "(case strchr (p @ 0 # z) 58 of Some i \<Rightarrow> if i < Suc m then atoi (drop (i + 1) (p @ 0 # z)) else Some 0 | None \<Rightarrow> Some 0)
    = (case strchr (p @ 0 # z') 58 of Some i \<Rightarrow> if i < Suc m then atoi (drop (i + 1) (p @ 0 # z')) else Some 0 | None \<Rightarrow> Some 0)"
    unfolding strchr_def c using d by (simp split: option.split)
  ultimately show ?case unfolding find_length.simps c p0 dr by (simp only:)
qed simp

section \<open>Headers made of lines\<close>

definition header_of :: "u8 list list \<Rightarrow> u8 list" where
  "header_of ls = concat (map (\<lambda>l. l @ crlf) ls) @ crlf"

definition header_line :: "u8 list \<Rightarrow> bool" where
  "header_line l \<longleftrightarrow> l \<noteq> [] \<and> 0 \<notin> set l \<and> 13 \<notin> set l"

lemma not_starts_blank: "x ! 0 \<noteq> 13 \<Longrightarrow> \<not> starts_with blank_line x"
  by (cases x) (auto simp: starts_with_def crlf_def)

lemma no_early_blank:
  assumes "ls \<noteq> []" "\<forall>l\<in>set ls. header_line l" "j < length (header_of ls) - 4"
  shows "\<not> starts_with blank_line (drop j (header_of ls))"
  using assms
proof (induction ls arbitrary: j)
  case (Cons l ls)
  have l: "header_line l" using Cons.prems(2) by simp
  have h: "header_of (l # ls) = l @ crlf @ header_of ls" by (simp add: header_of_def)
  consider "j < length l" | "j = length l" | "j = length l + 1" | "length l + 2 \<le> j"
    by linarith
  then show ?case
  proof cases
    case 1
    then have "drop j (header_of (l # ls)) ! 0 = l ! j" by (simp add: h nth_append)
    moreover have "l ! j \<noteq> 13" using l nth_mem [OF 1] by (metis header_line_def)
    ultimately show ?thesis by (simp add: not_starts_blank)
  next
    case 2
    then have "ls \<noteq> []" using Cons.prems(3) by (auto simp: header_of_def)
    then obtain b k rest where ls: "ls = (b # k) # rest" "b \<noteq> 13" using Cons.prems(2)
      by (cases ls; cases "hd ls") (auto simp: header_line_def)
    then show ?thesis using 2 by (simp add: h header_of_def starts_with_def crlf_def)
  next
    case 3
    then have "drop j (header_of (l # ls)) ! 0 = 10" by (simp add: h crlf_def)
    then show ?thesis by (intro not_starts_blank) simp
  next
    case 4
    define i where "i = j - (length l + 2)"
    with 4 have 4: "j = length l + 2 + i" by simp
    then have "drop j (header_of (l # ls)) = drop i (header_of ls)" by (simp add: h crlf_def)
    moreover have "i < length (header_of ls) - 4" using Cons.prems(3) 4 by (simp add: h crlf_def)
    moreover from this have "ls \<noteq> []" by (auto simp: header_of_def)
    ultimately show ?thesis using Cons.IH Cons.prems(2) by simp
  qed
qed simp

lemma header_of_text:
  assumes "ls \<noteq> []" "\<forall>l\<in>set ls. header_line l"
  shows "header_text (header_of ls)"
proof -
  have z: "0 \<notin> set (header_of ls)" using assms(2) by (auto simp: header_of_def header_line_def crlf_def)
  have c: "c_str (header_of ls) = header_of ls" using c_str_append [OF z, of "[]"] by (simp add: c_str_def)
  have "header_of (butlast ls @ [last ls]) = concat (map (\<lambda>l. l @ crlf) (butlast ls)) @ last ls @ blank_line"
    by (simp add: header_of_def)
  then obtain u where e: "header_of ls = u @ blank_line" using assms(1) by auto
  have "strstr (header_of ls) blank_line = Some (length (header_of ls) - 4)"
  proof (rule strstr_eq_Some; unfold c)
    show "length (header_of ls) - 4 < length (header_of ls)" by (simp add: e)
    show "starts_with blank_line (drop (length (header_of ls) - 4) (header_of ls))" by (simp add: e starts_with_def)
  qed (rule no_early_blank [OF assms])
  with z show ?thesis by (simp add: header_text_def)
qed

lemma find_length_skip:
  "67 \<notin> set l \<Longrightarrow> 99 \<notin> set l \<Longrightarrow> find_length (length l + m) (l @ p) = find_length m p"
proof (induction l)
  case (Cons b l)
  have "c_str (b # x) = (if b = 0 then [] else b # c_str x)" for x by (simp add: c_str_def)
  then have "\<not> starts_with (bytes ''content-length'') (c_str (b # l @ p))"
    using Cons.prems(2) by (simp add: starts_with_def bytes_def)
  then show ?case using Cons by simp
qed simp

section \<open>Segments\<close>

text \<open>The callbacks of one connection, in order; after a close lwIP makes none.\<close>

fun recv_all ::
  "('h, ('h, 'a) http_st_scheme) handler_call \<Rightarrow> nat \<Rightarrow> tcp_event list \<Rightarrow> conn_state_t option \<Rightarrow>
   ('h, 'a) http_st_scheme \<Rightarrow> (conn_state_t option \<times> ('h, 'a) http_st_scheme) option" where
  "recv_all call pcb (e # es) (Some cs) s = do {
     (c, s) \<leftarrow> on_recv call pcb e cs s;
     recv_all call pcb es c s
   }"
| "recv_all call pcb _ c s = Some (c, s)"

text \<open>What the connection holds after the first \<open>k\<close> bytes of a request with header \<open>h\<close>.\<close>

definition conn_at :: "u8 list \<Rightarrow> u8 list \<Rightarrow> nat \<Rightarrow> conn_state_t" where
  "conn_at h body k = \<lparr>req_buf = take k (h @ body) @ replicate (REQ_BUF_MAX - k) 0, used = k,
     have_headers = (length h \<le> k), content_length = (if length h \<le> k then int (length body) else 0),
     body_offset = (if length h \<le> k then length h else 0)\<rparr>"

text \<open>A request whose header says how long its body is, in a buffer with room to spare.\<close>

definition whole_request :: "u8 list \<Rightarrow> u8 list \<Rightarrow> bool" where
  "whole_request h body \<longleftrightarrow> header_text h \<and> find_length (length h - 4) (h @ [0]) = Some (int (length body))
     \<and> length (h @ body) < REQ_BUF_MAX"

lemma conn_at_0 [simp]: "header_text h \<Longrightarrow> conn_at h body 0 = fresh_conn"
  using header_textD(2) [of h] by (auto simp: conn_at_def fresh_conn_def)

lemma find_length_whole:
  assumes "whole_request h body" "length h \<le> k" "k \<le> length (h @ body)"
  shows "find_length (length h - 4) (h @ take (k - length h) body @ replicate (REQ_BUF_MAX - k) 0) = Some (int (length body))"
proof (cases "body = []")
  case False
  then show ?thesis
    using find_length_local [of h "length h - 4"] header_textD [of h] assms(1) by (simp add: whole_request_def)
next
  case True
  obtain i where i: "REQ_BUF_MAX - k = Suc i"
    using assms(1,3) True by (cases "REQ_BUF_MAX - k") (simp_all add: whole_request_def)
  show ?thesis
    using True assms(1) i header_textD(1,2) [of h] find_length_zero [of h "length h - 4" "replicate i 0" "[]"]
    by (simp add: whole_request_def)
qed

lemma take_whole: "length h \<le> k \<Longrightarrow> take k (h @ body) = h @ take (k - length h) body"
  by simp

lemma parse_headers_fill:
  assumes w: "whole_request h body" and k: "k \<le> length (h @ body)"
    and cs: "have_headers cs = False" "used cs = k" "content_length cs = 0" "body_offset cs = 0"
      "req_buf cs = take k (h @ body) @ replicate (REQ_BUF_MAX - k) 0"
  shows "parse_headers cs = Some (conn_at h body k)"
proof -
  define r where "r = h @ body"
  have h: "header_text h" "length r < REQ_BUF_MAX" using w by (simp_all add: whole_request_def r_def)
  then obtain i where i: "REQ_BUF_MAX - k = Suc i" using k by (cases "REQ_BUF_MAX - k") (simp_all add: r_def)
  have kr: "length (take k r) = k" using k by (simp add: r_def)
  have buf: "(req_buf cs)[k := 0] = req_buf cs"
    by (simp only: cs(5) i flip: r_def) (simp only: list_update_append kr less_irrefl if_False diff_self_eq_0 replicate_Suc list_update_code)
  have len: "length (req_buf cs) = REQ_BUF_MAX" using kr k h(2) by (simp add: cs(5) flip: r_def) 
  have room: "\<not> length (req_buf cs) \<le> used cs" using len k h(2) cs(2) by (simp add: r_def)
  show ?thesis
  proof (cases "length h \<le> k")
    case False
    then have "strstr (req_buf cs) blank_line = None" using strstr_prefix [OF h(1), of k] by (simp add: cs(5))
    then have "parse_headers cs = Some (cs\<lparr>req_buf := req_buf cs\<rparr>)" using room buf cs(2) by (simp add: parse_headers_def)
    then show ?thesis using False cs by (simp add: conn_at_def)
  next
    case True
    define y where "y = take (k - length h) body @ replicate (REQ_BUF_MAX - k) 0"
    have y: "req_buf cs = h @ y" unfolding cs(5) take_whole [OF True] y_def by simp
    have "strstr (req_buf cs) blank_line = Some (length h - 4)" unfolding y by (rule strstr_header [OF h(1)])
    moreover have "find_length (length h - 4) (req_buf cs) = Some (int (length body))"
      unfolding y y_def by (rule find_length_whole [OF w True k])
    ultimately have "parse_headers cs = Some (cs\<lparr>req_buf := req_buf cs, have_headers := True, body_offset := length h - 4 + 4, content_length := int (length body)\<rparr>)"
      using room buf cs(2) by (simp add: parse_headers_def)
    then show ?thesis using True cs header_textD(2) [OF h(1)] by (simp add: conn_at_def)
  qed
qed

lemma request_complete_conn_at:
  assumes "whole_request h body" "k \<le> length (h @ body)"
  shows "request_complete (conn_at h body k) \<longleftrightarrow> k = length (h @ body)"
proof (cases "length h \<le> k \<and> body \<noteq> []")
  case True
  have "unat (of_nat (length h) + of_nat (length body) :: u32) = length h + length body" "unat (of_nat k :: u32) = k"
    using assms by (simp_all add: whole_request_def http_consts unat_of_nat flip: of_nat_add)
  then show ?thesis using True assms(2)
    by (auto simp: request_complete_def conn_at_def word_le_nat_alt)
next
  case False
  then show ?thesis using assms(2) header_textD(2) [of h] assms(1)
    by (auto simp: request_complete_def conn_at_def whole_request_def)
qed

lemma on_recv_segment:
  assumes w: "whole_request h body" and k: "k + length p \<le> length (h @ body)" "k < length (h @ body)"
    and p: "take (length p) (drop k (h @ body)) = p"
  shows "on_recv call pcb (Segment p) (conn_at h body k) s =
    (if k + length p < length (h @ body) then Some (Some (conn_at h body (k + length p)), s)
     else map_option (Pair None) (dispatch call pcb (conn_at h body (length (h @ body))) s))"
proof -
  define r where "r = h @ body"
  define cs where "cs = (conn_at h body k)\<lparr>req_buf := take k (req_buf (conn_at h body k)) @ p @ drop (k + length p) (req_buf (conn_at h body k)),
      used := k + length p\<rparr>"
  have R: "length r < REQ_BUF_MAX" using w by (simp add: whole_request_def r_def)
  have kr: "length (take k r) = k" using k by (simp add: r_def)
  have "take (k + length p) r = take k r @ p" using p by (simp only: take_add r_def)
  moreover have "take k (take k r @ replicate (REQ_BUF_MAX - k) 0) = take k r"
    using kr by (simp only: take_append) simp
  moreover have "drop (k + length p) (take k r @ replicate (REQ_BUF_MAX - k) 0) = replicate (REQ_BUF_MAX - (k + length p)) 0"
    by (simp only: drop_append kr) (simp add: drop_replicate)
  ultimately have buf: "req_buf cs = take (k + length p) r @ replicate (REQ_BUF_MAX - (k + length p)) 0"
    by (simp add: cs_def conn_at_def flip: r_def)
  have parsed: "(if have_headers cs then Some cs else parse_headers cs) = Some (conn_at h body (k + length p))"
  proof (cases "length h \<le> k")
    case True
    then have "cs = conn_at h body (k + length p)"
      using buf by (simp add: cs_def conn_at_def flip: r_def)
    then show ?thesis using True by (simp add: conn_at_def)
  next
    case False
    have "parse_headers cs = Some (conn_at h body (k + length p))"
      by (rule parse_headers_fill [OF w k(1)]) (use False buf in \<open>simp_all add: cs_def conn_at_def r_def\<close>)
    then show ?thesis using False by (simp add: cs_def conn_at_def)
  qed
  have u: "used (conn_at h body k) = k" by (simp add: conn_at_def)
  have room: "\<not> REQ_BUF_MAX < k + length p" using k(1) R by (simp add: r_def)
  have "on_recv call pcb (Segment p) (conn_at h body k) s =
     (if \<not> request_complete (conn_at h body (k + length p)) then Some (Some (conn_at h body (k + length p)), s)
      else do { s \<leftarrow> dispatch call pcb (conn_at h body (k + length p)) s; Some (None, s) })"
    using parsed room unfolding on_recv_def u cs_def by (simp only: tcp_event.case if_False Let_def bind.bind_lunit)
  then show ?thesis using k(1) unfolding request_complete_conn_at [OF w k(1)] 
    by (auto simp: map_option_case split: option.split Option.bind_splits)
qed

lemma recv_all_closed [simp]: "recv_all call pcb es None s = Some (None, s)"
  by (cases es) simp_all

lemma recv_all_segments:
  assumes "whole_request h body" "k < length (h @ body)" "drop k (h @ body) = concat ps"
  shows "recv_all call pcb (map Segment ps) (Some (conn_at h body k)) s
    = map_option (Pair None) (dispatch call pcb (conn_at h body (length (h @ body))) s)"
  using assms(2,3)
proof (induction ps arbitrary: k)
  case (Cons p ps)
  have len: "length (h @ body) = k + length p + length (concat ps)"
    using arg_cong [OF Cons.prems(2), of length] Cons.prems(1) by simp
  have p: "take (length p) (drop k (h @ body)) = p" "drop (k + length p) (h @ body) = concat ps"
  proof -
    have "drop (length p) (drop k (h @ body)) = concat ps" unfolding Cons.prems(2) by simp
    then show "drop (k + length p) (h @ body) = concat ps" unfolding drop_drop by (simp only: add.commute)
  qed (simp only: Cons.prems(2) concat.simps, simp)
  have seg: "on_recv call pcb (Segment p) (conn_at h body k) s =
    (if k + length p < length (h @ body) then Some (Some (conn_at h body (k + length p)), s)
     else map_option (Pair None) (dispatch call pcb (conn_at h body (length (h @ body))) s))"
    by (rule on_recv_segment [OF assms(1) _ Cons.prems(1) p(1)]) (simp only: len)
  show ?case
  proof (cases "k + length p < length (h @ body)")
    case True
    then show ?thesis using Cons.IH [OF True p(2)] seg by simp
  next
    case False
    then show ?thesis using seg by (cases "dispatch call pcb (conn_at h body (length (h @ body))) s") simp_all
  qed
next
  case Nil
  then show ?case by (metis concat.simps(1) drop_eq_Nil leD)
qed


lemma recv_request:
  assumes "whole_request h body" "concat ps = h @ body"
  shows "recv_all call pcb (map Segment ps) (Some fresh_conn) s
    = (case dispatch call pcb (conn_at h body (length (h @ body))) s of
         None \<Rightarrow> None | Some s' \<Rightarrow> Some (None, s'))"
proof -
  have h: "header_text h" using assms(1) by (simp add: whole_request_def)
  show ?thesis
    using recv_all_segments [OF assms(1), of 0 ps call pcb s] assms(2) h header_textD(2) [OF h]
    by (cases h) (auto simp: map_option_case split: option.split)
qed

text \<open>
  C17: however TCP cuts a request into segments, the result is the same: the connection ends closed and
  the state is what dispatching the whole request once gives. The header is parsed when its last byte is there, the body waited
  for, and nothing is dispatched early, twice or not at all. The request has a header that announces its
  body's length and is shorter than the buffer.
\<close>

theorem segments_do_not_matter:
  assumes "whole_request h body" "concat ps = h @ body" "concat qs = h @ body"
  shows "recv_all call pcb (map Segment ps) (Some fresh_conn) s
    = recv_all call pcb (map Segment qs) (Some fresh_conn) s \<and>
    (recv_all call pcb (map Segment ps) (Some fresh_conn) s = Some (c, t) \<longrightarrow>
      c = None \<and> dispatch call pcb (conn_at h body (length (h @ body))) s = Some t)"
  unfolding recv_request [OF assms(1,2)] recv_request [OF assms(1,3)] by (auto split: option.split)

text \<open>
  A segment that fills the request buffer to its last byte passes the size check; when no header was
  complete before, the parser's terminating zero is then written one byte behind the buffer.
\<close>

theorem full_buffer_overruns:
  assumes "used cs + length p = REQ_BUF_MAX" "length (req_buf cs) = REQ_BUF_MAX" "\<not> have_headers cs"
  shows "on_recv call pcb (Segment p) cs s = None"
  using assms by (simp add: on_recv_def parse_headers_def)

end
