(* ===== verification/Webui.thy ===== *)
theory Webui
  imports Http_Segments
begin

text \<open>
  \<^verbatim>\<open>firmware/webui.c\<close>: the nine route handlers. The response buffer is part of the state; a response
  whose body is in it holds its contents. The module's own \<open>s_peer_name\<close> is \<open>webui_name\<close> here: it is
  not the \<open>s_peer_name\<close> of \<^verbatim>\<open>firmware/link_audio.c\<close>.
\<close>

unbundle bit_operations_syntax

definition LINK_NUM_PHYSICAL_TDM_PORTS :: nat where "LINK_NUM_PHYSICAL_TDM_PORTS = 2"

datatype handler = serve_index_fn | serve_status_fn | serve_channels_fn | post_tempo_fn | post_play_fn
  | post_stop_fn | post_name_fn | post_subscribe_fn | post_unsubscribe_fn

record webui_st = "handler http_st" +
  s_resp_buf :: "u8 list"
  webui_name :: "u8 list"

definition RESP_BUF :: nat where "RESP_BUF = 4096"

section \<open>Identifiers in hexadecimal\<close>

definition hex_digit :: "u8 \<Rightarrow> u8" where
  "hex_digit n = bytes ''0123456789abcdef'' ! unat n"

definition node_id_hex :: "link_id \<Rightarrow> u8 list" where
  "node_id_hex i = concat (map (\<lambda>b. [hex_digit (drop_bit 4 b), hex_digit (b AND 0xf)]) (id_bytes i))"

definition hex_to_id :: "u8 list \<Rightarrow> link_id option" where
  "hex_to_id p =
     (if length (c_str p) < 16 then None
      else map_option (\<lambda>vs. id_of_bytes (map ucast vs)) (those (map (\<lambda>i. scan_hex2 (drop (i * 2) p)) [0..<8])))"

section \<open>The page\<close>

definition index_html :: "u8 list" where
  "index_html = concat (map bytes
    [''<!doctype html><html lang='en'><head><meta charset='utf-8'>'',
     ''<title>LinkFPGA</title>'',
     ''<meta name='viewport' content='width=device-width,initial-scale=1'>'',
     ''<style>'',
     '':root{color-scheme:dark}'',
     ''body{font:14px/1.4 ui-monospace,Menlo,Consolas,monospace;'',
     ''background:#0b0e14;color:#d0d6e1;margin:0;padding:1.5rem;max-width:880px}'',
     ''h1{color:#ffae57;font-size:1.4rem;margin:0 0 .2rem 0}'',
     ''h2{color:#7fd1ff;font-size:.85rem;margin:1.4rem 0 .4rem 0;'',
     ''text-transform:uppercase;letter-spacing:.06em}'',
     ''.s{display:grid;grid-template-columns:max-content 1fr;gap:.3rem 1.2rem}'',
     ''.s div:nth-child(odd){color:#6b7993}'',
     ''table{width:100%;border-collapse:collapse;font-size:.9rem}'',
     ''th,td{padding:.35rem .6rem;border-bottom:1px solid #1c2230;text-align:left}'',
     ''th{color:#6b7993;font-weight:normal}'',
     ''.c{display:flex;gap:.6rem;flex-wrap:wrap;align-items:center}'',
     ''input,button{background:#161c27;color:#d0d6e1;border:1px solid #2a3346;'',
     ''padding:.4rem .7rem;font:inherit;border-radius:3px}'',
     ''button{cursor:pointer}button:hover{background:#1f2839}'',
     ''.led{display:inline-block;width:.7rem;height:.7rem;border-radius:50%;'',
     ''background:#2a3346;vertical-align:middle;margin-right:.3rem}'',
     ''.led.on{background:#5fdc7e;box-shadow:0 0 6px #5fdc7e}'',
     ''small{color:#6b7993}'',
     ''</style></head><body>'',
     ''<h1>LinkFPGA &mdash; Ableton Link in hardware</h1>'',
     ''<small>on-device HTTP, lwIP TCP/IPv4+IPv6 stack</small>'',
     ''<h2>Status</h2><div class='s'>'',
     ''<div>session</div><div id='session'>&mdash;</div>'',
     ''<div>tempo</div><div id='tempo'>&mdash;</div>'',
     ''<div>beat</div><div id='beat'>&mdash;</div>'',
     ''<div>play</div><div id='play'>&mdash;</div>'',
     ''<div>peers</div><div id='npeers'>0</div>'',
     ''<div>sync</div><div><span id='sled' class='led'></span><span id='stxt'>&mdash;</span></div>'',
     ''<div>name</div><div id='name'>&mdash;</div>'',
     ''<div>node</div><div id='nid'>&mdash;</div>'',
     ''<div>tdm</div><div id='tdm'>&mdash;</div></div>'',
     ''<h2>Peers</h2><table id='pt'><thead><tr><th>Node</th><th>Session</th>'',
     ''<th>Tempo</th><th>Endpoint</th></tr></thead><tbody></tbody></table>'',
     ''<h2>Local controls</h2><div class='c'>'',
     ''<label>BPM <input id='ti' type='number' min='20' max='999' step='.1' value='120'></label>'',
     ''<button onclick='st()'>apply</button>'',
     ''<button onclick='pl()'>play</button>'',
     ''<button onclick='sp()'>stop</button>'',
     ''<label>name <input id='ni' placeholder='linkfpga'></label>'',
     ''<button onclick='sn()'>apply</button></div>'',
     ''<h2>Remote audio channels</h2><table id='ct'><thead><tr><th>Channel</th>'',
     ''<th>Peer</th><th>Subscribe to TDM</th></tr></thead><tbody></tbody></table>'',
     ''<script>'',
     ''const $=i=>document.getElementById(i);'',
     ''async function r(){'',
     ''const j=await(await fetch('/api/status')).json();'',
     ''$('session').textContent=j.session_id;'',
     ''$('tempo').textContent=j.tempo_bpm.toFixed(2)+' BPM';'',
     ''$('beat').textContent=j.beats.toFixed(3);'',
     ''$('play').textContent=j.playing?'PLAYING':'stopped';'',
     ''$('npeers').textContent=j.peers.length;'',
     ''$('sled').className='led '+(j.synced?'on':'' @ [CHR 0x27, CHR 0x27] @ '');'',
     ''$('stxt').textContent=j.synced?'locked':'free';'',
     ''$('name').textContent=j.name;'',
     ''$('nid').textContent=j.node_id;'',
     ''$('tdm').textContent=j.tdm.physical+' physical + '+j.tdm.virtual+' virtual TDM16, '+j.tdm.channels_per_port+' ch '+j.tdm.fs_hz+' Hz';'',
     ''const tb=$('pt').tBodies[0];tb.innerHTML='' @ [CHR 0x27, CHR 0x27] @ '';'',
     ''for(const p of j.peers){const tr=document.createElement('tr');'',
     ''tr.innerHTML=`<td>${p.node_id}</td><td>${p.session_id}</td><td>${p.tempo_bpm.toFixed(2)}</td><td>${p.endpoint}</td>`;tb.appendChild(tr)}'',
     ''const c=await(await fetch('/api/channels')).json();'',
     ''const ctb=$('ct').tBodies[0];ctb.innerHTML='' @ [CHR 0x27, CHR 0x27] @ '';'',
     ''for(const ch of c.channels){const tr=document.createElement('tr');'',
     ''tr.innerHTML=`<td>${ch.name}<br><small>${ch.id}</small></td><td><small>${ch.peer}</small></td><td>port <input type='number' min='0' max='15' value='0' style='width:3rem' id='p_${ch.id}'> slot <input type='number' min='0' max='15' value='0' style='width:3rem' id='s_${ch.id}'> <button onclick=\"sb('${ch.id}')\">subscribe</button> <button onclick=\"us('${ch.id}')\">stop</button></td>`;ctb.appendChild(tr)}}'',
     ''async function P(u,b){await fetch(u,{method:'POST',body:b||'' @ [CHR 0x27, CHR 0x27] @ ''});r()}'',
     ''function st(){P('/api/tempo',$('ti').value)}'',
     ''function pl(){P('/api/play')}'',
     ''function sp(){P('/api/stop')}'',
     ''function sn(){P('/api/name',$('ni').value)}'',
     ''function sb(id){P('/api/subscribe',$(`p_${id}`).value+' '+$(`s_${id}`).value+' '+id)}'',
     ''function us(id){P('/api/unsubscribe',id)}'',
     ''r();setInterval(r,1000);'',
     ''</script></body></html>''])"


definition serve_index :: "'a webui_st_scheme handler_fn" where
  "serve_index path body blen resp s =
     Some (resp\<lparr>content_type := Some (bytes ''text/html; charset=utf-8''), resp_body := index_html,
                body_len := of_nat (length index_html)\<rparr>, s)"

section \<open>Status and channels\<close>

definition bool_text :: "bool \<Rightarrow> u8 list" where
  "bool_text b = (if b then bytes ''true'' else bytes ''false'')"

text \<open>The opening of the status document, at host time \<open>now\<close>.\<close>

definition status_head :: "i64 \<Rightarrow> 'a webui_st_scheme \<Rightarrow> u8 list" where
  "status_head now s =
     (let bp = (if sint (tempo_us_per_beat (link_self_timeline s)) \<le> 0 then 500000 else tempo_us_per_beat (link_self_timeline s));
          cur_beats = f64_add (f64_div (f64_of_i64 (beat_origin_microbeats (link_self_timeline s))) (Fin 1000000))
                        (f64_div (f64_of_i64 (now - time_origin_us_ghost (link_self_timeline s))) (f64_of_i64 bp));
          bpm = f64_div (Fin 60000000) (f64_of_i64 bp);
          synced = memcmp (id_bytes (link_self_session s)) (id_bytes (link_self_id s)) \<noteq> 0
      in bytes ''{\"node_id\":\"'' @ node_id_hex (link_self_id s) @ bytes ''\",\"session_id\":\"'' @ node_id_hex (link_self_session s)
         @ bytes ''\",\"tempo_bpm\":'' @ fmt_f3 bpm @ bytes '',\"beats\":'' @ fmt_f3 cur_beats
         @ bytes '',\"playing\":'' @ bool_text (is_playing (link_self_startstop s) \<noteq> 0) @ bytes '',\"synced\":'' @ bool_text synced
         @ bytes '',\"name\":\"'' @ c_str (webui_name s) @ bytes ''\",\"tdm\":{\"physical\":'' @ dec LINK_NUM_PHYSICAL_TDM_PORTS
         @ bytes '',\"virtual\":'' @ dec (LINK_NUM_TDM_PORTS - LINK_NUM_PHYSICAL_TDM_PORTS)
         @ bytes '',\"channels_per_port\":'' @ dec LINK_TDM_CHANNELS_PER_PORT @ bytes '',\"fs_hz\":'' @ dec LINK_TDM_FS_HZ
         @ bytes ''},\"peers\":['')"

definition dotted :: "u32 \<Rightarrow> u8 list" where
  "dotted a = dec (unat (drop_bit 24 a AND 0xff)) @ [46] @ dec (unat (drop_bit 16 a AND 0xff)) @ [46]
     @ dec (unat (drop_bit 8 a AND 0xff)) @ [46] @ dec (unat (a AND 0xff))"

definition peer_entry :: "link_peer \<Rightarrow> u8 list option" where
  "peer_entry p =
     (if \<not> in_use p then None
      else let pbpm = (if tempo_us_per_beat (timeline p) \<noteq> 0
                       then f64_div (Fin 60000000) (f64_of_i64 (tempo_us_per_beat (timeline p))) else Fin 0)
        in Some (bytes ''{\"node_id\":\"'' @ node_id_hex (node_id p) @ bytes ''\",\"session_id\":\"'' @ node_id_hex (session_id p)
           @ bytes ''\",\"tempo_bpm\":'' @ fmt_f3 pbpm @ bytes '',\"endpoint\":\"'' @ dotted (mep4_addr p)
           @ [58] @ dec (unat (mep4_port p)) @ bytes ''\"}''))"

definition channel_entry :: "link_audio_remote_t \<Rightarrow> u8 list option" where
  "channel_entry r =
     (if \<not> rem_in_use r then None
      else Some (bytes ''{\"id\":\"'' @ node_id_hex (rem_channel_id r) @ bytes ''\",\"name\":\"'' @ c_str (rem_name r)
        @ bytes ''\",\"peer\":\"'' @ node_id_hex (rem_peer_id r) @ bytes ''\"}''))"

text \<open>The loop both documents share: entries are added while \<open>n\<close> leaves \<open>room\<close> bytes free.\<close>

fun add_entries ::
  "nat \<Rightarrow> ('e \<Rightarrow> u8 list option) \<Rightarrow> 'e list \<Rightarrow> nat \<Rightarrow> bool \<Rightarrow> u8 list \<Rightarrow> (nat \<times> u8 list) option" where
  "add_entries room f [] n first buf = Some (n, buf)"
| "add_entries room f (e # es) n first buf =
     (if n < RESP_BUF - room then
        case f e of
          None \<Rightarrow> add_entries room f es n first buf
        | Some t \<Rightarrow> do {
            let t = (if first then [] else [44]) @ t;
            buf \<leftarrow> snprintf_at n t buf;
            add_entries room f es (n + length t) False buf
          }
      else Some (n, buf))"

definition write_document :: "u8 list \<Rightarrow> nat \<Rightarrow> ('e \<Rightarrow> u8 list option) \<Rightarrow> 'e list \<Rightarrow> u8 list \<Rightarrow> (nat \<times> u8 list) option" where
  "write_document head room f es buf = do {
     buf \<leftarrow> snprintf_at 0 head buf;
     (n, buf) \<leftarrow> add_entries room f es (length head) True buf;
     buf \<leftarrow> snprintf_at n (bytes '']}'') buf;
     Some (n + 2, buf)
   }"

definition serve_status :: "'a webui_st_scheme handler_fn" where
  "serve_status path body blen resp s = do {
     let (now_g, s) = ghost_time_us s;
     (n, buf) \<leftarrow> write_document (status_head now_g s) 256 peer_entry (link_peers s) (s_resp_buf s);
     Some (resp\<lparr>content_type := Some (bytes ''application/json''), resp_body := buf, body_len := of_nat n\<rparr>,
           s\<lparr>s_resp_buf := buf\<rparr>)
   }"

definition serve_channels :: "'a webui_st_scheme handler_fn" where
  "serve_channels path body blen resp s = do {
     (n, buf) \<leftarrow> write_document (bytes ''{\"channels\":['') 192 channel_entry (link_audio_remote s) (s_resp_buf s);
     Some (resp\<lparr>content_type := Some (bytes ''application/json''), resp_body := buf, body_len := of_nat n\<rparr>,
           s\<lparr>s_resp_buf := buf\<rparr>)
   }"

section \<open>Posts\<close>

text \<open>\<open>char tmp[k + 1] = {0}\<close> with at most \<open>k\<close> bytes of the body copied into it\<close>

definition copy_body :: "nat \<Rightarrow> u8 list \<Rightarrow> u32 \<Rightarrow> u8 list option" where
  "copy_body k body blen =
     (let n = min (unat blen) k in
      if length body < n then None else Some (take n body @ replicate (k + 1 - n) 0))"

definition ok_json :: "http_response_t \<Rightarrow> http_response_t" where
  "ok_json resp = resp\<lparr>content_type := Some (bytes ''application/json''), resp_body := bytes ''{\"ok\":true}'', body_len := 11\<rparr>"

definition failed :: "string \<Rightarrow> http_response_t \<Rightarrow> http_response_t" where
  "failed t resp = resp\<lparr>status := 400, resp_body := bytes t, body_len := of_nat (length t)\<rparr>"

definition post_tempo :: "'a webui_st_scheme handler_fn" where
  "post_tempo path body blen resp s = do {
     tmp \<leftarrow> copy_body 15 body blen;
     let bpm = atof tmp;
     if f64_less bpm (Fin 20) \<or> f64_less (Fin 999) bpm then Some (failed ''bad tempo'' resp, s)
     else do {
       s \<leftarrow> link_set_local_tempo bpm s;
       Some (ok_json resp, s)
     }
   }"

definition post_play :: "'a webui_st_scheme handler_fn" where
  "post_play path body blen resp s = do { s \<leftarrow> link_set_play True s; Some (ok_json resp, s) }"

definition post_stop :: "'a webui_st_scheme handler_fn" where
  "post_stop path body blen resp s = do { s \<leftarrow> link_set_play False s; Some (ok_json resp, s) }"

definition post_name :: "'a webui_st_scheme handler_fn" where
  "post_name path body blen resp s =
     (let n = min (unat blen) 31 in
      if length body < n then None
      else Some (ok_json resp, s\<lparr>webui_name := take n body @ [0] @ drop (n + 1) (webui_name s)\<rparr>))"

definition post_subscribe :: "'a webui_st_scheme handler_fn" where
  "post_subscribe path body blen resp s = do {
     tmp \<leftarrow> copy_body 79 body blen;
     m \<leftarrow> scan_subscribe tmp;
     Some (case m of
         None \<Rightarrow> (failed ''subscribe failed'' resp, s)
       | Some (port, slot, hex) \<Rightarrow>
           (case hex_to_id hex of
              None \<Rightarrow> (failed ''subscribe failed'' resp, s)
            | Some i \<Rightarrow>
                let (r, s) = link_audio_subscribe port slot i s in
                (if r = 0 then ok_json resp else failed ''subscribe failed'' resp, s)))
   }"

definition post_unsubscribe :: "'a webui_st_scheme handler_fn" where
  "post_unsubscribe path body blen resp s = do {
     tmp \<leftarrow> copy_body 19 body blen;
     Some (case hex_to_id tmp of
         None \<Rightarrow> (failed ''unsubscribe failed'' resp, s)
       | Some i \<Rightarrow>
           let (r, s) = link_audio_unsubscribe i s in
           (if r = 0 then ok_json resp else failed ''unsubscribe failed'' resp, s))
   }"

section \<open>Routes\<close>

fun web_call :: "(handler, 'a webui_st_scheme) handler_call" where
  "web_call serve_index_fn = serve_index"
| "web_call serve_status_fn = serve_status"
| "web_call serve_channels_fn = serve_channels"
| "web_call post_tempo_fn = post_tempo"
| "web_call post_play_fn = post_play"
| "web_call post_stop_fn = post_stop"
| "web_call post_name_fn = post_name"
| "web_call post_subscribe_fn = post_subscribe"
| "web_call post_unsubscribe_fn = post_unsubscribe"

definition webui_init :: "'a webui_st_scheme \<Rightarrow> 'a webui_st_scheme" where
  "webui_init s =
     http_route (bytes ''POST'') (bytes ''/api/unsubscribe'') post_unsubscribe_fn
     (http_route (bytes ''POST'') (bytes ''/api/subscribe'') post_subscribe_fn
     (http_route (bytes ''POST'') (bytes ''/api/name'') post_name_fn
     (http_route (bytes ''POST'') (bytes ''/api/stop'') post_stop_fn
     (http_route (bytes ''POST'') (bytes ''/api/play'') post_play_fn
     (http_route (bytes ''POST'') (bytes ''/api/tempo'') post_tempo_fn
     (http_route (bytes ''GET'') (bytes ''/api/channels'') serve_channels_fn
     (http_route (bytes ''GET'') (bytes ''/api/status'') serve_status_fn
     (http_route (bytes ''GET'') (bytes ''/'') serve_index_fn s))))))))"

end
