(* ===== verification/Web_Documents.thy ===== *)
theory Web_Documents
  imports Webui
begin

text \<open>
  What the handlers of the web interface print: identifiers in hexadecimal, and the two JSON documents,
  which always fit the response buffer.
\<close>

section \<open>Identifiers\<close>

lemma digits_val_two [simp]: "digits_val b [x, y] = the (hex_val x) * b + the (hex_val y)"
  by (simp add: digits_val_def)

abbreviation plain_hex :: "u8 \<Rightarrow> bool" where
  "plain_hex n \<equiv> hex_val (hex_digit n) = Some (unat n) \<and> \<not> is_space (hex_digit n) \<and>
     hex_digit n \<notin> {45, 43, 88, 120, 0}"

lemma hex_digit_all: "\<forall>n\<in>{0, 1, 2, 3, 4, 5, 6, 7, 8, 9, 10, 11, 12, 13, 14, 15}. plain_hex n"
  by (simp add: hex_digit_def bytes_def hex_val_def is_space_def)

lemma hex_digit_facts:
  assumes "unat n < 16"
  shows "hex_val (hex_digit n) = Some (unat n)" "\<not> is_space (hex_digit n)" "is_hex (hex_digit n)"
    "hex_digit n \<noteq> 45" "hex_digit n \<noteq> 43" "hex_digit n \<noteq> 88" "hex_digit n \<noteq> 120" "hex_digit n \<noteq> 0"
proof -
  have "unat n \<in> {0, 1, 2, 3, 4, 5, 6, 7, 8, 9, 10, 11, 12, 13, 14, 15}" using assms by (simp add: numeral_eq_Suc less_Suc_eq)
  then have "of_nat (unat n) \<in> (of_nat ` {0, 1, 2, 3, 4, 5, 6, 7, 8, 9, 10, 11, 12, 13, 14, 15} :: u8 set)" by (rule imageI)
  then have "n \<in> {0, 1, 2, 3, 4, 5, 6, 7, 8, 9, 10, 11, 12, 13, 14, 15}" by simp
  with hex_digit_all have h: "plain_hex n" by blast
  from h show "hex_val (hex_digit n) = Some (unat n)" "\<not> is_space (hex_digit n)" "is_hex (hex_digit n)"
    "hex_digit n \<noteq> 45" "hex_digit n \<noteq> 43" "hex_digit n \<noteq> 88" "hex_digit n \<noteq> 120" "hex_digit n \<noteq> 0"
    by (simp_all add: is_hex_def)
qed

lemma nibbles:
  "unat (drop_bit 4 b :: u8) < 16" "unat (b AND 0xf :: u8) < 16"
  "unat (drop_bit 4 b :: u8) * 16 + unat (b AND 0xf) = unat b"
proof -
  have m: "b AND 0xf = take_bit 4 b" by (simp add: take_bit_eq_mask mask_numeral)
  have less: "unat b < 256" using unsigned_less [of b] by (simp flip: of_nat_less_iff [where 'a = int])
  have d: "unat (drop_bit 4 b) = unat b div 16"
    by (simp only: unsigned_drop_bit_eq)
      (simp only: drop_bit_eq_div take_bit_length_eq unat_div, simp add: take_bit_nat_eq_self less)
  have t: "unat (b AND 0xf) = unat b mod 16" unfolding m by (simp only: unsigned_take_bit_eq) (simp add: take_bit_eq_mod)
  show "unat (b AND 0xf) < 16" unfolding t by simp
  show "unat (drop_bit 4 b) < 16" unfolding d using less by simp
  show "unat (drop_bit 4 b) * 16 + unat (b AND 0xf) = unat b" unfolding d t by simp
qed

lemma scan_hex2_digits:
  "scan_hex2 (hex_digit (drop_bit 4 b) # hex_digit (b AND 0xf) # rest) = Some (ucast b)"
proof -
  note h = hex_digit_facts [OF nibbles(1)] hex_digit_facts [OF nibbles(2)]
  have "(of_nat (unat b) :: u32) = ucast b" by (simp add: unsigned_word_eqI)
  then show ?thesis
    using h nibbles(3) [of b] by (simp add: scan_hex2_def c_str_def split_sign_def Let_def)
qed

lemma node_id_hex_parts:
  "length (node_id_hex i) = 16" "0 \<notin> set (node_id_hex i)"
  "j < 8 \<Longrightarrow> drop (j * 2) (node_id_hex i) =
     hex_digit (drop_bit 4 (id_bytes i ! j)) # hex_digit (id_bytes i ! j AND 0xf) # drop (Suc j * 2) (node_id_hex i)"
proof -
  obtain a b c d e f g h where i: "i = Link_id a b c d e f g h" by (cases i)
  show "length (node_id_hex i) = 16" by (simp add: node_id_hex_def i)
  show "0 \<notin> set (node_id_hex i)"
    using hex_digit_facts(8) [OF nibbles(1)] hex_digit_facts(8) [OF nibbles(2)] by (auto simp: node_id_hex_def i)
  have "j \<in> {0, 1, 2, 3, 4, 5, 6, 7}" if "j < 8" using that by auto
  then show "j < 8 \<Longrightarrow> drop (j * 2) (node_id_hex i) =
     hex_digit (drop_bit 4 (id_bytes i ! j)) # hex_digit (id_bytes i ! j AND 0xf) # drop (Suc j * 2) (node_id_hex i)"
    by (auto simp: node_id_hex_def i numeral_eq_Suc)
qed

text \<open>
  An identifier the web interface prints is read back by the two posts that take one, whatever
  follows the sixteen digits.
\<close>

theorem hex_round_trip: "hex_to_id (node_id_hex i @ rest) = Some i"
proof -
  have c: "\<not> length (c_str (node_id_hex i @ rest)) < 16"
    by (simp add: c_str_append node_id_hex_parts)
  have s: "scan_hex2 (drop (j * 2) (node_id_hex i @ rest)) = Some (ucast (id_bytes i ! j))" if "j < 8" for j
  proof -
    have "drop (j * 2) (node_id_hex i @ rest) = drop (j * 2) (node_id_hex i) @ rest"
      using that by (simp add: node_id_hex_parts(1))
    then show ?thesis using node_id_hex_parts(3) [OF that, of i] scan_hex2_digits by simp
  qed
  have "those (map (\<lambda>j. scan_hex2 (drop (j * 2) (node_id_hex i @ rest))) [0..<8]) = Some (map ucast (id_bytes i))"
    using s [of 0] s [of 1] s [of 2] s [of 3] s [of 4] s [of 5] s [of 6] s [of 7]
    by (cases i) (simp add: upt_rec numeral_eq_Suc)
  moreover have "map ucast (map ucast (id_bytes i) :: u32 list) = id_bytes i"
    by (cases i) (simp add: ucast_up_ucast_id is_up)
  ultimately show ?thesis using c unfolding hex_to_id_def by (simp only: if_False option.map id_of_bytes_bytes)
qed


section \<open>Documents\<close>

text \<open>What the loop writes: the entries, separated by commas.\<close>

fun joined :: "bool \<Rightarrow> u8 list list \<Rightarrow> u8 list" where
  "joined first [] = []"
| "joined first (t # ts) = (if first then [] else [44]) @ t @ joined False ts"

lemma snprintf_at_fits:
  assumes "take n buf = pre" "n = length pre" "n + length t < length buf"
  shows "\<exists>buf'. snprintf_at n t buf = Some buf' \<and> take (n + length t) buf' = pre @ t \<and> length buf' = length buf"
  using assms by (auto simp: snprintf_at_def Let_def min_def)

lemma add_entries_text:
  assumes "length buf = RESP_BUF" "take (length pre) buf = pre" "length pre + 3 \<le> RESP_BUF"
    "\<forall>e\<in>set es. \<forall>t. f e = Some t \<longrightarrow> length t + 4 < room" "room < RESP_BUF"
  shows "\<exists>k t buf'. t = pre @ joined first (take k (List.map_filter f es)) \<and>
    add_entries room f es (length pre) first buf = Some (length t, buf') \<and> length buf' = RESP_BUF \<and>
    take (length t) buf' = t \<and> length t + 3 \<le> RESP_BUF \<and>
    (length (List.map_filter f es) \<le> k \<or> RESP_BUF - room \<le> length t)"
  using assms
proof (induction es arbitrary: pre first buf)
  case Nil
  then show ?case by (intro exI [of _ 0] exI [of _ pre] exI [of _ buf]) simp
next
  case (Cons e es)
  show ?case
  proof (cases "length pre < RESP_BUF - room")
    case False
    then show ?thesis using Cons.prems by (intro exI [of _ 0] exI [of _ pre] exI [of _ buf]) simp
  next
    case True
    show ?thesis
    proof (cases "f e")
      case None
      have "\<forall>e\<in>set es. \<forall>t. f e = Some t \<longrightarrow> length t + 4 < room" using Cons.prems(4) by simp
      from Cons.IH [OF Cons.prems(1-3) this Cons.prems(5), of first] show ?thesis
        using None True by (simp add: List.map_filter_simps)
    next
      case (Some t)
      let ?t = "(if first then [] else [44]) @ t"
      have "length t + 4 < room" using Cons.prems(4) Some by simp
      then have fits: "length pre + length ?t + 3 \<le> RESP_BUF" using True Cons.prems(5) by auto
      obtain buf1 where b: "snprintf_at (length pre) ?t buf = Some buf1"
        "take (length pre + length ?t) buf1 = pre @ ?t" "length buf1 = RESP_BUF"
        using snprintf_at_fits [of "length pre" buf pre ?t] Cons.prems(1,2) fits by auto
      have "take (length (pre @ ?t)) buf1 = pre @ ?t" "length (pre @ ?t) + 3 \<le> RESP_BUF"
        "\<forall>e\<in>set es. \<forall>t. f e = Some t \<longrightarrow> length t + 4 < room"
        using b(2) fits Cons.prems(4) by simp_all
      from Cons.IH [OF b(3) this Cons.prems(5), of False]
      obtain k u buf' where k: "u = (pre @ ?t) @ joined False (take k (List.map_filter f es))"
        "add_entries room f es (length (pre @ ?t)) False buf1 = Some (length u, buf')" "length buf' = RESP_BUF"
        "take (length u) buf' = u" "length u + 3 \<le> RESP_BUF"
        "length (List.map_filter f es) \<le> k \<or> RESP_BUF - room \<le> length u"
        by blast
      have "add_entries room f (e # es) (length pre) first buf = Some (length u, buf')"
        using True Some b(1) k(2) by simp
      moreover have "u = pre @ joined first (take (Suc k) (List.map_filter f (e # es)))"
        using Some k(1) by (simp add: List.map_filter_simps)
      moreover have "length (List.map_filter f (e # es)) \<le> Suc k \<or> RESP_BUF - room \<le> length u"
        using k(6) Some by (auto simp: List.map_filter_simps)
      ultimately show ?thesis using k(3-5) by blast
    qed
  qed
qed

text \<open>A whole document: never cut, at most shortened by whole entries.\<close>

definition json_list :: "u8 list \<Rightarrow> u8 list list \<Rightarrow> u8 list" where
  "json_list pre ts = pre @ joined True ts @ [93, 125]"

lemma write_document_text:
  assumes "length buf = RESP_BUF" "length pre + 3 \<le> RESP_BUF"
    "\<forall>e\<in>set es. \<forall>t. f e = Some t \<longrightarrow> length t + 4 < room" "room < RESP_BUF"
  shows "\<exists>k t buf'. t = json_list pre (take k (List.map_filter f es)) \<and>
    write_document pre room f es buf = Some (length t, buf') \<and> length buf' = RESP_BUF \<and>
    take (length t) buf' = t \<and> length t < RESP_BUF \<and>
    (length (List.map_filter f es) \<le> k \<or> RESP_BUF - room < length t)"
proof -
  obtain buf1 where b1: "snprintf_at 0 pre buf = Some buf1" "take (length pre) buf1 = pre" "length buf1 = RESP_BUF"
    using snprintf_at_fits [of 0 buf "[]" pre] assms(1,2) by auto
  obtain k u buf2 where k: "u = pre @ joined True (take k (List.map_filter f es))"
    "add_entries room f es (length pre) True buf1 = Some (length u, buf2)" "length buf2 = RESP_BUF"
    "take (length u) buf2 = u" "length u + 3 \<le> RESP_BUF"
    "length (List.map_filter f es) \<le> k \<or> RESP_BUF - room \<le> length u"
    using add_entries_text [OF b1(3,2) assms(2-4), of True] by blast
  have e: "bytes '']}'' = [93, 125]" by (simp add: bytes_def)
  obtain buf3 where b3: "snprintf_at (length u) [93, 125] buf2 = Some buf3"
    "take (length u + 2) buf3 = u @ [93, 125]" "length buf3 = RESP_BUF"
    using snprintf_at_fits [of "length u" buf2 u "[93, 125]"] k by auto
  have "u @ [93, 125] = json_list pre (take k (List.map_filter f es))" by (simp add: json_list_def k(1))
  moreover have "write_document pre room f es buf = Some (length (u @ [93, 125]), buf3)"
    using b1(1) k(2) b3(1) by (simp add: write_document_def e)
  moreover have "take (length (u @ [93, 125])) buf3 = u @ [93, 125]" "length (u @ [93, 125]) < RESP_BUF"
    "length (List.map_filter f es) \<le> k \<or> RESP_BUF - room < length (u @ [93, 125])"
    using b3(2) k(5,6) by auto
  ultimately show ?thesis using b3(3) by blast
qed


section \<open>Lengths\<close>

lemma length_fmt_f3:
  assumes "\<bar>x\<bar> < 10 ^ k" "0 < k"
  shows "length (fmt_f3 (Fin x)) \<le> k + 6"
proof -
  define n where "n = nat (round_half_even (\<bar>x\<bar> * 1000))"
  have "\<bar>of_int (round_half_even (\<bar>x\<bar> * 1000)) - \<bar>x\<bar> * 1000\<bar> \<le> (1 / 2 :: rat)" by (rule round_half_even_error)
  then have "of_int (round_half_even (\<bar>x\<bar> * 1000)) < (10 ^ k * 1000 + 1 :: rat)"
    using assms(1) by linarith
  then have "round_half_even (\<bar>x\<bar> * 1000) < 10 ^ k * 1000 + 1"
    using of_int_less_iff [of "round_half_even (\<bar>x\<bar> * 1000)" "10 ^ k * 1000 + 1", where 'a = rat] by simp
  then have "n < 10 ^ k * 1000 + 1" unfolding n_def by (cases "0 \<le> round_half_even (\<bar>x\<bar> * 1000)") (simp_all add: nat_less_iff)
  moreover have "1 \<le> (10 :: nat) ^ k" by simp
  ultimately have "n < 10000 * 10 ^ k" by linarith
  then have "n div 1000 < 10 ^ Suc k" by (simp add: div_less_iff_less_mult)
  then have "length (dec (n div 1000)) \<le> Suc k" by (rule length_dec)
  then show ?thesis by (simp add: Let_def n_def [symmetric])
qed

lemma round_mag_bound:
  assumes "0 < x"
  shows "0 \<le> round_mag x \<and> round_mag x \<le> 2 * x + 1"
proof (cases "pow2 (- 1022) \<le> x")
  case True
  have "x / 2 ^ 53 \<le> x / 2" using assms by (intro divide_left_mono) simp_all
  then show ?thesis using round_mag_error [OF True] assms by linarith
next
  case False
  have "exponent x < - 1022"
  proof (rule ccontr)
    assume "\<not> exponent x < - 1022"
    then have "pow2 (- 1022) \<le> pow2 (exponent x)" by (intro pow2_mono) simp
    then show False using exponent_correct [OF assms] False by simp
  qed
  then have max: "max (exponent x - 52) (- 1074) = - 1074" by simp
  define q where "q = pow2 (- 1074)"
  have q: "0 < q" "q \<le> 1" using pow2_mono [of "- 1074" 0] by (simp_all add: q_def pow2_def [of 0])
  define r where "r = (of_int (round_half_even (x / q)) :: rat)"
  have r: "\<bar>r - x / q\<bar> \<le> 1 / 2" unfolding r_def by (rule round_half_even_error)
  have "0 \<le> \<lfloor>x / q\<rfloor>" using assms q(1) by simp
  then have "0 \<le> round_half_even (x / q)" by (simp add: round_half_even_def Let_def)
  then have "0 \<le> r" by (simp add: r_def)
  have "r * q \<le> (x / q + 1 / 2) * q" using r q(1) by (intro mult_right_mono) linarith+
  also have "\<dots> = x + q / 2" using q(1) by (simp add: distrib_right)
  finally have "r * q \<le> 2 * x + 1" using q(2) assms by linarith
  moreover have "round_mag x = r * q" by (simp add: round_mag_def max Let_def flip: q_def r_def)
  ultimately show ?thesis using q(1) \<open>0 \<le> r\<close> by simp
qed

lemma f64_round_bound:
  assumes "\<bar>x\<bar> \<le> b" "1 \<le> b" "b \<le> 2 ^ 200"
  shows "\<exists>y. f64_round x = Fin y \<and> \<bar>y\<bar> \<le> 3 * b"
proof (cases "x = 0")
  case False
  then have m: "0 \<le> round_mag \<bar>x\<bar>" "round_mag \<bar>x\<bar> \<le> 3 * b" using round_mag_bound [of "\<bar>x\<bar>"] assms by auto
  have "3 * b \<le> (3 * 2 ^ 200 :: rat)" using assms(3) by simp
  also have "\<dots> < pow2 1024" by (simp add: pow2_def)
  finally have "\<not> pow2 1024 \<le> round_mag \<bar>x\<bar>" using m(2) by linarith
  then show ?thesis using False m by (cases "x < 0") (simp_all add: f64_round_def Let_def)
qed (use assms in \<open>simp add: f64_round_def\<close>)

lemma f64_of_i64_bound: "\<exists>y. f64_of_i64 x = Fin y \<and> \<bar>y\<bar> \<le> 2 ^ 64 \<and> (x \<noteq> 0 \<longrightarrow> 1 / 2 \<le> \<bar>y\<bar>) \<and> (0 < sint x \<longrightarrow> 0 < y)"
proof -
  define n where "n = sint x"
  have "\<bar>n\<bar> \<le> 2 ^ 63" using sint_ge [of x] sint_lt [of x] by (simp add: n_def abs_le_iff)
  then have n: "\<bar>of_int n\<bar> \<le> (2 ^ 63 :: rat)" using of_int_le_iff [of "\<bar>n\<bar>" "2 ^ 63", where 'a = rat] by simp
  have one: "n \<noteq> 0 \<longrightarrow> 1 \<le> \<bar>of_int n :: rat\<bar>"
    using of_int_le_iff [of 1 "\<bar>n\<bar>", where 'a = rat] by auto
  have "pow2 (- 1022) \<le> 1" using pow2_mono [of "- 1022" 0] by (simp add: pow2_def [of 0])
  then have "pow2 (- 1022) \<le> \<bar>of_int n\<bar> \<or> (of_int n :: rat) = 0" using one by auto
  moreover have "\<bar>of_int n\<bar> \<le> (2 ^ 200 :: rat)" using n by simp
  ultimately obtain y where y: "f64_round (of_int n) = Fin y" "\<bar>y - of_int n\<bar> \<le> \<bar>of_int n\<bar> / 2 ^ 53"
    using f64_round_error by blast
  have half: "\<bar>of_int n :: rat\<bar> / 2 ^ 53 \<le> \<bar>of_int n\<bar> / 2" by (intro divide_left_mono) simp_all
  have "\<bar>y\<bar> \<le> 2 ^ 64"
  proof -
    have "\<bar>y\<bar> \<le> 2 * \<bar>of_int n\<bar>" using y(2) half by linarith
    also have "\<dots> \<le> 2 * 2 ^ 63" using n by (rule mult_left_mono) simp
    finally show ?thesis by simp
  qed
  moreover have "n \<noteq> 0 \<longrightarrow> 1 / 2 \<le> \<bar>y\<bar>" using y(2) half one by linarith
  moreover have "0 < y" if "0 < n"
  proof -
    have "0 < (of_int n :: rat)" using that by simp
    then show ?thesis using y(2) half by linarith
  qed
  moreover have "x \<noteq> 0 \<longleftrightarrow> n \<noteq> 0" by (simp add: n_def signed_eq_0_iff)
  ultimately show ?thesis using y(1) unfolding f64_of_i64_def n_def [symmetric] by blast
qed

text \<open>The three quotients of the documents are finite, and their texts short.\<close>

lemma tempo_finite:
  assumes "x \<noteq> 0"
  shows "\<exists>z. f64_div (Fin 60000000) (f64_of_i64 x) = Fin z \<and> \<bar>z\<bar> \<le> 3 * 120000000"
proof -
  obtain y where y: "f64_of_i64 x = Fin y" "1 / 2 \<le> \<bar>y\<bar>" using f64_of_i64_bound [of x] assms by blast
  then have "\<bar>60000000 / y\<bar> \<le> 120000000" by (simp add: abs_divide divide_le_eq)
  then obtain z where "f64_round (60000000 / y) = Fin z" "\<bar>z\<bar> \<le> 3 * 120000000"
    using f64_round_bound [of "60000000 / y" 120000000] by auto
  then show ?thesis using y by auto
qed

lemma beats_finite:
  assumes "0 < sint bp"
  shows "\<exists>w. f64_add (f64_div (f64_of_i64 b0) (Fin 1000000)) (f64_div (f64_of_i64 d) (f64_of_i64 bp)) = Fin w \<and>
    \<bar>w\<bar> < 10 ^ 21"
proof -
  obtain x y z where f: "f64_of_i64 b0 = Fin x" "\<bar>x\<bar> \<le> 2 ^ 64" "f64_of_i64 d = Fin y" "\<bar>y\<bar> \<le> 2 ^ 64"
    "f64_of_i64 bp = Fin z" "1 / 2 \<le> \<bar>z\<bar>"
    using f64_of_i64_bound [of b0] f64_of_i64_bound [of d] f64_of_i64_bound [of bp] assms by fastforce
  have "\<bar>y\<bar> * 1 \<le> 2 ^ 65 * \<bar>z\<bar>" using f(4,6) mult_left_mono [of "1 / 2" "\<bar>z\<bar>" "2 ^ 65"] by simp
  then have "\<bar>y / z\<bar> \<le> 2 ^ 65" using f(6) by (simp add: abs_divide divide_le_eq)
  then obtain v where v: "f64_round (y / z) = Fin v" "\<bar>v\<bar> \<le> 3 * 2 ^ 65" using f64_round_bound [of "y / z" "2 ^ 65"] by auto
  have "\<bar>x / 1000000\<bar> \<le> 2 ^ 64" using f(2) by simp
  then obtain u where u: "f64_round (x / 1000000) = Fin u" "\<bar>u\<bar> \<le> 3 * 2 ^ 64"
    using f64_round_bound [of "x / 1000000" "2 ^ 64"] by auto
  have "\<bar>u + v\<bar> \<le> 3 * 2 ^ 64 + 3 * 2 ^ 65" using u(2) v(2) by linarith
  then obtain w where w: "f64_round (u + v) = Fin w" "\<bar>w\<bar> \<le> 3 * (3 * 2 ^ 64 + 3 * 2 ^ 65)"
    using f64_round_bound [of "u + v" "3 * 2 ^ 64 + 3 * 2 ^ 65"] by auto
  have "\<bar>w\<bar> < 10 ^ 21" using w(2) by simp
  then show ?thesis using f u(1) v(1) w(1) by auto
qed

lemma tempo_text: "x \<noteq> 0 \<Longrightarrow> length (fmt_f3 (f64_div (Fin 60000000) (f64_of_i64 x))) \<le> 15"
  using tempo_finite [of x] length_fmt_f3 [of _ 9] by (fastforce simp del: fmt_f3.simps)

lemma beats_text:
  "0 < sint bp \<Longrightarrow>
   length (fmt_f3 (f64_add (f64_div (f64_of_i64 b0) (Fin 1000000)) (f64_div (f64_of_i64 d) (f64_of_i64 bp)))) \<le> 27"
  using beats_finite [of bp b0 d] length_fmt_f3 [of _ 21] by (fastforce simp del: fmt_f3.simps)

lemma dec_byte: "length (dec (unat (a AND 0xff :: u32))) \<le> 3"
proof -
  have m: "a AND 0xff = take_bit 8 a" by (simp add: take_bit_eq_mask mask_numeral)
  have "unat (a AND 0xff) = unat a mod 256" unfolding m by (simp only: unsigned_take_bit_eq) (simp add: take_bit_eq_mod)
  then have "unat (a AND 0xff) < 256" by simp
  then have "unat (a AND 0xff) < 10 ^ Suc 2" by simp
  from length_dec [OF this] show ?thesis by simp
qed

lemma dec_u16: "length (dec (unat (p :: u16))) \<le> 5"
proof -
  have "unat p < 65536" using unsigned_less [of p] by (simp flip: of_nat_less_iff [where 'a = int])
  then have "unat p < 10 ^ Suc 4" by simp
  from length_dec [OF this] show ?thesis by simp
qed

lemma peer_entry_length: "peer_entry p = Some t \<Longrightarrow> length t \<le> 125"
proof -
  assume p: "peer_entry p = Some t"
  have t: "length (fmt_f3 (if tempo_us_per_beat (timeline p) \<noteq> 0
      then f64_div (Fin 60000000) (f64_of_i64 (tempo_us_per_beat (timeline p))) else Fin 0)) \<le> 15"
    using tempo_text [of "tempo_us_per_beat (timeline p)"] length_fmt_f3 [of 0 1] by (simp del: fmt_f3.simps)
  have d: "length (dotted (mep4_addr p)) \<le> 15"
    using dec_byte [of "drop_bit 24 (mep4_addr p)"] dec_byte [of "drop_bit 16 (mep4_addr p)"]
      dec_byte [of "drop_bit 8 (mep4_addr p)"] dec_byte [of "mep4_addr p"] by (simp add: dotted_def)
  show ?thesis using p t d dec_u16 [of "mep4_port p"]
    by (auto simp: peer_entry_def Let_def bytes_def node_id_hex_parts(1) split: if_splits simp del: fmt_f3.simps)
qed

lemma status_head_length: "length (c_str (webui_name s)) < 32 \<Longrightarrow> length (status_head now s) < 400"
proof -
  assume n: "length (c_str (webui_name s)) < 32"
  define bp where "bp = (if sint (tempo_us_per_beat (link_self_timeline s)) \<le> 0 then 500000 else tempo_us_per_beat (link_self_timeline s))"
  have bp: "0 < sint bp" by (simp add: bp_def)
  then have "bp \<noteq> 0" by auto
  note printed = tempo_text [OF this] beats_text [OF bp, of "beat_origin_microbeats (link_self_timeline s)" "now - time_origin_us_ghost (link_self_timeline s)"]
  show ?thesis
    using n printed
    by (simp add: status_head_def Let_def bp_def [symmetric] bytes_def node_id_hex_parts(1) bool_text_def
        dec.simps LINK_NUM_PHYSICAL_TDM_PORTS_def tdm_consts del: fmt_f3.simps)
qed


lemma channel_entry_length: "channel_entry r = Some t \<Longrightarrow> length (c_str (rem_name r)) < 32 \<Longrightarrow> length t \<le> 92"
  by (auto simp: channel_entry_def bytes_def node_id_hex_parts(1) split: if_splits)

lemma joined_length:
  assumes "\<forall>t\<in>set ts. length t \<le> c" "length ts \<le> m"
  shows "length (joined first ts) \<le> m * (c + 1)"
proof -
  have "length (joined first ts) \<le> length ts * (c + 1)" using assms(1)
  proof (induction ts arbitrary: first)
    case (Cons t ts)
    then have "length (joined False ts) \<le> length ts * (c + 1)" "length t \<le> c" by auto
    then show ?case by (cases first) simp_all
  qed simp
  also have "\<dots> \<le> m * (c + 1)" using assms(2) by (rule mult_le_mono1)
  finally show ?thesis .
qed

lemma map_filter_bound: "length (List.map_filter f es) \<le> length es"
  by (induction es) (simp_all add: List.map_filter_simps split: option.split)

lemma map_filter_set: "t \<in> set (List.map_filter f es) \<Longrightarrow> \<exists>e\<in>set es. f e = Some t"
  by (induction es) (auto simp: List.map_filter_simps split: option.splits)

section \<open>The two documents\<close>

text \<open>
  The status response is the whole document, one entry for each peer in the table in its order, with
  a full table and every number at its longest: nothing is cut, and the buffer is never overrun.
\<close>

theorem status_document:
  assumes "length (s_resp_buf s) = RESP_BUF" "length (c_str (webui_name s)) < 32" "length (link_peers s) = LINK_MAX_PEERS"
  shows "\<exists>r t. serve_status path body blen resp s = Some (r, t) \<and> s_resp_buf t = resp_body r \<and>
    length (s_resp_buf t) = RESP_BUF \<and> unat (body_len r) < 2500 \<and>
    take (unat (body_len r)) (resp_body r) = json_list (status_head (ghost_now s) s) (List.map_filter peer_entry (link_peers s))"
proof -
  let ?ts = "List.map_filter peer_entry (link_peers s)" and ?h = "status_head (ghost_now s) s"
  have h: "length ?h < 400" using assms(2) by (rule status_head_length)
  have e: "\<forall>e\<in>set (link_peers s). \<forall>t. peer_entry e = Some t \<longrightarrow> length t + 4 < 256"
    using peer_entry_length by fastforce
  have room: "length ?h + 3 \<le> RESP_BUF" "256 < RESP_BUF" using h by (simp_all add: RESP_BUF_def)
  obtain k u buf where k: "u = json_list ?h (take k ?ts)"
    "write_document ?h 256 peer_entry (link_peers s) (s_resp_buf s) = Some (length u, buf)" "length buf = RESP_BUF"
    "take (length u) buf = u" "length u < RESP_BUF" "length ?ts \<le> k \<or> RESP_BUF - 256 < length u"
    using write_document_text [OF assms(1) room(1) e room(2)] by blast
  have short: "\<forall>t\<in>set (take k ?ts). length t \<le> 125"
    using peer_entry_length map_filter_set by (metis in_set_takeD)
  have "length (take k ?ts) \<le> 16"
    using map_filter_bound [of peer_entry "link_peers s"] assms(3) by (simp add: LINK_MAX_PEERS_def min_def)
  then have "length (joined True (take k ?ts)) \<le> 16 * 126"
    using joined_length [OF short, of 16 True] by simp
  then have len: "length u < 2500" using h by (simp add: k(1) json_list_def)
  then have "take k ?ts = ?ts" using k(6) by (auto simp: RESP_BUF_def)
  moreover have "unat (of_nat (length u) :: u32) = length u" using len by (simp add: unat_of_nat)
  moreover have "status_head now (s\<lparr>n_reads := n\<rparr>) = status_head now s" for now n by (simp add: status_head_def)
  ultimately show ?thesis using k len by (simp add: serve_status_def ghost_time_us_eq Let_def)
qed

text \<open>
  The channel list is well formed and within the buffer whatever the catalogue holds, but it can be
  shorter than the catalogue: it ends with the last whole entry before 3904 bytes.
\<close>

theorem channels_document:
  assumes "length (s_resp_buf s) = RESP_BUF" "\<forall>r\<in>set (link_audio_remote s). length (c_str (rem_name r)) < 32"
  shows "\<exists>r t k. serve_channels path body blen resp s = Some (r, t) \<and> s_resp_buf t = resp_body r \<and>
    length (s_resp_buf t) = RESP_BUF \<and> unat (body_len r) < RESP_BUF \<and>
    take (unat (body_len r)) (resp_body r) =
      json_list (bytes ''{\"channels\":['') (take k (List.map_filter channel_entry (link_audio_remote s))) \<and>
    (length (List.map_filter channel_entry (link_audio_remote s)) \<le> 41 \<longrightarrow>
      length (List.map_filter channel_entry (link_audio_remote s)) \<le> k)"
proof -
  let ?ts = "List.map_filter channel_entry (link_audio_remote s)" and ?h = "bytes ''{\"channels\":[''"
  have h: "length ?h = 13" by (simp add: bytes_def)
  have e: "\<forall>e\<in>set (link_audio_remote s). \<forall>t. channel_entry e = Some t \<longrightarrow> length t + 4 < 192"
    using channel_entry_length assms(2) by fastforce
  have room: "length ?h + 3 \<le> RESP_BUF" "192 < RESP_BUF" using h by (simp_all add: RESP_BUF_def)
  obtain k u buf where k: "u = json_list ?h (take k ?ts)"
    "write_document ?h 192 channel_entry (link_audio_remote s) (s_resp_buf s) = Some (length u, buf)" "length buf = RESP_BUF"
    "take (length u) buf = u" "length u < RESP_BUF" "length ?ts \<le> k \<or> RESP_BUF - 192 < length u"
    using write_document_text [OF assms(1) room(1) e room(2)] by blast
  have short: "\<forall>t\<in>set (take k ?ts). length t \<le> 92"
    using channel_entry_length assms(2) map_filter_set by (metis in_set_takeD)
  have "length ?ts \<le> k" if "length ?ts \<le> 41"
  proof -
    have "length (take k ?ts) \<le> 41" using that by simp
    then have "length (joined True (take k ?ts)) \<le> 41 * 93"
      using joined_length [OF short, of 41 True] by simp
    then have "length u < 3900" using h by (simp add: k(1) json_list_def)
    then show ?thesis using k(6) by (simp add: RESP_BUF_def)
  qed
  moreover have "unat (of_nat (length u) :: u32) = length u" using k(5) by (simp add: unat_of_nat RESP_BUF_def)
  ultimately show ?thesis using k by (simp add: serve_channels_def) blast
qed

end
