(* ===== verification/Web_Requests.thy ===== *)
theory Web_Requests
  imports Web_Documents
begin

text \<open>
  Requests followed from the first segment to the answer: the nine documented routes reach their
  handlers, a posted tempo is set, and what becomes of an answer larger than lwIP's send buffer.
\<close>

definition TCP_MSS :: nat where "TCP_MSS = 536"
definition TCP_SND_BUF :: nat where "TCP_SND_BUF = 2 * TCP_MSS"

section \<open>Routes\<close>

text \<open>The routes the head of \<^verbatim>\<open>firmware/webui.c\<close> lists.\<close>

definition documented :: "(string \<times> string \<times> handler) list" where
  "documented =
     [(''GET'', ''/'', serve_index_fn), (''GET'', ''/api/status'', serve_status_fn),
      (''GET'', ''/api/channels'', serve_channels_fn), (''POST'', ''/api/tempo'', post_tempo_fn),
      (''POST'', ''/api/play'', post_play_fn), (''POST'', ''/api/stop'', post_stop_fn),
      (''POST'', ''/api/name'', post_name_fn), (''POST'', ''/api/subscribe'', post_subscribe_fn),
      (''POST'', ''/api/unsubscribe'', post_unsubscribe_fn)]"

definition route_of :: "string \<times> string \<times> handler \<Rightarrow> handler route_t" where
  "route_of = (\<lambda>(m, p, f). \<lparr>route_method = bytes m, route_path = bytes p, route_fn = f\<rparr>)"

lemma http_route_short:
  assumes "length (s_routes s) < MAX_ROUTES" "take 7 (c_str m) = m" "take 63 (c_str p) = p"
  shows "http_route m p f s = s\<lparr>s_routes := s_routes s @ [\<lparr>route_method = m, route_path = p, route_fn = f\<rparr>]\<rparr>"
  using assms by (simp add: http_route_def)

lemma webui_routes: "webui_init (http_init s) = s\<lparr>s_routes := map route_of documented\<rparr>"
  by (simp add: webui_init_def http_init_def http_route_short MAX_ROUTES_def bytes_def c_str_def documented_def route_of_def)

lemma documented_facts:
  "\<forall>(m, p, f)\<in>set documented.
     map_option (\<lambda>i. route_fn (map route_of documented ! i))
       (find_index (\<lambda>r. route_method r = bytes m \<and> route_path r = bytes p) (map route_of documented)) = Some f \<and>
     length m \<le> 7 \<and> length p \<le> 63 \<and> 32 \<notin> set (bytes m) \<and> 32 \<notin> set (bytes p)"
  by (simp add: documented_def route_of_def bytes_def)

lemma documented_find:
  assumes "(m, p, f) \<in> set documented"
  obtains i where
    "find_index (\<lambda>r. route_method r = bytes m \<and> route_path r = bytes p) (map route_of documented) = Some i"
    "route_fn (map route_of documented ! i) = f" "length m \<le> 7" "length p \<le> 63"
    "32 \<notin> set (bytes m)" "32 \<notin> set (bytes p)"
  using bspec [OF documented_facts assms] that by auto

lemma length_bytes [simp]: "length (bytes t) = length t"
  by (simp add: bytes_def)

section \<open>The request line\<close>

lemma req_word_line:
  assumes "0 \<notin> set m" "32 \<notin> set m" "length m \<le> n"
  shows "req_word n (m @ 32 # rest) = m"
proof -
  have "takeWhile (\<lambda>c. c \<noteq> 0 \<and> c \<noteq> 32) (m @ 32 # rest) = m"
    using assms(1,2) by (induction m) auto
  then show ?thesis using assms(3) by (simp add: req_word_def)
qed

definition blank_response :: http_response_t where
  "blank_response = \<lparr>status = 200, content_type = Some (bytes ''text/plain''), resp_body = [], body_len = 0\<rparr>"

lemma dispatch_request:
  assumes "whole_request h body" "h = m @ 32 # p @ 32 # rest" "32 \<notin> set m" "32 \<notin> set p" "length m \<le> 7" "length p \<le> 63"
    "find_index (\<lambda>r. route_method r = m \<and> route_path r = p) (s_routes s) = Some i"
  shows "dispatch call pcb (conn_at h body (length (h @ body))) s = do {
      (resp, s) \<leftarrow> call (route_fn (s_routes s ! i)) p (body @ replicate (REQ_BUF_MAX - length (h @ body)) 0)
        (of_nat (length body)) blank_response s;
      http_send_response pcb resp s
    }"
proof -
  have z: "0 \<notin> set m" "0 \<notin> set p"
    using header_textD(1) [of h] assms(1,2) by (auto simp: whole_request_def)
  define y where "y = body @ replicate (REQ_BUF_MAX - length (h @ body)) 0"
  let ?c = "conn_at h body (length (h @ body))"
  have c: "req_buf ?c = h @ y" "content_length ?c = int (length body)" "body_offset ?c = length h"
    by (simp_all add: conn_at_def y_def)
  have verb: "req_word 7 (h @ y) = m" "(h @ y) ! length m = 32"
    using req_word_line [OF z(1) assms(3,5)] by (simp_all add: assms(2))
  have path: "req_word 63 (drop (length m + 1) (h @ y)) = p"
    using req_word_line [OF z(2) assms(4,6)] by (simp add: assms(2))
  show ?thesis
    unfolding dispatch_def c verb path Let_def assms(7)
    by (simp add: verb(2) blank_response_def y_def)
qed

lemma request_served:
  assumes "whole_request h body" "h = bytes m @ 32 # bytes p @ 32 # rest" "(m, p, f) \<in> set documented"
    "s_routes s = s_routes (webui_init (http_init s0))" "concat ps = h @ body"
  shows "recv_all web_call pcb (map Segment ps) (Some fresh_conn) s =
    (case web_call f (bytes p) (body @ replicate (REQ_BUF_MAX - length (h @ body)) 0) (of_nat (length body)) blank_response s of
       None \<Rightarrow> None
     | Some (r, t) \<Rightarrow> (case http_send_response pcb r t of None \<Rightarrow> None | Some t \<Rightarrow> Some (None, t)))"
proof -
  have r: "s_routes s = map route_of documented" using assms(4) by (simp add: webui_routes)
  obtain i where i: "find_index (\<lambda>r. route_method r = bytes m \<and> route_path r = bytes p) (s_routes s) = Some i"
    "route_fn (s_routes s ! i) = f" "length (bytes m) \<le> 7" "length (bytes p) \<le> 63" "32 \<notin> set (bytes m)" "32 \<notin> set (bytes p)"
    unfolding r length_bytes using assms(3) by (rule documented_find)
  show ?thesis
    unfolding recv_request [OF assms(1,5)] dispatch_request [OF assms(1,2) i(5,6,3,4,1)] i(2)
    by (auto simp: split_beta split: option.split Option.bind_split)
qed

text \<open>
  A request for a documented route, cut into segments in any way, runs exactly that route's handler
  on exactly its body, once, sends the handler's response and closes the connection.
\<close>

theorem documented_request_served:
  assumes "whole_request h body" "h = bytes m @ 32 # bytes p @ 32 # rest" "(m, p, f) \<in> set documented"
    "s_routes s = s_routes (webui_init (http_init s0))" "concat ps = h @ body"
  shows "recv_all web_call pcb (map Segment ps) (Some fresh_conn) s =
    (case web_call f (bytes p) (body @ replicate (REQ_BUF_MAX - length (h @ body)) 0) (of_nat (length body)) blank_response s of
       None \<Rightarrow> None
     | Some (r, t) \<Rightarrow> (case http_send_response pcb r t of None \<Rightarrow> None | Some t \<Rightarrow> Some (None, t)))"
  by (rule request_served [OF assms])

section \<open>The answer\<close>

lemma tcp_retimed [simp]:
  "tcp_accepts (retimed tml ss n s) = tcp_accepts s" "tcp_tried (retimed tml ss n s) = tcp_tried s"
  "tcp_sent (retimed tml ss n s) = tcp_sent s" "s_routes (retimed tml ss n s) = s_routes s"
  by (simp_all add: retimed_def link_broadcast_alive_now_def host_time_us_eq beat_pulse_load_timeline_def Let_def
      flags_write_def)

text \<open>One attempt per part; nothing looks at lwIP's answers.\<close>

definition answered :: "nat \<Rightarrow> u8 list \<Rightarrow> u8 list \<Rightarrow> 'a webui_st_scheme \<Rightarrow> 'a webui_st_scheme" where
  "answered pcb hdr b s =
     s\<lparr>tcp_tried := tcp_tried s + 2,
       tcp_sent := tcp_sent s @ (if tcp_accepts s (tcp_tried s) (length hdr) then [(pcb, hdr)] else [])
         @ (if tcp_accepts s (tcp_tried s + 1) (length b) then [(pcb, b)] else [])\<rparr>"

lemma send_response_answered:
  assumes "length (response_header r) < HDR_BUF_MAX" "body_len r \<noteq> 0" "unat (body_len r) \<le> length (resp_body r)"
  shows "http_send_response pcb r s
    = Some (answered pcb (response_header r) (take (unat (body_len r)) (resp_body r)) s)"
  using assms by (simp add: http_send_response_def tcp_write_def answered_def Let_def)

lemma ok_header: "length (response_header (ok_json blank_response)) < HDR_BUF_MAX"
  by (simp add: response_header_def ok_json_def blank_response_def reason_def bytes_def crlf_def dec.simps HDR_BUF_MAX_def)

lemma ok_answer_fits: "length (response_header (ok_json blank_response)) + length (bytes ''{\"ok\":true}'') \<le> TCP_SND_BUF"
  by (simp add: response_header_def ok_json_def blank_response_def reason_def bytes_def crlf_def dec.simps TCP_SND_BUF_def TCP_MSS_def)

lemma answered_ok:
  "http_send_response pcb (ok_json blank_response) s
    = Some (answered pcb (response_header (ok_json blank_response)) (bytes ''{\"ok\":true}'') s)"
  by (subst send_response_answered [OF ok_header]) (simp_all add: ok_json_def bytes_def)

lemma answered_fields [simp]:
  "link_self_timeline (answered pcb x y s) = link_self_timeline s" "s_state_dirty (answered pcb x y s) = s_state_dirty s"
  by (simp_all add: answered_def)

lemma post_tempo_body:
  "length body \<le> 15 \<Longrightarrow> 15 \<le> length body + k \<Longrightarrow>
   copy_body 15 (body @ replicate k 0) (of_nat (length body)) = Some (body @ replicate (16 - length body) 0)"
  by (simp add: copy_body_def Let_def unat_of_nat)

text \<open>
  C15: a posted tempo between 20 and 999 beats per minute, however TCP cuts the request, sets the tempo to
  the nearest whole number of microseconds per beat at the current time and has it announced. The answer
  is handed to lwIP in exactly two writes, the header and the body, which together fit its send buffer;
  each of them is sent, in order, if lwIP accepts it, and lost without a second try if it does not.
\<close>

theorem tempo_request:
  assumes "whole_request h body" "h = bytes ''POST'' @ 32 # bytes ''/api/tempo'' @ 32 # rest"
    "s_routes s = s_routes (webui_init (http_init s0))" "concat ps = h @ body" "length body \<le> 15" "length (h @ body) \<le> 4080"
    "atof (body @ replicate (16 - length body) 0) = Fin x" "20 \<le> x" "x \<le> 999"
    "usable_timeline (link_self_timeline s) (ghost_now s)"
  shows "\<exists>t. recv_all web_call pcb (map Segment ps) (Some fresh_conn) s = Some (None, t) \<and>
    \<bar>of_int (sint (tempo_us_per_beat (link_self_timeline t))) - 60000000 / x\<bar> < 1 / 2 + 1 / 1000000 \<and>
    time_origin_us_ghost (link_self_timeline t) = ghost_now s \<and> s_state_dirty t \<and>
    tcp_tried t = tcp_tried s + 2 \<and>
    length (response_header (ok_json blank_response)) + length (bytes ''{\"ok\":true}'') \<le> TCP_SND_BUF \<and>
    tcp_sent t = tcp_sent s @
      (if tcp_accepts s (tcp_tried s) (length (response_header (ok_json blank_response)))
       then [(pcb, response_header (ok_json blank_response))] else []) @
      (if tcp_accepts s (tcp_tried s + 1) (length (bytes ''{\"ok\":true}'')) then [(pcb, bytes ''{\"ok\":true}'')] else [])"
proof -
  obtain r where r: "us_per_beat_of (Fin x) = Some r" "\<bar>of_int (sint r) - 60000000 / x\<bar> < 1 / 2 + 1 / 1000000"
    using us_per_beat_accurate [OF assms(8,9)] by blast
  obtain q where q: "link_set_local_tempo (Fin x) s = Some (retimed
      \<lparr>tempo_us_per_beat = r, beat_origin_microbeats = q, time_origin_us_ghost = ghost_now s\<rparr>
      (link_self_startstop s) (n_reads s + 3) s)"
    using set_tempo_usable [OF r(1) assms(10)] by blast
  define t where "t = retimed \<lparr>tempo_us_per_beat = r, beat_origin_microbeats = q, time_origin_us_ghost = ghost_now s\<rparr>
      (link_self_startstop s) (n_reads s + 3) s"
  have "(''POST'', ''/api/tempo'', post_tempo_fn) \<in> set documented" by (simp add: documented_def)
  note served = request_served [OF assms(1,2) this assms(3,4)]
  have "post_tempo (bytes ''/api/tempo'') (body @ replicate (REQ_BUF_MAX - length (h @ body)) 0) (of_nat (length body)) blank_response s
      = Some (ok_json blank_response, t)"
    using post_tempo_body [OF assms(5), of "REQ_BUF_MAX - length (h @ body)"] assms(6-9) q
    by (simp add: post_tempo_def REQ_BUF_MAX_def t_def)
  then have "recv_all web_call pcb (map Segment ps) (Some fresh_conn) s
      = Some (None, answered pcb (response_header (ok_json blank_response)) (bytes ''{\"ok\":true}'') t)"
    unfolding served web_call.simps by (simp add: answered_ok)
  moreover have "link_self_timeline t = \<lparr>tempo_us_per_beat = r, beat_origin_microbeats = q, time_origin_us_ghost = ghost_now s\<rparr>"
    "s_state_dirty t" "tcp_accepts t = tcp_accepts s" "tcp_sent t = tcp_sent s" "tcp_tried t = tcp_tried s"
    by (simp_all add: t_def)
  ultimately show ?thesis using r(2) ok_answer_fits by (simp add: answered_def)
qed

text \<open>
  The range check does not stop a tempo that reads as not-a-number: both comparisons are false, and
  the conversion of the period to \<open>int64_t\<close> is undefined.
\<close>

theorem nan_tempo_undefined:
  assumes "whole_request h body" "h = bytes ''POST'' @ 32 # bytes ''/api/tempo'' @ 32 # rest"
    "s_routes s = s_routes (webui_init (http_init s0))" "concat ps = h @ body" "length body \<le> 15" "length (h @ body) \<le> 4080"
    "atof (body @ replicate (16 - length body) 0) = NaN"
  shows "recv_all web_call pcb (map Segment ps) (Some fresh_conn) s = None"
proof -
  have "(''POST'', ''/api/tempo'', post_tempo_fn) \<in> set documented" by (simp add: documented_def)
  note served = request_served [OF assms(1,2) this assms(3,4)]
  have "us_per_beat_of NaN = None" by (simp add: us_per_beat_of_def)
  then have "post_tempo (bytes ''/api/tempo'') (body @ replicate (REQ_BUF_MAX - length (h @ body)) 0) (of_nat (length body)) blank_response s = None"
    using post_tempo_body [OF assms(5), of "REQ_BUF_MAX - length (h @ body)"] assms(6,7)
    by (simp add: post_tempo_def REQ_BUF_MAX_def link_set_local_tempo_def)
  then show ?thesis unfolding served web_call.simps by simp
qed

section \<open>The page\<close>

lemma length_index_html: "length index_html = 4216"
  by (simp add: index_html_def)

text \<open>
  C39: lwIP accepts no write longer than its send buffer, which this build sets to 1072 bytes. The admin
  page has 4216, so its single \<open>tcp_write\<close> is refused, the refusal ignored and the connection closed:
  a browser gets the header of the page at most, and never the page.
\<close>

theorem page_never_sent:
  assumes "whole_request h []" "h = bytes ''GET'' @ 32 # bytes ''/'' @ 32 # rest"
    "s_routes s = s_routes (webui_init (http_init s0))" "concat ps = h" "\<And>k n. tcp_accepts s k n \<Longrightarrow> n \<le> TCP_SND_BUF"
  shows "\<exists>t hdr. recv_all web_call pcb (map Segment ps) (Some fresh_conn) s = Some (None, t) \<and>
    length hdr < HDR_BUF_MAX \<and> tcp_tried t = tcp_tried s + 2 \<and>
    tcp_sent t = tcp_sent s @ (if tcp_accepts s (tcp_tried s) (length hdr) then [(pcb, hdr)] else [])"
proof -
  have "(''GET'', ''/'', serve_index_fn) \<in> set documented" by (simp add: documented_def)
  note served = request_served [OF assms(1,2) this assms(3), of ps] 
  define r where "r = blank_response\<lparr>content_type := Some (bytes ''text/html; charset=utf-8''), resp_body := index_html,
     body_len := of_nat (length index_html)\<rparr>"
  have hdr: "length (response_header r) < HDR_BUF_MAX"
    by (simp add: response_header_def r_def blank_response_def reason_def bytes_def crlf_def dec.simps HDR_BUF_MAX_def length_index_html)
  have body: "body_len r \<noteq> 0" "unat (body_len r) = length (resp_body r)" "length (resp_body r) = 4216"
    by (simp_all add: r_def length_index_html)
  have "recv_all web_call pcb (map Segment ps) (Some fresh_conn) s = Some (None, answered pcb (response_header r) (resp_body r) s)"
    using served assms(4) send_response_answered [OF hdr body(1), where pcb = pcb and s = s] body(2) by (simp add: serve_index_def flip: r_def)
  moreover have "\<not> tcp_accepts s (tcp_tried s + 1) (length (resp_body r))"
    using assms(5) [of "tcp_tried s + 1" 4216] body(3) by (auto simp: TCP_SND_BUF_def TCP_MSS_def)
  ultimately show ?thesis using hdr by (auto simp: answered_def)
qed

end
