(* ===== verification/Netif.thy ===== *)
theory Netif
  imports Hardware
begin

text \<open>
  \<^verbatim>\<open>firmware/netif_litex.c\<close>: lwIP's driver for the LiteEth MAC, over the MAC's registers and its
  slot memory (two receive slots, then two transmit slots).

  The MAC is outside the repository. Its answers are fields of the state: \<open>tx_ready k n\<close> is the ready
  bit at the \<open>k\<close>-th poll when \<open>n\<close> frames have been started so far, and \<open>tx_done k\<close> is the number
  of frames it has finished by then. \<open>rx_queue\<close> holds the frames that become pending before the
  receive loop ends; the head is what the slot, length and pending registers show, and writing the
  pending register removes it; \<open>rx_memerr\<close> counts the calls of \<open>LINK_STATS_INC(link.memerr)\<close>. lwIP's answers are parameters: \<open>pbuf_alloc\<close> gives the sizes of the
  buffers in the chain it returns, \<open>input\<close> is \<open>ethernet_input\<close>.
\<close>

section \<open>State\<close>

definition ETHMAC_RX_SLOTS :: nat where "ETHMAC_RX_SLOTS = 2"
definition ETHMAC_TX_SLOTS :: nat where "ETHMAC_TX_SLOTS = 2"
definition ETHMAC_SLOT_SIZE :: nat where "ETHMAC_SLOT_SIZE = 2048"

lemmas slot_consts = ETHMAC_RX_SLOTS_def ETHMAC_TX_SLOTS_def ETHMAC_SLOT_SIZE_def

text \<open>A received frame: the slot, the length register, the content of the slot.\<close>

record rx_frame =
  rx_slot :: nat
  rx_length :: u32
  rx_data :: "u8 list"

text \<open>A started frame: the slot, the length and what the slot held.\<close>

record tx_frame =
  tx_slot :: nat
  tx_length :: nat
  tx_data :: "u8 list"

datatype netif_flag = NETIF_FLAG_BROADCAST | NETIF_FLAG_ETHARP | NETIF_FLAG_LINK_UP | NETIF_FLAG_IGMP | NETIF_FLAG_MLD6

text \<open>The functions the netif points to: lwIP's \<open>etharp_output\<close> and \<open>ethip6_output\<close>, and this driver's.\<close>

datatype netif_output_fn = Etharp_output | Ethip6_output | Low_level_output

record netif =
  nif_name :: "u8 list"
  nif_output :: "netif_output_fn option"
  nif_output_ip6 :: "netif_output_fn option"
  nif_linkoutput :: "netif_output_fn option"
  nif_hwaddr :: "u8 list"
  nif_mtu :: u16
  nif_flags :: "netif_flag list"
  nif_ip6_autoconfig :: bool

text \<open>The calls the bring-up makes into lwIP.\<close>

datatype lwip_call =
    Lwip_init
  | Netif_add ip_addr ip_addr ip_addr
  | Netif_set_default
  | Netif_set_up
  | Dhcp_start
  | Netif_create_ip6_linklocal bool
  | Udp_new_any
  | Udp_bind_any u16
  | Udp_recv
  | Igmp_join_any ip_addr
  | Mld6_join ip_addr

record netif_st =
  tx_ready :: "nat \<Rightarrow> nat \<Rightarrow> bool"
  tx_done :: "nat \<Rightarrow> nat"
  tx_polls :: nat
  slot_ram :: "u8 list"
  reader_slot :: nat
  reader_length :: nat
  tx_started :: "tx_frame list"
  reader_ev :: bool
  rx_queue :: "rx_frame list"
  s_tx_slot :: nat
  s_rx_slot :: nat
  the_netif :: netif
  lwip_calls :: "lwip_call list"
  pbuf_allocs :: nat
  pbufs_freed :: nat
  rx_memerr :: nat

section \<open>Transmission\<close>

definition reader_ready_read :: "netif_st \<Rightarrow> bool \<times> netif_st" where
  "reader_ready_read n = (tx_ready n (tx_polls n) (length (tx_started n)), n\<lparr>tx_polls := Suc (tx_polls n)\<rparr>)"

partial_function (option) wait_ready :: "netif_st \<Rightarrow> netif_st option" where
  "wait_ready n = (let (r, n) = reader_ready_read n in if r then Some n else wait_ready n)"

definition ram_write :: "nat \<Rightarrow> u8 list \<Rightarrow> u8 list \<Rightarrow> u8 list" where
  "ram_write off bs m = take off m @ bs @ drop (off + length bs) m"

text \<open>The offset of a slot in the slot memory.\<close>

definition tx_base :: "nat \<Rightarrow> nat" where
  "tx_base k = ETHMAC_SLOT_SIZE * (ETHMAC_RX_SLOTS + k)"

text \<open>
  The copy loop: the length reached, or \<open>None\<close> where the function returns \<open>ERR_BUF\<close>, and the memory.
\<close>

fun copy_chain :: "nat \<Rightarrow> nat \<Rightarrow> u8 list list \<Rightarrow> u8 list \<Rightarrow> nat option \<times> u8 list" where
  "copy_chain txbuf len [] m = (Some len, m)"
| "copy_chain txbuf len (q # qs) m =
     (if ETHMAC_SLOT_SIZE < len + length q then (None, m)
      else copy_chain txbuf (len + length q) qs (ram_write (txbuf + len) q m))"

datatype err_t = ERR_OK | ERR_BUF | ERR_OTHER

definition slot_content :: "nat \<Rightarrow> nat \<Rightarrow> netif_st \<Rightarrow> u8 list" where
  "slot_content k len n = take len (drop (tx_base k) (slot_ram n))"

definition reader_start :: "netif_st \<Rightarrow> netif_st" where
  "reader_start n = n\<lparr>tx_started := tx_started n @
     [\<lparr>tx_slot = reader_slot n, tx_length = reader_length n,
       tx_data = slot_content (reader_slot n) (reader_length n) n\<rparr>]\<rparr>"

definition low_level_output :: "u8 list list \<Rightarrow> netif_st \<Rightarrow> (err_t \<times> netif_st) option" where
  "low_level_output p n = do {
     n \<leftarrow> wait_ready n;
     let (len, m) = copy_chain (tx_base (s_tx_slot n)) 0 p (slot_ram n);
     let n = n\<lparr>slot_ram := m\<rparr>;
     case len of
       None \<Rightarrow> Some (ERR_BUF, n)
     | Some len \<Rightarrow> do {
         let n = n\<lparr>reader_slot := s_tx_slot n, reader_length := len\<rparr>;
         let n = reader_start n;
         Some (ERR_OK, n\<lparr>s_tx_slot := (s_tx_slot n + 1) mod ETHMAC_TX_SLOTS\<rparr>)
       }
   }"

section \<open>Bring-up\<close>

definition writer_ev_clear :: "netif_st \<Rightarrow> netif_st" where
  "writer_ev_clear n = n\<lparr>rx_queue := tl (rx_queue n)\<rparr>"

definition low_level_init :: "netif_st \<Rightarrow> err_t \<times> netif_st" where
  "low_level_init n =
     (let n = n\<lparr>the_netif := (the_netif n)\<lparr>nif_hwaddr := [0x10, 0xe2, 0xd5, 0x00, 0x00, 0x01], nif_mtu := 1500,
            nif_flags := [NETIF_FLAG_BROADCAST, NETIF_FLAG_ETHARP, NETIF_FLAG_LINK_UP, NETIF_FLAG_IGMP, NETIF_FLAG_MLD6]\<rparr>\<rparr>;
          n = n\<lparr>reader_ev := False\<rparr>;
          n = writer_ev_clear n
      in (ERR_OK, n\<lparr>s_tx_slot := 0, s_rx_slot := 0\<rparr>))"

definition netif_litex_init :: "netif_st \<Rightarrow> err_t \<times> netif_st" where
  "netif_litex_init n =
     low_level_init (n\<lparr>the_netif := (the_netif n)\<lparr>nif_name := map of_nat [101, 48], nif_output := Some Etharp_output,
        nif_output_ip6 := Some Ethip6_output, nif_linkoutput := Some Low_level_output\<rparr>\<rparr>)"

definition lwip_do :: "lwip_call \<Rightarrow> netif_st \<Rightarrow> netif_st" where
  "lwip_do c n = n\<lparr>lwip_calls := lwip_calls n @ [c]\<rparr>"

text \<open>\<open>netif_add\<close> calls the initialisation function it is given on the new netif.\<close>

definition netif_litex_bringup :: "netif_st \<Rightarrow> netif_st" where
  "netif_litex_bringup n =
     (let n = lwip_do (Netif_add (IPv4 0 0 0 0) (IPv4 0 0 0 0) (IPv4 0 0 0 0)) n;
          n = snd (netif_litex_init n);
          n = lwip_do Netif_set_default n;
          n = lwip_do Netif_set_up n;
          n = lwip_do Dhcp_start n;
          n = lwip_do (Netif_create_ip6_linklocal True) n
      in n\<lparr>the_netif := (the_netif n)\<lparr>nif_ip6_autoconfig := True\<rparr>\<rparr>)"

section \<open>Reception\<close>

text \<open>The copy into the buffers of the chain, of the given sizes.\<close>

fun fill_chain :: "nat list \<Rightarrow> u8 list \<Rightarrow> nat \<Rightarrow> u8 list list" where
  "fill_chain [] rxbuf off = []"
| "fill_chain (k # ks) rxbuf off = take k (drop off rxbuf) # fill_chain ks rxbuf (off + k)"

text \<open>
  One pass of the receive loop over the frame at the head. \<open>pbuf_alloc\<close> answers the \<open>k\<close>-th
  allocation; \<open>s\<close> is the rest of the state \<open>input\<close> works on. \<open>input\<close> may transmit.
\<close>

type_synonym 's input_fn = "u8 list list \<Rightarrow> netif_st \<Rightarrow> 's \<Rightarrow> (err_t \<times> netif_st \<times> 's) option"

definition input_frame ::
  "(nat \<Rightarrow> nat \<Rightarrow> nat list option) \<Rightarrow> 's input_fn \<Rightarrow> rx_frame \<Rightarrow> netif_st \<Rightarrow> 's \<Rightarrow> (netif_st \<times> 's) option" where
  "input_frame pbuf_alloc input f n s =
     (let len = unat (rx_length f);
          len = (if ETHMAC_SLOT_SIZE < len then ETHMAC_SLOT_SIZE else len);
          p = pbuf_alloc (pbuf_allocs n) len;
          n = n\<lparr>pbuf_allocs := Suc (pbuf_allocs n)\<rparr>
      in case p of
           None \<Rightarrow> Some (n\<lparr>rx_memerr := Suc (rx_memerr n)\<rparr>, s)
         | Some ks \<Rightarrow> do {
             (err, n, s) \<leftarrow> input (fill_chain ks (rx_data f) 0) n s;
             Some (if err \<noteq> ERR_OK then n\<lparr>pbufs_freed := Suc (pbufs_freed n)\<rparr> else n, s)
           })"

partial_function (option) netif_litex_input ::
  "(nat \<Rightarrow> nat \<Rightarrow> nat list option) \<Rightarrow> 's input_fn \<Rightarrow> netif_st \<Rightarrow> 's \<Rightarrow> (netif_st \<times> 's) option" where
  "netif_litex_input pbuf_alloc input n s =
     (case rx_queue n of
        [] \<Rightarrow> Some (n, s)
      | f # fs \<Rightarrow> do {
          (n, s) \<leftarrow> input_frame pbuf_alloc input f n s;
          netif_litex_input pbuf_alloc input (writer_ev_clear n) s
        })"

section \<open>Waiting for a slot\<close>

lemma wait_ready_hit:
  "tx_ready n (tx_polls n) (length (tx_started n)) \<Longrightarrow> wait_ready n = Some (n\<lparr>tx_polls := Suc (tx_polls n)\<rparr>)"
  by (subst wait_ready.simps) (simp add: reader_ready_read_def)

lemma wait_ready_spin:
  "\<not> tx_ready n (tx_polls n) (length (tx_started n)) \<Longrightarrow> wait_ready n = wait_ready (n\<lparr>tx_polls := Suc (tx_polls n)\<rparr>)"
  by (subst wait_ready.simps) (simp add: reader_ready_read_def)

lemma wait_ready_result:
  assumes "wait_ready n = Some t"
  shows "\<exists>k\<ge>tx_polls n. tx_ready n k (length (tx_started n)) \<and> t = n\<lparr>tx_polls := Suc k\<rparr>"
proof (rule wait_ready.raw_induct [OF _ assms, where P =
    "\<lambda>n t. \<exists>k\<ge>tx_polls n. tx_ready n k (length (tx_started n)) \<and> t = n\<lparr>tx_polls := Suc k\<rparr>"])
  fix wait and n t :: netif_st
  let ?n = "n\<lparr>tx_polls := Suc (tx_polls n)\<rparr>" and
    ?P = "\<lambda>n t :: netif_st. \<exists>k\<ge>tx_polls n. tx_ready n k (length (tx_started n)) \<and> t = n\<lparr>tx_polls := Suc k\<rparr>"
  assume IH: "\<And>n t. wait n = Some t \<Longrightarrow> ?P n t"
    and step: "(let (r, n) = reader_ready_read n in if r then Some n else wait n) = Some t"
  show "?P n t"
  proof (cases "tx_ready n (tx_polls n) (length (tx_started n))")
    case True
    with step have "t = ?n" by (simp add: reader_ready_read_def)
    with True show ?thesis by (intro exI [of _ "tx_polls n"]) simp
  next
    case False
    with step have "wait ?n = Some t" by (simp add: reader_ready_read_def)
    from IH [OF this] obtain k where "Suc (tx_polls n) \<le> k" "tx_ready n k (length (tx_started n))" "t = n\<lparr>tx_polls := Suc k\<rparr>"
      by auto
    then show ?thesis by (intro exI [of _ k]) simp
  qed
qed

lemma wait_ready_returns:
  assumes "tx_polls n \<le> k" "tx_ready n k (length (tx_started n))"
  shows "\<exists>t. wait_ready n = Some t"
  using assms
proof (induction "k - tx_polls n" arbitrary: n)
  case 0
  then show ?case by (auto simp: wait_ready_hit)
next
  case (Suc d)
  show ?case
  proof (cases "tx_ready n (tx_polls n) (length (tx_started n))")
    case False
    have "\<exists>t. wait_ready (n\<lparr>tx_polls := Suc (tx_polls n)\<rparr>) = Some t"
      by (rule Suc.hyps) (use Suc.hyps(2) Suc.prems in auto)
    then show ?thesis by (simp add: wait_ready_spin [OF False])
  qed (auto simp: wait_ready_hit)
qed

section \<open>The copy\<close>

lemma length_ram_write: "off + length bs \<le> length m \<Longrightarrow> length (ram_write off bs m) = length m"
  by (simp add: ram_write_def)

lemma ram_write_append:
  assumes "off + length (bs @ cs) \<le> length m"
  shows "ram_write (off + length bs) cs (ram_write off bs m) = ram_write off (bs @ cs) m"
proof -
  have "take (off + length bs) (ram_write off bs m) = take off m @ bs" using assms by (simp add: ram_write_def)
  moreover have "drop (off + length bs + k) (ram_write off bs m) = drop (off + length bs + k) m" for k
    using assms by (simp add: ram_write_def ac_simps)
  ultimately show ?thesis unfolding ram_write_def [of "off + length bs"] ram_write_def [of off "bs @ cs"]
    by (simp add: add.assoc)
qed

lemma ram_write_Nil [simp]: "ram_write off [] m = m"
  by (simp add: ram_write_def)

lemma copy_chain_eq:
  assumes "txbuf + ETHMAC_SLOT_SIZE \<le> length m" "len + length (concat qs) \<le> ETHMAC_SLOT_SIZE"
  shows "copy_chain txbuf len qs m = (Some (len + length (concat qs)), ram_write (txbuf + len) (concat qs) m)"
  using assms
proof (induction qs arbitrary: len m)
  case (Cons q qs)
  then have "length (ram_write (txbuf + len) q m) = length m" by (simp add: length_ram_write)
  with Cons show ?case using ram_write_append [of "txbuf + len" q "concat qs" m] by (simp add: add.assoc)
qed simp

lemma copy_chain_refused:
  "len \<le> ETHMAC_SLOT_SIZE \<Longrightarrow> ETHMAC_SLOT_SIZE < len + length (concat qs) \<Longrightarrow> fst (copy_chain txbuf len qs m) = None"
proof (induction qs arbitrary: len m)
  case (Cons q qs)
  show ?case using Cons.IH [of "len + length q"] Cons.prems by (simp add: add.assoc)
qed simp

text \<open>Whatever the chain, the copy stays inside its slot.\<close>

lemma copy_chain_frame:
  assumes "txbuf + ETHMAC_SLOT_SIZE \<le> length m"
  shows "length (snd (copy_chain txbuf len qs m)) = length m \<and>
    (\<forall>i<length m. i < txbuf \<or> txbuf + ETHMAC_SLOT_SIZE \<le> i \<longrightarrow> snd (copy_chain txbuf len qs m) ! i = m ! i)"
  using assms
proof (induction qs arbitrary: len m)
  case (Cons q qs)
  let ?m = "ram_write (txbuf + len) q m"
  show ?case
  proof (cases "ETHMAC_SLOT_SIZE < len + length q")
    case False
    then have "length ?m = length m" using Cons.prems by (simp add: length_ram_write)
    moreover have "?m ! i = m ! i" if "i < length m" "i < txbuf \<or> txbuf + ETHMAC_SLOT_SIZE \<le> i" for i
      using that False Cons.prems by (auto simp: ram_write_def nth_append min_def)
    ultimately show ?thesis using Cons.IH [of ?m "len + length q"] Cons.prems False by auto
  qed simp
qed simp

section \<open>A transmitted frame\<close>

definition netif_inv :: "netif_st \<Rightarrow> bool" where
  "netif_inv n \<longleftrightarrow> length (slot_ram n) = ETHMAC_SLOT_SIZE * (ETHMAC_RX_SLOTS + ETHMAC_TX_SLOTS) \<and>
     s_tx_slot n = length (tx_started n) mod ETHMAC_TX_SLOTS"

lemma tx_base_fits: "netif_inv n \<Longrightarrow> k < ETHMAC_TX_SLOTS \<Longrightarrow> tx_base k + ETHMAC_SLOT_SIZE \<le> length (slot_ram n)"
  by (simp add: netif_inv_def tx_base_def slot_consts)

lemma slot_in_range: "netif_inv n \<Longrightarrow> s_tx_slot n < ETHMAC_TX_SLOTS"
  by (simp add: netif_inv_def slot_consts)

lemma slot_content_write:
  "tx_base k + length bs \<le> length m \<Longrightarrow>
   take (length bs) (drop (tx_base k) (ram_write (tx_base k) bs m)) = bs"
  by (simp add: ram_write_def)

text \<open>The memory of every other slot, and of the receive slots, is what it was.\<close>

definition same_outside :: "nat \<Rightarrow> netif_st \<Rightarrow> netif_st \<Rightarrow> bool" where
  "same_outside k n t \<longleftrightarrow> length (slot_ram t) = length (slot_ram n) \<and>
     (\<forall>i<length (slot_ram n). i < tx_base k \<or> tx_base k + ETHMAC_SLOT_SIZE \<le> i \<longrightarrow> slot_ram t ! i = slot_ram n ! i)"

lemma same_outside_slot:
  assumes "same_outside k n t" "netif_inv n" "j < ETHMAC_TX_SLOTS" "j \<noteq> k" "len \<le> ETHMAC_SLOT_SIZE"
  shows "slot_content j len t = slot_content j len n"
proof (rule nth_equalityI)
  show "length (slot_content j len t) = length (slot_content j len n)"
    using assms(1) by (simp add: slot_content_def same_outside_def)
next
  fix i
  assume "i < length (slot_content j len t)"
  then have i: "i < len" "tx_base j + i < length (slot_ram n)"
    using assms(1) by (auto simp: slot_content_def same_outside_def)
  then have "tx_base j + i < tx_base k \<or> tx_base k + ETHMAC_SLOT_SIZE \<le> tx_base j + i"
    using assms(4,5) by (cases "j < k") (auto simp: tx_base_def slot_consts)
  then show "slot_content j len t ! i = slot_content j len n ! i"
    using assms(1) i by (auto simp: slot_content_def same_outside_def)
qed

text \<open>What \<open>low_level_output\<close> does once it has a slot at poll \<open>k\<close>.\<close>

lemma low_level_output_cases:
  assumes "low_level_output p n = Some (e, t)" "netif_inv n"
  obtains k where "tx_polls n \<le> k" "tx_ready n k (length (tx_started n))" "tx_polls t = Suc k"
    "tx_done t = tx_done n" "tx_ready t = tx_ready n" "same_outside (s_tx_slot n) n t"
    "rx_queue t = rx_queue n" "netif_inv t"
    "if length (concat p) \<le> ETHMAC_SLOT_SIZE
     then e = ERR_OK \<and> s_tx_slot t = (s_tx_slot n + 1) mod ETHMAC_TX_SLOTS \<and>
       slot_content (s_tx_slot n) (length (concat p)) t = concat p \<and>
       tx_started t = tx_started n @ [\<lparr>tx_slot = s_tx_slot n, tx_length = length (concat p), tx_data = concat p\<rparr>]
     else e = ERR_BUF \<and> s_tx_slot t = s_tx_slot n \<and> tx_started t = tx_started n"
proof -
  obtain u where u: "wait_ready n = Some u" using assms(1) by (cases "wait_ready n") (auto simp: low_level_output_def)
  then obtain k where k: "tx_polls n \<le> k" "tx_ready n k (length (tx_started n))" "u = n\<lparr>tx_polls := Suc k\<rparr>"
    using wait_ready_result by blast
  let ?c = "copy_chain (tx_base (s_tx_slot n)) 0 p (slot_ram n)"
  have fits: "tx_base (s_tx_slot n) + ETHMAC_SLOT_SIZE \<le> length (slot_ram n)"
    using tx_base_fits [OF assms(2) slot_in_range [OF assms(2)]] .
  note frame = copy_chain_frame [OF fits, of 0 p]
  show thesis
  proof (cases "length (concat p) \<le> ETHMAC_SLOT_SIZE")
    case True
    then have c: "?c = (Some (length (concat p)), ram_write (tx_base (s_tx_slot n)) (concat p) (slot_ram n))"
      using copy_chain_eq [OF fits, of 0 p] by simp
    then have "t = u\<lparr>slot_ram := snd ?c, reader_slot := s_tx_slot n, reader_length := length (concat p),
        tx_started := tx_started n @ [\<lparr>tx_slot = s_tx_slot n, tx_length = length (concat p), tx_data = concat p\<rparr>],
        s_tx_slot := (s_tx_slot n + 1) mod ETHMAC_TX_SLOTS\<rparr>" "e = ERR_OK"
      using assms(1) u k fits True by (simp_all add: low_level_output_def reader_start_def slot_content_def slot_content_write)
    then show thesis using that [of k] k frame c True fits assms(2)
      by (simp add: same_outside_def netif_inv_def slot_content_def slot_content_write mod_Suc_eq)
  next
    case False
    then have "fst ?c = None" using copy_chain_refused [of 0 p] by simp
    then obtain m where "?c = (None, m)" by (cases ?c) simp
    then have "t = u\<lparr>slot_ram := snd ?c\<rparr>" "e = ERR_BUF"
      using assms(1) u k by (simp_all add: low_level_output_def)
    then show thesis using that [of k] k frame False assms(2) by (simp add: same_outside_def netif_inv_def)
  qed
qed

section \<open>Frames in flight\<close>

text \<open>What the driver relies on: the ready bit means that fewer frames are in flight than there are slots.\<close>

definition mac_contract :: "netif_st \<Rightarrow> bool" where
  "mac_contract n \<longleftrightarrow> mono (tx_done n) \<and> (\<forall>k m. tx_ready n k m \<longrightarrow> m < tx_done n k + ETHMAC_TX_SLOTS)"

definition intact :: "netif_st \<Rightarrow> tx_frame \<Rightarrow> bool" where
  "intact n f \<longleftrightarrow> slot_content (tx_slot f) (tx_length f) n = tx_data f"

definition flight_inv :: "netif_st \<Rightarrow> bool" where
  "flight_inv n \<longleftrightarrow> netif_inv n \<and> mac_contract n \<and>
     (\<forall>i<length (tx_started n). let f = tx_started n ! i in
        tx_slot f = i mod ETHMAC_TX_SLOTS \<and> tx_length f \<le> ETHMAC_SLOT_SIZE \<and>
        (tx_done n (tx_polls n) \<le> i \<longrightarrow> intact n f))"

definition transmit :: "u8 list list \<Rightarrow> netif_st \<Rightarrow> netif_st option" where
  "transmit p n = map_option snd (low_level_output p n)"

lemma low_level_output_flight:
  assumes "flight_inv n" "low_level_output p n = Some (e, t)"
  shows "flight_inv t"
proof -
  have inv: "netif_inv n" and mac: "mac_contract n" using assms(1) by (simp_all add: flight_inv_def)
  obtain k where k: "tx_polls n \<le> k" "tx_ready n k (length (tx_started n))" "tx_polls t = Suc k"
      "tx_done t = tx_done n" "tx_ready t = tx_ready n" "same_outside (s_tx_slot n) n t" "netif_inv t"
    and res: "if length (concat p) \<le> ETHMAC_SLOT_SIZE
     then e = ERR_OK \<and> s_tx_slot t = (s_tx_slot n + 1) mod ETHMAC_TX_SLOTS \<and>
       slot_content (s_tx_slot n) (length (concat p)) t = concat p \<and>
       tx_started t = tx_started n @ [\<lparr>tx_slot = s_tx_slot n, tx_length = length (concat p), tx_data = concat p\<rparr>]
     else e = ERR_BUF \<and> s_tx_slot t = s_tx_slot n \<and> tx_started t = tx_started n"
    by (rule low_level_output_cases [OF assms(2) inv]) blast
  have later: "tx_done n (tx_polls n) \<le> tx_done n (Suc k)" "tx_done n k \<le> tx_done n (Suc k)"
    using mac k(1) by (auto simp: mac_contract_def mono_def)
  have room: "length (tx_started n) < tx_done n k + 2"
    using mac k(2) by (auto simp: mac_contract_def slot_consts)
  have old: "tx_slot f = i mod ETHMAC_TX_SLOTS \<and> tx_length f \<le> ETHMAC_SLOT_SIZE \<and> (tx_done n (Suc k) \<le> i \<longrightarrow> intact t f)"
    if "i < length (tx_started n)" "f = tx_started n ! i" for i f
  proof -
    have f: "tx_slot f = i mod ETHMAC_TX_SLOTS" "tx_length f \<le> ETHMAC_SLOT_SIZE"
      "tx_done n (tx_polls n) \<le> i \<Longrightarrow> intact n f"
      using assms(1) that by (auto simp: flight_inv_def Let_def)
    have "intact t f" if late: "tx_done n (Suc k) \<le> i"
    proof -
      have "Suc i = length (tx_started n)" using late later room \<open>i < length (tx_started n)\<close> by simp
      then have "tx_slot f \<noteq> s_tx_slot n" "tx_slot f < ETHMAC_TX_SLOTS"
        using inv f(1) by (simp_all add: netif_inv_def slot_consts) presburger
      with same_outside_slot [OF k(6) inv] f(2) have "slot_content (tx_slot f) (tx_length f) t = slot_content (tx_slot f) (tx_length f) n"
        by blast
      then show ?thesis using f(3) late later(1) by (simp add: intact_def)
    qed
    with f show ?thesis by blast
  qed
  have "s_tx_slot n = length (tx_started n) mod ETHMAC_TX_SLOTS" using inv by (simp add: netif_inv_def)
  then have new: "tx_slot f = length (tx_started n) mod ETHMAC_TX_SLOTS \<and> tx_length f \<le> ETHMAC_SLOT_SIZE \<and> intact t f"
    if "tx_started t = tx_started n @ [f]" for f
    using res that by (auto simp: intact_def split: if_splits)
  show ?thesis
  proof (cases "tx_started t = tx_started n")
    case True
    then show ?thesis using old k mac by (simp add: flight_inv_def mac_contract_def Let_def)
  next
    case False
    then obtain f where f: "tx_started t = tx_started n @ [f]" using res by (auto split: if_splits)
    then show ?thesis using old new [OF f] k mac
      by (auto simp: flight_inv_def mac_contract_def Let_def nth_append less_Suc_eq)
  qed
qed

lemma transmit_flight: "flight_inv n \<Longrightarrow> fold_option transmit ps n = Some t \<Longrightarrow> flight_inv t"
  by (rule fold_option_inv [of ps flight_inv transmit]) (auto simp: transmit_def intro: low_level_output_flight)

lemma flight_inv_start: "netif_inv n \<Longrightarrow> mac_contract n \<Longrightarrow> tx_started n = [] \<Longrightarrow> flight_inv n"
  by (simp add: flight_inv_def)

section \<open>Reception\<close>

lemma concat_fill_chain: "off + sum_list ks \<le> length d \<Longrightarrow> concat (fill_chain ks d off) = take (sum_list ks) (drop off d)"
proof (induction ks arbitrary: off)
  case (Cons k ks)
  then have "concat (fill_chain ks d (off + k)) = take (sum_list ks) (drop (off + k) d)" by simp
  then show ?case by (simp add: take_add ac_simps)
qed simp

text \<open>A receiver that leaves the queue to the MAC: the loop is one pass per pending frame.\<close>

lemma netif_litex_input_empty: "rx_queue n = [] \<Longrightarrow> netif_litex_input pbuf_alloc input n s = Some (n, s)"
  by (subst netif_litex_input.simps) simp

lemma netif_litex_input_step:
  "rx_queue n = f # fs \<Longrightarrow> netif_litex_input pbuf_alloc input n s =
     do { (n, s) \<leftarrow> input_frame pbuf_alloc input f n s; netif_litex_input pbuf_alloc input (writer_ev_clear n) s }"
  by (subst netif_litex_input.simps) simp

definition keeps_queue :: "'s input_fn \<Rightarrow> bool" where
  "keeps_queue input \<longleftrightarrow> (\<forall>p n s e n' s'. input p n s = Some (e, n', s') \<longrightarrow> rx_queue n' = rx_queue n)"

lemma input_frame_queue:
  "keeps_queue input \<Longrightarrow> input_frame pbuf_alloc input f n s = Some (n', s') \<Longrightarrow> rx_queue n' = rx_queue n"
  by (auto simp: input_frame_def keeps_queue_def Let_def bind_eq_Some_conv split: option.splits if_splits) force+

lemma netif_litex_input_fold:
  assumes "keeps_queue input"
  shows "netif_litex_input pbuf_alloc input n s =
    fold_option (\<lambda>f (n, s). map_option (apfst writer_ev_clear) (input_frame pbuf_alloc input f n s)) (rx_queue n) (n, s)"
proof (induction "rx_queue n" arbitrary: n s)
  case Nil
  then show ?case by (simp add: netif_litex_input_empty)
next
  case (Cons f fs)
  then have q: "rx_queue n = f # fs" by simp
  show ?case
  proof (cases "input_frame pbuf_alloc input f n s")
    case None
    then show ?thesis by (simp add: netif_litex_input_step [OF q] q)
  next
    case (Some r)
    then obtain n' s' where r: "input_frame pbuf_alloc input f n s = Some (n', s')" by (cases r) simp
    then have fs: "fs = rx_queue (writer_ev_clear n')"
      using input_frame_queue [OF assms r] q by (simp add: writer_ev_clear_def)
    from Cons(1) [OF this, of s'] r fs show ?thesis
      by (simp add: netif_litex_input_step [OF q] q)
  qed
qed

text \<open>A receiver that keeps what it is handed, and accepts what satisfies \<open>ok\<close>.\<close>

definition record_input :: "(u8 list \<Rightarrow> bool) \<Rightarrow> u8 list list input_fn" where
  "record_input ok p n s = Some (if ok (concat p) then ERR_OK else ERR_OTHER, n, s @ [concat p])"

definition frame_len :: "rx_frame \<Rightarrow> nat" where
  "frame_len f = min (unat (rx_length f)) ETHMAC_SLOT_SIZE"

text \<open>What lwIP relies on and promises: a chain of buffers as long as the frame, or none.\<close>

definition alloc_contract :: "(nat \<Rightarrow> nat \<Rightarrow> nat list option) \<Rightarrow> bool" where
  "alloc_contract pbuf_alloc \<longleftrightarrow> (\<forall>k len ks. pbuf_alloc k len = Some ks \<longrightarrow> sum_list ks = len)"

text \<open>The bytes of the pending frames lwIP has buffers for, when \<open>k\<close> allocations were made before.\<close>

primrec buffered :: "(nat \<Rightarrow> nat \<Rightarrow> nat list option) \<Rightarrow> nat \<Rightarrow> rx_frame list \<Rightarrow> u8 list list" where
  "buffered pbuf_alloc k [] = []"
| "buffered pbuf_alloc k (f # fs) =
     (if pbuf_alloc k (frame_len f) = None then [] else [take (frame_len f) (rx_data f)]) @ buffered pbuf_alloc (Suc k) fs"

lemma input_frame_record:
  assumes "alloc_contract pbuf_alloc" "length (rx_data f) = ETHMAC_SLOT_SIZE"
  shows "input_frame pbuf_alloc (record_input ok) f n s = Some (
    let n = n\<lparr>pbuf_allocs := Suc (pbuf_allocs n)\<rparr>; b = take (frame_len f) (rx_data f) in
    if pbuf_alloc (pbuf_allocs n - 1) (frame_len f) = None then (n\<lparr>rx_memerr := Suc (rx_memerr n)\<rparr>, s)
    else (if ok b then n else n\<lparr>pbufs_freed := Suc (pbufs_freed n)\<rparr>, s @ [b]))"
proof -
  have len: "(if ETHMAC_SLOT_SIZE < unat (rx_length f) then ETHMAC_SLOT_SIZE else unat (rx_length f)) = frame_len f"
    by (simp add: frame_len_def min_def)
  show ?thesis
  proof (cases "pbuf_alloc (pbuf_allocs n) (frame_len f)")
    case (Some ks)
    then have "sum_list ks = frame_len f" using assms(1) by (simp add: alloc_contract_def)
    then have "concat (fill_chain ks (rx_data f) 0) = take (frame_len f) (rx_data f)"
      using concat_fill_chain [of 0 ks "rx_data f"] assms(2) by (simp add: frame_len_def)
    with Some show ?thesis unfolding input_frame_def Let_def len by (simp add: record_input_def)
  qed (simp add: input_frame_def len Let_def)
qed

lemma keeps_queue_record: "keeps_queue (record_input ok)"
  by (simp add: keeps_queue_def record_input_def)

lemma received_frames:
  assumes "alloc_contract pbuf_alloc" "\<And>f. f \<in> set (rx_queue n) \<Longrightarrow> length (rx_data f) = ETHMAC_SLOT_SIZE"
  shows "netif_litex_input pbuf_alloc (record_input ok) n s =
    (let bs = buffered pbuf_alloc (pbuf_allocs n) (rx_queue n)
     in Some (n\<lparr>rx_queue := [], pbuf_allocs := pbuf_allocs n + length (rx_queue n),
           rx_memerr := rx_memerr n + (length (rx_queue n) - length bs),
           pbufs_freed := pbufs_freed n + length (filter (\<lambda>b. \<not> ok b) bs)\<rparr>, s @ bs))"
  using assms(2)
proof (induction "rx_queue n" arbitrary: n s)
  case Nil
  then show ?case by (simp add: netif_litex_input_empty)
next
  case (Cons f fs)
  have le: "length (buffered pbuf_alloc k gs) \<le> length gs" for k gs
    by (induction gs arbitrary: k) (simp_all add: le_SucI)
  have q: "rx_queue n = f # fs" using Cons(2) by simp
  have f: "length (rx_data f) = ETHMAC_SLOT_SIZE" using Cons(3) q by simp
  define u where "u = (let m = n\<lparr>pbuf_allocs := Suc (pbuf_allocs n)\<rparr>; b = take (frame_len f) (rx_data f) in
    if pbuf_alloc (pbuf_allocs n) (frame_len f) = None then (m\<lparr>rx_memerr := Suc (rx_memerr m)\<rparr>, s)
    else (if ok b then m else m\<lparr>pbufs_freed := Suc (pbufs_freed m)\<rparr>, s @ [b]))"
  then have step: "netif_litex_input pbuf_alloc (record_input ok) n s =
      netif_litex_input pbuf_alloc (record_input ok) (writer_ev_clear (fst u)) (snd u)"
    by (simp add: netif_litex_input_step [OF q] input_frame_record [OF assms(1) f] u_def Let_def)
  have "rx_queue (writer_ev_clear (fst u)) = fs" by (simp add: u_def q writer_ev_clear_def Let_def)
  with Cons(1) [of "writer_ev_clear (fst u)" "snd u"] Cons(3) q
  have "netif_litex_input pbuf_alloc (record_input ok) (writer_ev_clear (fst u)) (snd u) =
    (let bs = buffered pbuf_alloc (pbuf_allocs (writer_ev_clear (fst u))) fs; m = writer_ev_clear (fst u)
     in Some (m\<lparr>rx_queue := [], pbuf_allocs := pbuf_allocs m + length fs,
           rx_memerr := rx_memerr m + (length fs - length bs),
           pbufs_freed := pbufs_freed m + length (filter (\<lambda>b. \<not> ok b) bs)\<rparr>, snd u @ bs))"
    by (simp add: Let_def)
  then show ?case unfolding step using le [of "Suc (pbuf_allocs n)" fs]
    by (simp add: u_def q writer_ev_clear_def Let_def Suc_diff_le)
qed

lemma output_run_ready:
  "(\<exists>e t. low_level_output p n = Some (e, t)) \<longleftrightarrow> (\<exists>k\<ge>tx_polls n. tx_ready n k (length (tx_started n)))"
proof -
  have "(\<exists>e t. low_level_output p n = Some (e, t)) \<longleftrightarrow> (\<exists>u. wait_ready n = Some u)"
  proof (cases "wait_ready n")
    case (Some u)
    then show ?thesis
      by (cases "fst (copy_chain (tx_base (s_tx_slot u)) 0 p (slot_ram u))") (simp_all add: low_level_output_def case_prod_beta Let_def)
  qed (simp add: low_level_output_def)
  then show ?thesis using wait_ready_result wait_ready_returns by blast
qed

section \<open>Properties\<close>

text \<open>
  C28: Transmission. A frame that fits a slot is written to the next transmit slot and started with its
  length, and the other slots keep their content; a longer one is refused with \<open>ERR_BUF\<close>, nothing is
  started and the slot stays the next one.
\<close>

theorem frame_transmitted:
  assumes "netif_inv n" "low_level_output p n = Some (e, t)"
  shows "same_outside (s_tx_slot n) n t \<and>
    (if length (concat p) \<le> ETHMAC_SLOT_SIZE
     then e = ERR_OK \<and> s_tx_slot t = (s_tx_slot n + 1) mod ETHMAC_TX_SLOTS \<and>
       slot_content (s_tx_slot n) (length (concat p)) t = concat p \<and>
       tx_started t = tx_started n @ [\<lparr>tx_slot = s_tx_slot n, tx_length = length (concat p), tx_data = concat p\<rparr>]
     else e = ERR_BUF \<and> s_tx_slot t = s_tx_slot n \<and> tx_started t = tx_started n)"
  by (rule low_level_output_cases [OF assms(2,1)]) blast

text \<open>
  C19: No frame is overwritten while the MAC still sends it. From the start of the driver, whatever
  chains lwIP hands over and however long each wait takes, a started frame the MAC has not finished is
  in its slot unchanged, refused frames included, when the ready bit means that fewer frames are in
  flight than there are slots.
\<close>

theorem frames_in_flight_intact:
  assumes "netif_inv n" "mac_contract n" "tx_started n = []" "fold_option transmit ps n = Some t"
    "i < length (tx_started t)" "tx_done t (tx_polls t) \<le> i"
  shows "slot_content (tx_slot (tx_started t ! i)) (tx_length (tx_started t ! i)) t = tx_data (tx_started t ! i)"
  using transmit_flight [OF flight_inv_start [OF assms(1-3)] assms(4)] assms(5,6)
  by (auto simp: flight_inv_def Let_def intact_def)

text \<open>
  The unbounded wait of \<open>low_level_output\<close> ends, and the function returns, exactly if the MAC
  reports ready at some later poll: a MAC that stays busy stops the firmware.
\<close>

theorem output_returns_iff_ready:
  "(\<exists>e t. low_level_output p n = Some (e, t)) \<longleftrightarrow> (\<exists>k\<ge>tx_polls n. tx_ready n k (length (tx_started n)))"
  by (rule output_run_ready)

text \<open>
  C26: Reception. One call takes every pending frame, in order: each for which lwIP has buffers is
  handed over once, cut at the size of a slot; each other is dropped; a chain lwIP does not accept is freed;
  and nothing is left pending.
\<close>

theorem frames_received_in_order:
  assumes "alloc_contract pbuf_alloc" "\<And>f. f \<in> set (rx_queue n) \<Longrightarrow> length (rx_data f) = ETHMAC_SLOT_SIZE"
  shows "netif_litex_input pbuf_alloc (record_input ok) n s =
    (let bs = buffered pbuf_alloc (pbuf_allocs n) (rx_queue n)
     in Some (n\<lparr>rx_queue := [], pbuf_allocs := pbuf_allocs n + length (rx_queue n),
           rx_memerr := rx_memerr n + (length (rx_queue n) - length bs),
           pbufs_freed := pbufs_freed n + length (filter (\<lambda>b. \<not> ok b) bs)\<rparr>, s @ bs))"
  using received_frames [of pbuf_alloc n ok s] assms by blast

section \<open>Witnesses\<close>

text \<open>A driver at its start, over a MAC that finishes a frame every other poll.\<close>

definition quick_mac :: netif_st where
  "quick_mac = \<lparr>tx_ready = (\<lambda>k m. m < k div 2 + 2), tx_done = (\<lambda>k. k div 2), tx_polls = 0,
     slot_ram = replicate 8192 0, reader_slot = 0, reader_length = 0, tx_started = [], reader_ev = False,
     rx_queue = [\<lparr>rx_slot = 0, rx_length = 3, rx_data = replicate 2048 7\<rparr>,
                 \<lparr>rx_slot = 1, rx_length = 5000, rx_data = replicate 2048 9\<rparr>],
     s_tx_slot = 0, s_rx_slot = 0,
     the_netif = \<lparr>nif_name = [], nif_output = None, nif_output_ip6 = None, nif_linkoutput = None, nif_hwaddr = [],
                   nif_mtu = 0, nif_flags = [], nif_ip6_autoconfig = False\<rparr>,
     lwip_calls = [], pbuf_allocs = 0, pbufs_freed = 0, rx_memerr = 0\<rparr>"

lemma quick_mac_fields [simp]:
  "netif_inv quick_mac" "mac_contract quick_mac" "tx_started quick_mac = []"
  by (simp_all add: netif_inv_def mac_contract_def quick_mac_def slot_consts mono_def div_le_mono)

lemma frame_transmitted_witness:
  "\<exists>t. low_level_output [[1, 2], [3]] quick_mac = Some (ERR_OK, t) \<and> slot_content 0 3 t = [1, 2, 3] \<and>
     tx_started t = [\<lparr>tx_slot = 0, tx_length = 3, tx_data = [1, 2, 3]\<rparr>]"
proof -
  have "\<exists>e t. low_level_output [[1, 2], [3]] quick_mac = Some (e, t)"
    by (subst output_run_ready) (auto simp: quick_mac_def)
  then obtain e t where "low_level_output [[1, 2], [3]] quick_mac = Some (e, t)" by blast
  with frame_transmitted [OF quick_mac_fields(1) this] show ?thesis
    by (simp add: slot_consts numeral_3_eq_3) (simp add: quick_mac_def)
qed

lemma frames_in_flight_intact_witness:
  "\<exists>t. fold_option transmit [[[1]], [[2]]] quick_mac = Some t \<and> slot_content 1 1 t = [2]"
proof -
  have "\<exists>t. fold_option transmit [[[1]], [[2]]] quick_mac = Some t \<and> tx_done t (tx_polls t) = 1 \<and>
      tx_started t = [\<lparr>tx_slot = 0, tx_length = 1, tx_data = [1]\<rparr>, \<lparr>tx_slot = 1, tx_length = 1, tx_data = [2]\<rparr>]"
    by (simp add: transmit_def low_level_output_def wait_ready_hit quick_mac_def slot_consts reader_start_def slot_content_def
        tx_base_def ram_write_def)
  then obtain t where "fold_option transmit [[[1]], [[2]]] quick_mac = Some t" "tx_done t (tx_polls t) = 1"
    "tx_started t = [\<lparr>tx_slot = 0, tx_length = 1, tx_data = [1]\<rparr>, \<lparr>tx_slot = 1, tx_length = 1, tx_data = [2]\<rparr>]"
    by blast
  with frames_in_flight_intact [OF quick_mac_fields this(1), of 1] show ?thesis by simp
qed

lemma frames_received_in_order_witness:
  "\<exists>t. netif_litex_input (\<lambda>k len. Some [len]) (record_input (\<lambda>_. True)) quick_mac [] =
     Some (t, [[7, 7, 7], replicate 2048 9]) \<and> rx_queue t = []"
proof -
  have "alloc_contract (\<lambda>k len. Some [len])" by (simp add: alloc_contract_def)
  moreover have "length (rx_data f) = ETHMAC_SLOT_SIZE" if "f \<in> set (rx_queue quick_mac)" for f
    using that by (auto simp: quick_mac_def slot_consts)
  ultimately show ?thesis
    using frames_received_in_order [of "\<lambda>k len. Some [len]" quick_mac "\<lambda>_. True" "[]"]
    by (simp add: quick_mac_def frame_len_def slot_consts Let_def) (simp add: numeral_3_eq_3)
qed

end
