(* ===== verification/Net_Stack.thy ===== *)
theory Net_Stack
  imports Link_State Netif
begin

text \<open>
  \<^verbatim>\<open>firmware/net.c\<close>: the initialisation, the receive half, and the transmission spelled out as its
  calls into lwIP (the theory Hardware has the part the other modules see: the datagram and the code).

  \<open>net_init\<close> is the sequence of its calls. lwIP's answers to the calls of \<open>udp_tx\<close> are the functions of
  an \<open>lwip_udp\<close>; its control blocks are numbers.
\<close>

section \<open>Bring-up\<close>

definition net_init :: "netif_st \<Rightarrow> netif_st" where
  "net_init n =
     (let n = lwip_do Lwip_init n;
          n = netif_litex_bringup n;
          n = lwip_do Udp_new_any n;
          n = lwip_do (Udp_bind_any LINK_DISCOVERY_PORT) n;
          n = lwip_do Udp_recv n;
          n = lwip_do (Igmp_join_any (IPv4 224 76 78 75)) n
      in lwip_do (Mld6_join (IPv6 [0xff120000, 0, 0, 0x00008080])) n)"

definition net_local_mac :: "netif_st \<Rightarrow> u8 list" where
  "net_local_mac n = nif_hwaddr (the_netif n)"

section \<open>Reception\<close>

definition sys_now :: "'a hw_scheme \<Rightarrow> u32 \<times> 'a hw_scheme" where
  "sys_now s = (let (t, s) = host_time_us s in (ucast (t div 1000), s))"

text \<open>The source address as lwIP keeps it: an IPv4 address in network order, or an IPv6 address.\<close>

datatype source = Src4 u32 | Src6

type_synonym 's net_rx_cb_t = "u32 \<Rightarrow> u16 \<Rightarrow> u16 \<Rightarrow> u8 list \<Rightarrow> 's \<Rightarrow> 's option"

definition udp_rx_handler ::
  "'s net_rx_cb_t option \<Rightarrow> u16 \<Rightarrow> u8 list option \<Rightarrow> source \<Rightarrow> u16 \<Rightarrow> 's \<Rightarrow> 's option" where
  "udp_rx_handler s_user_cb local_port p addr port s =
     (case p of
        None \<Rightarrow> Some s
      | Some data \<Rightarrow>
          (case s_user_cb of
             None \<Rightarrow> Some s
           | Some cb \<Rightarrow>
               if length data \<le> 1500 then
                 let v4 = (case addr of Src4 a \<Rightarrow> lwip_htonl a | Src6 \<Rightarrow> 0)
                 in cb v4 port local_port data s
               else Some s))"

section \<open>Transmission, call by call\<close>

text \<open>
  lwIP's functions, over a state \<open>'s\<close> of its own: \<open>pbuf_alloc\<close> and \<open>udp_new\<close> may fail; \<open>udp_bind\<close> and
  \<open>udp_sendto\<close> say whether they succeeded.
\<close>

record 's lwip_udp =
  l_pbuf_alloc :: "nat \<Rightarrow> 's \<Rightarrow> bool \<times> 's"
  l_udp_new :: "'s \<Rightarrow> nat option \<times> 's"
  l_udp_bind :: "nat \<Rightarrow> u16 \<Rightarrow> 's \<Rightarrow> bool \<times> 's"
  l_udp_sendto :: "nat \<Rightarrow> u8 list \<Rightarrow> ip_addr \<Rightarrow> u16 \<Rightarrow> 's \<Rightarrow> bool \<times> 's"
  l_udp_remove :: "nat \<Rightarrow> 's \<Rightarrow> 's"
  l_pbuf_free :: "'s \<Rightarrow> 's"

definition udp_tx_calls ::
  "'s lwip_udp \<Rightarrow> ip_addr \<Rightarrow> u16 \<Rightarrow> u16 \<Rightarrow> u8 list \<Rightarrow> 's \<Rightarrow> int \<times> 's" where
  "udp_tx_calls L dst dport sport buf s =
     (let (p, s) = l_pbuf_alloc L (length buf) s in
      if \<not> p then (- 1, s)
      else
        let (tx, s) = l_udp_new L s in
        case tx of
          None \<Rightarrow> (- 2, l_pbuf_free L s)
        | Some tx \<Rightarrow>
            let (_, s) = l_udp_bind L tx sport s;
                (ok, s) = l_udp_sendto L tx buf dst dport s;
                s = l_udp_remove L tx s;
                s = l_pbuf_free L s
            in (if ok then 0 else - 3, s))"

text \<open>The answer of lwIP as a whole, in the vocabulary of the theory Hardware.\<close>

definition reply_of :: "'s lwip_udp \<Rightarrow> ip_addr \<Rightarrow> u16 \<Rightarrow> u16 \<Rightarrow> u8 list \<Rightarrow> 's \<Rightarrow> lwip_reply" where
  "reply_of L dst dport sport buf s =
     (let (p, s) = l_pbuf_alloc L (length buf) s; (tx, s) = l_udp_new L s in
      if \<not> p then No_pbuf
      else case tx of
          None \<Rightarrow> No_pcb
        | Some tx \<Rightarrow> Sent (fst (l_udp_sendto L tx buf dst dport (snd (l_udp_bind L tx sport s)))))"

lemma udp_tx_refines:
  "lwip h (length (net_log h)) = reply_of L dst dport sport buf s \<Longrightarrow>
   fst (udp_tx dst dport sport buf h) = fst (udp_tx_calls L dst dport sport buf s)"
  by (simp add: udp_tx_def udp_ret_def reply_of_def udp_tx_calls_def case_prod_beta Let_def split: option.split)

section \<open>The source port\<close>

text \<open>
  lwIP's rules for local ports. \<open>port_of l p\<close> is the port the control block \<open>p\<close> holds in the state \<open>l\<close>, and
  \<open>log\<close> lists what was put on the wire, with the source port. \<open>udp_bind\<close> fails for a port another control
  block holds (\<open>ERR_USE\<close>; the options of \<^verbatim>\<open>lwipopts.h\<close> do not allow reuse) and changes nothing;
  \<open>udp_sendto\<close> binds a control block without a port to one nobody holds.
\<close>

definition lwip_ports :: "'s lwip_udp \<Rightarrow> ('s \<Rightarrow> nat \<Rightarrow> u16 option) \<Rightarrow> ('s \<Rightarrow> datagram list) \<Rightarrow> bool" where
  "lwip_ports L port_of log \<longleftrightarrow>
     (\<forall>k s. port_of (snd (l_pbuf_alloc L k s)) = port_of s \<and> log (snd (l_pbuf_alloc L k s)) = log s) \<and>
     (\<forall>s. log (l_pbuf_free L s) = log s) \<and>
     (\<forall>p s. log (l_udp_remove L p s) = log s) \<and>
     (\<forall>s. log (snd (l_udp_new L s)) = log s \<and> port_of (snd (l_udp_new L s)) = port_of s) \<and>
     (\<forall>s p. fst (l_udp_new L s) = Some p \<longrightarrow> port_of s p = None) \<and>
     (\<forall>p q s. log (snd (l_udp_bind L p q s)) = log s \<and>
        (fst (l_udp_bind L p q s) \<longleftrightarrow> (\<forall>p'. p' \<noteq> p \<longrightarrow> port_of s p' \<noteq> Some q)) \<and>
        port_of (snd (l_udp_bind L p q s)) =
          (if \<exists>p'. p' \<noteq> p \<and> port_of s p' = Some q then port_of s else (port_of s)(p := Some q))) \<and>
     (\<forall>p b d q s. fst (l_udp_sendto L p b d q s) \<longrightarrow>
        (\<exists>src. (case port_of s p of Some x \<Rightarrow> src = x | None \<Rightarrow> \<forall>p'. port_of s p' \<noteq> Some src) \<and>
          log (snd (l_udp_sendto L p b d q s)) = log s @ [\<lparr>dst_addr = d, dst_port = q, src_port = src, payload = b\<rparr>]))"

lemma lwip_ports_bind:
  assumes "lwip_ports L port_of log"
  shows "log (snd (l_udp_bind L p q s)) = log s" "port_of (snd (l_udp_bind L p q s)) =
    (if \<exists>p'. p' \<noteq> p \<and> port_of s p' = Some q then port_of s else (port_of s)(p := Some q))"
    "fst (l_udp_bind L p q s) \<longleftrightarrow> (\<forall>p'. p' \<noteq> p \<longrightarrow> port_of s p' \<noteq> Some q)"
  using assms unfolding lwip_ports_def by blast+

lemma lwip_ports_send:
  assumes "lwip_ports L port_of log" "fst (l_udp_sendto L p b d q s)"
  shows "\<exists>src. (case port_of s p of Some x \<Rightarrow> src = x | None \<Rightarrow> \<forall>p'. port_of s p' \<noteq> Some src) \<and>
    log (snd (l_udp_sendto L p b d q s)) = log s @ [\<lparr>dst_addr = d, dst_port = q, src_port = src, payload = b\<rparr>]"
  using assms unfolding lwip_ports_def by simp

text \<open>What \<open>udp_tx\<close> has done with lwIP when it calls \<open>udp_bind\<close>, and after it.\<close>

definition before_bind :: "'s lwip_udp \<Rightarrow> u8 list \<Rightarrow> 's \<Rightarrow> 's" where
  "before_bind L buf s = snd (l_udp_new L (snd (l_pbuf_alloc L (length buf) s)))"

definition after_bind :: "'s lwip_udp \<Rightarrow> nat \<Rightarrow> u16 \<Rightarrow> u8 list \<Rightarrow> 's \<Rightarrow> 's" where
  "after_bind L tx sport buf s = snd (l_udp_bind L tx sport (before_bind L buf s))"

section \<open>Properties\<close>

text \<open>
  Bring-up. \<open>net_init\<close> initialises lwIP before it adds the interface, brings the interface up before it
  starts DHCP, binds the receive block to the discovery port and joins exactly the two groups an ALIVE
  is sent to; the interface transmits through this driver; and a frame that was pending before is dropped.
  Its address is the same on every board and, unlike its comment says, not a locally administered one
  (bit 1 of the first octet is clear).
\<close>

theorem net_init_joins_discovery:
  "let t = net_init n; calls = drop (length (lwip_calls n)) (lwip_calls t)
   in lwip_calls t = lwip_calls n @
       [Lwip_init, Netif_add (IPv4 0 0 0 0) (IPv4 0 0 0 0) (IPv4 0 0 0 0), Netif_set_default, Netif_set_up, Dhcp_start,
        Netif_create_ip6_linklocal True, Udp_new_any, Udp_bind_any LINK_DISCOVERY_PORT, Udp_recv,
        Igmp_join_any (IPv4 224 76 78 75), Mld6_join (IPv6 [0xff120000, 0, 0, 0x8080])] \<and>
      concat (map (\<lambda>c. case c of Igmp_join_any g \<Rightarrow> [g] | Mld6_join g \<Rightarrow> [g] | _ \<Rightarrow> []) calls) = map dst_addr (alive_datagrams s) \<and>
      (\<lambda>d. Udp_bind_any (dst_port d)) ` set (alive_datagrams s) \<subseteq> set calls \<and>
      net_local_mac t = [0x10, 0xe2, 0xd5, 0, 0, 1] \<and> \<not> bit (hd (net_local_mac t)) 0 \<and> \<not> bit (hd (net_local_mac t)) 1 \<and>
      nif_linkoutput (the_netif t) = Some Low_level_output \<and> nif_ip6_autoconfig (the_netif t) \<and>
      {NETIF_FLAG_IGMP, NETIF_FLAG_MLD6} \<subseteq> set (nif_flags (the_netif t)) \<and>
      rx_queue t = tl (rx_queue n) \<and> s_tx_slot t = 0"
  by (simp add: net_init_def netif_litex_bringup_def netif_litex_init_def low_level_init_def writer_ev_clear_def lwip_do_def
      Let_def net_local_mac_def alive_datagrams_def sent_to_def)

text \<open>
  C21: The result of \<open>udp_bind\<close> is not looked at. Whenever lwIP has a buffer and a control block for the
  datagram and would send it, \<open>udp_tx\<close> reports success and the datagram is sent, also when \<open>udp_bind\<close> has
  failed, which it does as soon as another control block holds the wanted source port; then, and only
  then, it leaves from a port nobody asked for. The receive block of \<open>net_init\<close> holds the discovery port,
  which every caller asks for.
\<close>

theorem source_port_taken:
  assumes "lwip_ports L port_of log" "fst (l_pbuf_alloc L (length buf) s)"
    "fst (l_udp_new L (snd (l_pbuf_alloc L (length buf) s))) = Some tx"
    "fst (l_udp_sendto L tx buf dst dport (after_bind L tx sport buf s))"
  shows "\<exists>t src. udp_tx_calls L dst dport sport buf s = (0, t) \<and>
    log t = log s @ [\<lparr>dst_addr = dst, dst_port = dport, src_port = src, payload = buf\<rparr>] \<and>
    (fst (l_udp_bind L tx sport (before_bind L buf s)) \<longleftrightarrow> (\<forall>p. port_of s p \<noteq> Some sport)) \<and>
    (src = sport \<longleftrightarrow> (\<forall>p. port_of s p \<noteq> Some sport))"
proof -
  define s2 where "s2 = before_bind L buf s"
  define s3 where "s3 = after_bind L tx sport buf s"
  define t where "t = l_pbuf_free L (l_udp_remove L tx (snd (l_udp_sendto L tx buf dst dport s3)))"
  have call: "udp_tx_calls L dst dport sport buf s = (0, t)"
    using assms(2-4) by (simp add: udp_tx_calls_def case_prod_beta Let_def t_def s3_def after_bind_def before_bind_def)
  have s2: "port_of s2 = port_of s" "log s2 = log s" using assms(1) by (simp_all add: lwip_ports_def s2_def before_bind_def)
  have "port_of (snd (l_pbuf_alloc L (length buf) s)) tx = None" "port_of (snd (l_pbuf_alloc L (length buf) s)) = port_of s"
    using assms(1,3) unfolding lwip_ports_def by blast+
  then have free: "port_of s tx = None" by simp
  have s3: "log s3 = log s" "port_of s3 =
      (if \<exists>p'. p' \<noteq> tx \<and> port_of s p' = Some sport then port_of s else (port_of s)(tx := Some sport))"
    using lwip_ports_bind(1,2) [OF assms(1), of tx sport s2] unfolding s3_def after_bind_def s2_def [symmetric] s2 by blast+
  have bound: "fst (l_udp_bind L tx sport s2) \<longleftrightarrow> (\<forall>p. port_of s p \<noteq> Some sport)"
  proof -
    have "port_of s tx \<noteq> Some sport" using free by simp
    then show ?thesis using lwip_ports_bind(3) [OF assms(1), of tx sport s2] unfolding s2 by metis
  qed
  from lwip_ports_send [OF assms(1,4)] obtain src where
    src: "case port_of s3 tx of Some x \<Rightarrow> src = x | None \<Rightarrow> \<forall>p'. port_of s3 p' \<noteq> Some src"
      "log (snd (l_udp_sendto L tx buf dst dport s3)) = log s3 @ [\<lparr>dst_addr = dst, dst_port = dport, src_port = src, payload = buf\<rparr>]"
    unfolding s3_def by blast
  have "log t = log s @ [\<lparr>dst_addr = dst, dst_port = dport, src_port = src, payload = buf\<rparr>]"
    using assms(1) src(2) s3(1) by (simp add: t_def lwip_ports_def)
  moreover have "src = sport \<longleftrightarrow> (\<forall>p. port_of s p \<noteq> Some sport)"
  proof (cases "\<exists>p'. p' \<noteq> tx \<and> port_of s p' = Some sport")
    case True
    then have "port_of s3 = port_of s" using s3 by simp
    then show ?thesis using True src(1) free by auto
  next
    case False
    then have "port_of s3 = (port_of s)(tx := Some sport)" unfolding s3(2) by (rule if_not_P)
    then show ?thesis using False src(1) free by (metis (mono_tags) fun_upd_same option.simps(3,5))
  qed
  ultimately show ?thesis using call bound unfolding s2_def by blast
qed

section \<open>Witnesses\<close>

text \<open>A lwIP of this kind: the ports held, and the datagrams sent.\<close>

definition free_port :: "(nat \<times> u16) list \<Rightarrow> u16 option" where
  "free_port ps = List.find (\<lambda>q. q \<notin> snd ` set ps) [49152, 49153, 49154, 49155]"

definition small_lwip :: "((nat \<times> u16) list \<times> datagram list) lwip_udp" where
  "small_lwip = \<lparr>l_pbuf_alloc = (\<lambda>k s. (True, s)),
     l_udp_new = (\<lambda>(ps, l). (List.find (\<lambda>p. map_of ps p = None) [0, 1, 2, 3], ps, l)),
     l_udp_bind = (\<lambda>p q (ps, l). if \<exists>x\<in>set ps. fst x \<noteq> p \<and> map_of ps (fst x) = Some q then (False, ps, l) else (True, (p, q) # ps, l)),
     l_udp_sendto = (\<lambda>p b d q (ps, l). case (case map_of ps p of Some x \<Rightarrow> Some x | None \<Rightarrow> free_port ps) of
        None \<Rightarrow> (False, ps, l)
      | Some src \<Rightarrow> (True, ps, l @ [\<lparr>dst_addr = d, dst_port = q, src_port = src, payload = b\<rparr>])),
     l_udp_remove = (\<lambda>p (ps, l). (filter (\<lambda>x. fst x \<noteq> p) ps, l)), l_pbuf_free = (\<lambda>s. s)\<rparr>"

lemma find_hit: "List.find P xs = Some x \<Longrightarrow> P x"
  by (auto simp: find_Some_iff)

lemma small_lwip_ports: "lwip_ports small_lwip (\<lambda>s. map_of (fst s)) snd"
proof -
  have held: "(\<exists>x\<in>set ps. fst x \<noteq> p \<and> map_of ps (fst x) = Some q) \<longleftrightarrow> (\<exists>p'. p' \<noteq> p \<and> map_of ps p' = Some q)"
    for ps :: "(nat \<times> u16) list" and p q by (metis fst_conv map_of_SomeD)
  have free: "map_of ps p \<noteq> Some q" if "free_port ps = Some q" for ps p q
  proof
    assume "map_of ps p = Some q"
    then have "q \<in> snd ` set ps" using map_of_SomeD by force
    with find_hit [OF that [unfolded free_port_def]] show False by simp
  qed
  have bind: "snd (snd (l_udp_bind small_lwip p q s)) = snd s \<and>
      (fst (l_udp_bind small_lwip p q s) \<longleftrightarrow> (\<forall>p'. p' \<noteq> p \<longrightarrow> map_of (fst s) p' \<noteq> Some q)) \<and>
      map_of (fst (snd (l_udp_bind small_lwip p q s))) =
      (if \<exists>p'. p' \<noteq> p \<and> map_of (fst s) p' = Some q then map_of (fst s) else (map_of (fst s))(p := Some q))" for p q s
    by (cases s) (simp add: small_lwip_def held, blast)
  have send: "\<exists>src. (case map_of (fst s) p of Some x \<Rightarrow> src = x | None \<Rightarrow> \<forall>p'. map_of (fst s) p' \<noteq> Some src) \<and>
      snd (snd (l_udp_sendto small_lwip p b d q s)) = snd s @ [\<lparr>dst_addr = d, dst_port = q, src_port = src, payload = b\<rparr>]"
    if "fst (l_udp_sendto small_lwip p b d q s)" for p b d q s
  proof (cases "map_of (fst s) p")
    case None
    with that obtain x where "free_port (fst s) = Some x"
      by (cases s) (auto simp: small_lwip_def split: option.splits)
    with None free show ?thesis by (cases s) (simp add: small_lwip_def)
  qed (cases s; simp add: small_lwip_def)
  have fresh: "map_of (fst s) p = None" if "fst (l_udp_new small_lwip s) = Some p" for s p
  proof -
    have "List.find (\<lambda>p. map_of (fst s) p = None) [0, 1, 2, 3] = Some p"
      using that by (simp add: small_lwip_def case_prod_beta)
    then show ?thesis by (rule find_hit)
  qed
  have rest: "snd (snd (l_pbuf_alloc small_lwip k s)) = snd s" "fst (snd (l_pbuf_alloc small_lwip k s)) = fst s"
    "l_pbuf_free small_lwip s = s" "snd (l_udp_remove small_lwip p s) = snd s" "snd (l_udp_new small_lwip s) = s" for k s p
    by (simp_all add: small_lwip_def case_prod_beta)
  show ?thesis
    unfolding lwip_ports_def
    by (intro conjI allI impI; (rule bind [THEN conjunct1] bind [THEN conjunct2, THEN conjunct1] bind [THEN conjunct2, THEN conjunct2] | erule send fresh | simp only: rest))
qed

lemma source_port_taken_witness:
  "\<not> fst (l_udp_bind small_lwip 1 20808 (before_bind small_lwip [1] ([(0, 20808)], []))) \<and>
   (\<exists>t src. udp_tx_calls small_lwip (IPv4 10 0 0 2) 20808 20808 [1] ([(0, 20808)], []) = (0, t) \<and>
     snd t = [\<lparr>dst_addr = IPv4 10 0 0 2, dst_port = 20808, src_port = src, payload = [1]\<rparr>] \<and> src \<noteq> 20808)"
proof -
  let ?s = "([(0, 20808)], []) :: (nat \<times> u16) list \<times> datagram list"
  have "map_of [(0 :: nat, 20808 :: u16)] 0 = Some 20808" by simp
  then have taken: "\<not> (\<forall>p. map_of (fst ?s) p \<noteq> Some 20808)" by auto
  have "fst (l_pbuf_alloc small_lwip (length [1 :: u8]) ?s)"
    "fst (l_udp_new small_lwip (snd (l_pbuf_alloc small_lwip (length [1 :: u8]) ?s))) = Some 1"
    "fst (l_udp_sendto small_lwip 1 [1] (IPv4 10 0 0 2) 20808 (after_bind small_lwip 1 20808 [1] ?s))"
    by (simp_all add: small_lwip_def after_bind_def before_bind_def free_port_def)
  from source_port_taken [OF small_lwip_ports this] taken show ?thesis by auto
qed

end
