(* ===== verification/Main_Loop.thy ===== *)
theory Main_Loop
  imports Frames Web_Requests Net_Stack
begin

text \<open>
  \<^verbatim>\<open>firmware/main.c\<close>: the dispatch of received datagrams, the boot sequence and the loop, over the
  state of all modules.

  lwIP stands between the frames of the driver and the callbacks of the firmware. What it makes of a
  frame is a parameter: \<open>stack k frame\<close> is the sequence of callbacks and transmissions that handling the
  \<open>k\<close>-th frame leads to, and whether lwIP accepts it. What its timers lead to in a pass is a sequence
  of the same kind. Between passes the hardware may change the registers it owns.
\<close>

section \<open>Dispatch (main.c)\<close>

text \<open>\<open>a\<close> is the address of the datagram buffer.\<close>

definition on_udp_rx :: "u32 \<Rightarrow> 'a audio_st_scheme net_rx_cb_t" where
  "on_udp_rx a saddr sport dport buf s =
     (if length buf < 8 then Some s
      else if memcmp (take 8 buf) [0x5F, 0x61, 0x73, 0x64, 0x70, 0x5F, 0x76, 1] = 0 then
        link_handle_rx a buf saddr sport s
      else if memcmp (take 8 buf) [0x5F, 0x6C, 0x69, 0x6E, 0x6B, 0x5F, 0x76, 1] = 0 then do {
        s \<leftarrow> measurement_handle_rx a buf saddr sport s;
        Some (measurement_responder_handle_rx buf saddr sport s)
      }
      else if memcmp (take 8 buf) [0x63, 0x68, 0x6E, 0x6E, 0x6C, 0x73, 0x76, 1] = 0 then
        link_audio_handle_rx a buf saddr sport s
      else Some s)"

section \<open>The whole firmware\<close>

text \<open>
  The web state with the connection table (lwIP's argument of each open connection), the driver, and
  the callback registered with \<^verbatim>\<open>net.c\<close>: there is one function it is ever set to.
\<close>

datatype rx_cb = On_udp_rx

record main_st = webui_st +
  s_conns :: "nat \<Rightarrow> conn_state_t option"
  s_net :: netif_st
  s_user_cb :: "rx_cb option"

definition net_set_rx_callback :: "rx_cb \<Rightarrow> 'a main_st_scheme \<Rightarrow> 'a main_st_scheme" where
  "net_set_rx_callback cb s = s\<lparr>s_user_cb := Some cb\<rparr>"

fun rx_call :: "u32 \<Rightarrow> rx_cb \<Rightarrow> 'a audio_st_scheme net_rx_cb_t" where
  "rx_call a On_udp_rx = on_udp_rx a"

text \<open>What lwIP does with the firmware: a datagram, a TCP event, or a frame to send.\<close>

datatype net_event =
    Udp "u8 list" source u16
  | Tcp_accept nat bool
  | Tcp_recv nat tcp_event
  | Xmit "u8 list list"

fun net_deliver :: "u32 \<Rightarrow> net_event \<Rightarrow> 'a main_st_scheme \<Rightarrow> 'a main_st_scheme option" where
  "net_deliver a (Udp data addr port) s =
     udp_rx_handler (map_option (rx_call a) (s_user_cb s)) LINK_DISCOVERY_PORT (Some data) addr port s"
| "net_deliver a (Tcp_accept pcb mem) s = Some (s\<lparr>s_conns := (s_conns s)(pcb := on_accept True mem)\<rparr>)"
| "net_deliver a (Tcp_recv pcb ev) s =
     (case s_conns s pcb of
        None \<Rightarrow> Some s
      | Some cs \<Rightarrow> do {
          (c, s) \<leftarrow> on_recv web_call pcb ev cs s;
          Some (s\<lparr>s_conns := (s_conns s)(pcb := c)\<rparr>)
        })"
| "net_deliver a (Xmit p) s = do {
     (_, n) \<leftarrow> low_level_output p (s_net s);
     Some (s\<lparr>s_net := n\<rparr>)
   }"

definition ethernet_input ::
  "u32 \<Rightarrow> (nat \<Rightarrow> u8 list \<Rightarrow> net_event list \<times> bool) \<Rightarrow> 'a main_st_scheme input_fn" where
  "ethernet_input a stack p n s =
     (let (evs, ok) = stack (pbuf_allocs n) (concat p) in do {
        s \<leftarrow> fold_option (net_deliver a) evs (s\<lparr>s_net := n\<rparr>);
        Some (if ok then ERR_OK else ERR_OTHER, s_net s, s)
      })"

text \<open>What lwIP answers and does in one pass of the loop.\<close>

record poll_input =
  poll_alloc :: "nat \<Rightarrow> nat \<Rightarrow> nat list option"
  poll_stack :: "nat \<Rightarrow> u8 list \<Rightarrow> net_event list \<times> bool"
  poll_timeouts :: "net_event list"

definition net_poll :: "u32 \<Rightarrow> poll_input \<Rightarrow> 'a main_st_scheme \<Rightarrow> 'a main_st_scheme option" where
  "net_poll a w s = do {
     (n, s) \<leftarrow> netif_litex_input (poll_alloc w) (ethernet_input a (poll_stack w)) (s_net s) s;
     fold_option (net_deliver a) (poll_timeouts w) (s\<lparr>s_net := n\<rparr>)
   }"

definition serve_port :: "nat \<Rightarrow> 'a audio_st_scheme \<Rightarrow> 'a audio_st_scheme option" where
  "serve_port port s =
     (let (pend, s) = tdm_frame_pending port s in
      if pend then do {
        s \<leftarrow> link_audio_on_tdm_frame port s;
        Some (tdm_clear_frame_pending port s)
      }
      else Some s)"

definition loop_pass :: "u32 \<Rightarrow> poll_input \<Rightarrow> 'a main_st_scheme \<Rightarrow> 'a main_st_scheme option" where
  "loop_pass a w s = do {
     s \<leftarrow> net_poll a w s;
     let s = link_tick s;
     let s = session_tick s;
     let s = link_audio_tick s;
     s \<leftarrow> midi_tick s;
     s \<leftarrow> euro_tick s;
     fold_option serve_port [0..<LINK_NUM_TDM_PORTS] s
   }"

text \<open>\<open>ps\<close> are the frames lwIP sends while \<open>net_init\<close> runs (the first DHCP and router messages).\<close>

definition boot :: "u32 \<Rightarrow> u8 list list list \<Rightarrow> 'a main_st_scheme \<Rightarrow> 'a main_st_scheme option" where
  "boot a ps s = do {
     s \<leftarrow> fold_option (\<lambda>p. net_deliver a (Xmit p)) ps (s\<lparr>s_net := net_init (s_net s)\<rparr>);
     let s = net_set_rx_callback On_udp_rx s;
     let s = beat_pulse_init s;
     let s = tdm_init s;
     let s = link_init s;
     let s = link_audio_init s;
     let s = midi_init s;
     let s = euro_init s;
     let s = http_init s;
     let s = webui_init s;
     Some (link_broadcast_alive_now s)
   }"

section \<open>Every run\<close>

text \<open>Before the boot: the static variables as the C start-up code leaves them, and a silent transmitter.\<close>

definition power_on :: "main_st \<Rightarrow> bool" where
  "power_on s \<longleftrightarrow> tx_inv s \<and> meas s = zero_state \<and> s_peer_name s = bytes ''linkfpga'' @ replicate 24 0 \<and>
     s_resp_buf s = replicate RESP_BUF 0 \<and> webui_name s = bytes ''linkfpga'' @ replicate 24 0 \<and>
     s_conns s = (\<lambda>_. None) \<and> midi_tx_fifo s = [] \<and> s_last_count s = replicate LINK_NUM_TDM_PORTS 0 \<and>
     length (slot_ram (s_net s)) = ETHMAC_SLOT_SIZE * (ETHMAC_RX_SLOTS + ETHMAC_TX_SLOTS) \<and> tx_started (s_net s) = []"

text \<open>
  A pass of the loop, or the hardware and lwIP changing what they own: the MIDI queues and meters, the
  trigger inputs, the addresses of the interface, the received frames.
\<close>

inductive main_step :: "u32 \<Rightarrow> main_st \<Rightarrow> main_st \<Rightarrow> bool" for a where
  Pass: "loop_pass a w s = Some t \<Longrightarrow> main_step a s t"
| Midi_input: "main_step a s (s\<lparr>midi_rt_ev := e, midi_clk_period := p, midi_rx_fifo := f\<rparr>)"
| Midi_sent: "main_step a s (s\<lparr>midi_tx_fifo := drop k (midi_tx_fifo s)\<rparr>)"
| Trigger: "main_step a s (s\<lparr>eurorack_status := l, eurorack_clk_count := c, eurorack_clk_period := p,
      eurorack_rst_count := r, eurorack_run_count := m\<rparr>)"
| Address: "main_step a s (s\<lparr>netif_ip4 := ip, netif_ip6 := ip6\<rparr>)"
| Arrival: "main_step a s (s\<lparr>s_net := (s_net s)\<lparr>rx_queue := rx_queue (s_net s) @ fs\<rparr>\<rparr>)"

inductive_cases main_stepE: "main_step a s t"

inductive reachable :: "u32 \<Rightarrow> main_st \<Rightarrow> bool" for a where
  Boot: "power_on s \<Longrightarrow> boot a ps s = Some t \<Longrightarrow> reachable a t"
| Step: "reachable a s \<Longrightarrow> main_step a s t \<Longrightarrow> reachable a t"

end
