(* ===== verification/Main_Invariant.thy ===== *)
theory Main_Invariant
  imports Main_Loop
begin

text \<open>
  The invariant of the whole firmware: what the invariants of the modules say holds together after the
  boot, and every pass of the loop and every step of the hardware keeps it, whatever lwIP delivers.
  \<open>app_ok s t\<close> is what is proved of each operation, up to the handlers of the web interface.
\<close>

section \<open>The parts\<close>

definition web_inv :: "'a webui_st_scheme \<Rightarrow> bool" where
  "web_inv s \<longleftrightarrow> s_routes s = map route_of documented \<and> length (s_resp_buf s) = RESP_BUF \<and>
     length (webui_name s) = 32 \<and> length (c_str (webui_name s)) < 32"

definition app_inv :: "'a webui_st_scheme \<Rightarrow> bool" where
  "app_inv s \<longleftrightarrow> core_inv s \<and> audio_inv s \<and> names_inv s \<and> short_names (link_audio_remote s) \<and> midi_inv s \<and>
     0 < s_ppqn s \<and> web_inv s"

text \<open>Who the node is: its identifier and everything it publishes about itself.\<close>

definition identity :: "'a audio_st_scheme \<Rightarrow> link_id \<times> u8 list \<times> (bool \<times> link_id \<times> u8 list \<times> int \<times> int) list" where
  "identity s = (link_self_id s, published s)"

definition app_ok :: "'a webui_st_scheme \<Rightarrow> 'a webui_st_scheme \<Rightarrow> bool" where
  "app_ok s t \<longleftrightarrow> webui_st.more t = webui_st.more s \<and> identity t = identity s \<and> (app_inv s \<longrightarrow> app_inv t)"

lemma app_ok_refl [simp]: "app_ok s s"
  by (simp add: app_ok_def)

lemma app_ok_trans [trans]: "app_ok s t \<Longrightarrow> app_ok t u \<Longrightarrow> app_ok s u"
  by (simp add: app_ok_def)

text \<open>Each module's extension of the state holds the fields of all modules above it.\<close>

lemma midi_fields_cong:
  assumes "audio_st.more t = audio_st.more s"
  shows "midi_rt_ev t = midi_rt_ev s" "midi_tx_fifo t = midi_tx_fifo s" "s_observed_bpm t = s_observed_bpm s"
    "s_observed_period_us t = s_observed_period_us s" "midi_st.more t = midi_st.more s"
  using assms by (cases s; cases t; simp)+

lemma euro_fields_cong:
  assumes "midi_st.more t = midi_st.more s"
  shows "s_ppqn t = s_ppqn s" "euro_st.more t = euro_st.more s"
  using assms by (cases s; cases t; simp)+

lemma http_fields_cong:
  assumes "euro_st.more t = euro_st.more s"
  shows "s_routes t = s_routes s" "http_st.more t = http_st.more s"
  using assms by (cases s; cases t; simp)+

lemma web_fields_cong:
  assumes "http_st.more t = http_st.more s"
  shows "s_resp_buf t = s_resp_buf s" "webui_name t = webui_name s" "webui_st.more t = webui_st.more s"
  using assms by (cases s; cases t; simp)+

lemma main_fields_cong:
  assumes "webui_st.more t = webui_st.more s"
  shows "s_conns t = s_conns s" "s_net t = s_net s" "s_user_cb t = s_user_cb s" "main_st.more t = main_st.more s"
  using assms by (cases s; cases t; simp)+

lemma web_inv_euro:
  assumes "euro_st.more t = euro_st.more s"
  shows "web_inv t = web_inv s"
  unfolding web_inv_def http_fields_cong [OF assms] web_fields_cong [OF http_fields_cong(2) [OF assms]] ..

lemma upper_cong:
  assumes "audio_st.more t = audio_st.more s"
  shows "midi_inv t = midi_inv s" "s_ppqn t = s_ppqn s" "web_inv t = web_inv s" "webui_st.more t = webui_st.more s"
proof -
  note midi = midi_fields_cong [OF assms]
  note euro = euro_fields_cong [OF midi(5)]
  show "midi_inv t = midi_inv s" by (simp add: midi_inv_def midi)
  show "s_ppqn t = s_ppqn s" by (rule euro(1))
  show "web_inv t = web_inv s" by (rule web_inv_euro [OF euro(2)])
  show "webui_st.more t = webui_st.more s"
    by (rule web_fields_cong(3) [OF http_fields_cong(2) [OF euro(2)]])
qed

lemma audio_inv_cong:
  assumes "meas_st.more t = meas_st.more s"
  shows "audio_inv t = audio_inv s" "names_inv t = names_inv s"
  using audio_fields_cong [OF assms] by (simp_all add: audio_inv_def tx_inv_def names_inv_def)

text \<open>A step of the Link modules, and a step of the audio module, is one of the whole.\<close>

lemma app_ok_link:
  assumes "link_ok s t"
  shows "app_ok s t"
proof -
  have more: "meas_st.more t = meas_st.more s" using assms by (simp add: link_ok_def)
  note audio = audio_fields_cong [OF more] and up = upper_cong [OF audio_fields_cong(7) [OF more]]
  show ?thesis
    using assms audio_inv_cong [OF more] by (simp add: app_ok_def app_inv_def link_ok_def audio up identity_def published_def)
qed

lemma core_inv_cong:
  assumes "core t = core s"
  shows "core_inv t = core_inv s"
  unfolding core_inv_def core_invs(1-3) [of t] core_invs(1-3) [of s] assms ..

lemma app_ok_audio:
  assumes "audio_ok s t"
  shows "app_ok s t"
proof -
  have more: "audio_st.more t = audio_st.more s" and core: "core t = core s" using assms by (simp_all add: audio_ok_def)
  have "core_inv t = core_inv s" "link_self_id t = link_self_id s"
    using core_inv_cong [OF core] arg_cong [OF core, of link_self_id] by (simp_all add: core_def meas_st.truncate_def)
  then show ?thesis
    using assms upper_cong [OF more] names_inv_published [of t s] by (simp add: app_ok_def app_inv_def audio_ok_def identity_def)
qed

section \<open>Clock inputs\<close>

lemmas app_defs = app_ok_def identity_def published_def app_inv_def core_inv_def peers_inv_def flags_inv_def audio_inv_def tx_inv_def names_inv_def web_inv_def

lemma app_ok_midi_measure:
  "app_ok s (midi_measure s\<lparr>midi_rt_ev := None\<rparr>)" "app_ok s (midi_measure s\<lparr>midi_rt_ev := None, s_last_clock_ts := ts\<rparr>)"
  by (simp_all add: app_defs midi_inv_def midi_measure_def Let_def)

lemma app_ok_retimed: "app_ok s (retimed tml ss n s)"
  by (rule app_ok_link [OF retimed_ok])

lemma midi_tick_app: "midi_tick s = Some t \<Longrightarrow> app_ok s t"
  by (erule midi_tick_cases; elim disjE exE)
    (auto intro: app_ok_midi_measure app_ok_trans [OF app_ok_midi_measure(1) app_ok_retimed]
      app_ok_trans [OF app_ok_midi_measure(2) app_ok_retimed])

lemma euro_registers_app:
  "app_ok s (s\<lparr>s_period := p, s_bpm := b\<rparr>)" "app_ok s (s\<lparr>s_last_clk_count := c\<rparr>)" "app_ok s (s\<lparr>s_last_rst_count := c\<rparr>)"
  "app_ok s (s\<lparr>s_last_run_count := c, s_run_level := l\<rparr>)"
  by (simp_all add: app_defs midi_inv_def)

lemma euro_measure_app: "app_ok s (euro_measure s)"
  by (simp add: euro_measure_def Let_def euro_registers_app)

lemma set_tempo_app: "link_set_local_tempo b s = Some t \<Longrightarrow> app_ok s t"
  using link_set_local_tempo_SomeD app_ok_retimed by blast

lemma set_play_app: "link_set_play p s = Some t \<Longrightarrow> app_ok s t"
  using link_set_play_SomeD app_ok_retimed by blast

lemma euro_clock_edge_app: "euro_clock_edge s = Some t \<Longrightarrow> app_ok s t"
  by (auto simp: euro_clock_edge_def Let_def euro_registers_app intro: app_ok_trans [OF euro_registers_app(2) set_tempo_app]
      split: if_splits)

lemma euro_run_edge_app: "euro_run_edge s = Some t \<Longrightarrow> app_ok s t"
  by (auto simp: euro_run_edge_def Let_def euro_registers_app intro: app_ok_trans [OF euro_registers_app(4) set_play_app]
      split: if_splits)

lemma euro_reset_edge_app: "app_ok s (euro_reset_edge s)"
proof -
  let ?u = "s\<lparr>s_last_rst_count := eurorack_rst_count s\<rparr>"
  let ?v = "\<lambda>g. ?u\<lparr>n_reads := n_reads s + 3, link_self_timeline := (link_self_timeline s)\<lparr>beat_origin_microbeats := 0,
      time_origin_us_ghost := g\<rparr>\<rparr>"
  have "app_ok ?u (?v g)" for g by (rule app_ok_link [OF link_okI]) simp_all
  from app_ok_trans [OF euro_registers_app(3) this] have "app_ok s (link_broadcast_alive_now (?v g))" for g
    by (rule app_ok_trans [OF _ app_ok_link [OF broadcast_ok]])
  then show ?thesis by (simp add: euro_reset_edge_def Let_def ghost_time_us_eq euro_registers_app)
qed

lemma euro_tick_app:
  assumes "euro_tick s = Some t"
  shows "app_ok s t"
proof -
  obtain u where u: "euro_clock_edge (euro_measure s) = Some u" "euro_run_edge (euro_reset_edge u) = Some t"
    using assms by (auto simp: euro_tick_def bind_eq_Some_conv)
  note euro_measure_app
  also note euro_clock_edge_app [OF u(1)]
  also note euro_reset_edge_app
  also note euro_run_edge_app [OF u(2)]
  finally show ?thesis .
qed

section \<open>The web server\<close>

lemma tcp_write_app: "app_ok s (tcp_write pcb d s)"
  by (simp add: tcp_write_def Let_def) (simp add: app_defs midi_inv_def)

lemma http_send_response_app: "http_send_response pcb r s = Some t \<Longrightarrow> app_ok s t"
  by (auto simp: http_send_response_def Let_def split: if_splits intro: tcp_write_app app_ok_trans [OF tcp_write_app tcp_write_app])

lemma length_snprintf_at: "snprintf_at n t buf = Some buf' \<Longrightarrow> length buf' = length buf"
  by (auto simp: snprintf_at_def Let_def split: if_splits)

lemma length_add_entries: "add_entries room f es n first buf = Some (m, buf') \<Longrightarrow> length buf' = length buf"
proof (induction es arbitrary: n first buf)
  case (Cons e es)
  show ?case
  proof (cases "n < RESP_BUF - room")
    case True
    show ?thesis
    proof (cases "f e")
      case (Some x)
      with True Cons.prems obtain k first' b where "snprintf_at n ((if first then [] else [44]) @ x) buf = Some b"
        "add_entries room f es k first' b = Some (m, buf')"
        by (auto simp: Let_def bind_eq_Some_conv)
      then show ?thesis using Cons.IH length_snprintf_at by metis
    qed (use True Cons in simp)
  qed (use Cons.prems in simp)
qed simp

lemma length_write_document: "write_document h room f es buf = Some (n, buf') \<Longrightarrow> length buf' = length buf"
  by (auto simp: write_document_def bind_eq_Some_conv dest!: length_snprintf_at length_add_entries)

lemma resp_buf_app: "length buf = length (s_resp_buf s) \<Longrightarrow> app_ok s (s\<lparr>s_resp_buf := buf\<rparr>)"
  by (simp add: app_defs midi_inv_def)

lemma reads_app: "app_ok s (s\<lparr>n_reads := n\<rparr>)"
  by (rule app_ok_link [OF link_okI]) simp_all

lemma webui_name_app:
  "(length (webui_name s) = 32 \<Longrightarrow> length w = 32) \<Longrightarrow> length (c_str w) < 32 \<Longrightarrow> app_ok s (s\<lparr>webui_name := w\<rparr>)"
  by (simp add: app_defs midi_inv_def)

lemma post_name_app: "post_name path body blen resp s = Some (r, t) \<Longrightarrow> app_ok s t"
proof -
  assume post: "post_name path body blen resp s = Some (r, t)"
  define n where "n = min (unat blen) 31"
  have le: "n \<le> 31" by (simp add: n_def)
  have "n \<le> length body \<and> t = s\<lparr>webui_name := take n body @ [0] @ drop (n + 1) (webui_name s)\<rparr>"
    using post unfolding post_name_def Let_def n_def [symmetric] by (simp split: if_split_asm)
  with le have n: "n \<le> 31" "n \<le> length body" "t = s\<lparr>webui_name := take n body @ [0] @ drop (n + 1) (webui_name s)\<rparr>"
    by simp_all
  have cut: "length (c_str (take n body @ 0 # z)) \<le> n" for z
    using n(2) length_takeWhile_le [of _ "take n body"] by (simp add: c_str_def takeWhile_tail)
  have "length (c_str (take n body @ [0] @ drop (n + 1) (webui_name s))) < 32"
    using cut [of "drop (n + 1) (webui_name s)"] n(1) by simp
  then show ?thesis unfolding n(3) using n(1,2) by (intro webui_name_app) simp_all
qed

lemma web_call_app: "web_call h path body blen resp s = Some (r, t) \<Longrightarrow> app_ok s t"
proof (cases h)
  case serve_status_fn
  assume "web_call h path body blen resp s = Some (r, t)"
  then obtain n buf where "length buf = length (s_resp_buf s)" "t = s\<lparr>n_reads := n, s_resp_buf := buf\<rparr>"
    by (auto simp: serve_status_fn serve_status_def ghost_time_us_eq bind_eq_Some_conv dest!: length_write_document)
  then show ?thesis using app_ok_trans [OF reads_app [of s n] resp_buf_app] by simp
next
  case serve_channels_fn
  assume "web_call h path body blen resp s = Some (r, t)"
  then show ?thesis
    by (auto simp: serve_channels_fn serve_channels_def bind_eq_Some_conv resp_buf_app dest!: length_write_document)
next
  case post_name_fn
  then show "web_call h path body blen resp s = Some (r, t) \<Longrightarrow> ?thesis" by (simp add: post_name_app)
next
  case post_subscribe_fn
  assume "web_call h path body blen resp s = Some (r, t)"
  then obtain m where m: "Some (case m of None \<Rightarrow> (failed ''subscribe failed'' resp, s)
      | Some (port, slot, hex) \<Rightarrow> (case hex_to_id hex of None \<Rightarrow> (failed ''subscribe failed'' resp, s)
          | Some i \<Rightarrow> let (r, s) = link_audio_subscribe port slot i s in
              (if r = 0 then ok_json resp else failed ''subscribe failed'' resp, s))) = Some (r, t)"
    unfolding post_subscribe_fn web_call.simps post_subscribe_def by (auto simp only: bind_eq_Some_conv)
  have "t = s \<or> (\<exists>p c i. t = snd (link_audio_subscribe p c i s))"
  proof (cases m)
    case (Some q)
    obtain p c h where q: "q = (p, c, h)" by (cases q)
    show ?thesis
      using m by (cases "hex_to_id h") (auto simp: Some q case_prod_beta)
  qed (use m in simp)
  then show ?thesis using app_ok_audio [OF link_audio_subscribe_ok] by auto
next
  case post_unsubscribe_fn
  assume "web_call h path body blen resp s = Some (r, t)"
  then have "t = s \<or> (\<exists>i. t = snd (link_audio_unsubscribe i s))"
    by (auto simp: post_unsubscribe_fn post_unsubscribe_def bind_eq_Some_conv case_prod_beta Let_def split: option.splits)
  then show ?thesis using app_ok_audio [OF link_audio_unsubscribe_ok] by auto
qed (auto simp: serve_index_def post_tempo_def post_play_def post_stop_def bind_eq_Some_conv Let_def set_tempo_app set_play_app
    split: if_splits)

lemma dispatch_app: "dispatch web_call pcb cs s = Some t \<Longrightarrow> app_ok s t"
  by (auto simp: dispatch_def Let_def bind_eq_Some_conv http_send_response_app split: if_splits option.splits
      intro: app_ok_trans [OF web_call_app http_send_response_app])

section \<open>The whole state\<close>

definition conn_inv :: "conn_state_t \<Rightarrow> bool" where
  "conn_inv cs \<longleftrightarrow> length (req_buf cs) = REQ_BUF_MAX \<and> used cs \<le> REQ_BUF_MAX \<and> body_offset cs \<le> REQ_BUF_MAX"

definition driver_inv :: "netif_st \<Rightarrow> bool" where
  "driver_inv n \<longleftrightarrow> netif_inv n \<and> (mac_contract n \<longrightarrow> flight_inv n)"

definition firmware_inv :: "'a main_st_scheme \<Rightarrow> bool" where
  "firmware_inv s \<longleftrightarrow> app_inv s \<and> (\<forall>pcb cs. s_conns s pcb = Some cs \<longrightarrow> conn_inv cs) \<and> driver_inv (s_net s) \<and>
     s_user_cb s = Some On_udp_rx"

definition main_ok :: "'a main_st_scheme \<Rightarrow> 'a main_st_scheme \<Rightarrow> bool" where
  "main_ok s t \<longleftrightarrow> rx_queue (s_net t) = rx_queue (s_net s) \<and> s_user_cb t = s_user_cb s \<and> identity t = identity s \<and>
     (firmware_inv s \<longrightarrow> firmware_inv t)"

lemma main_ok_refl [simp]: "main_ok s s"
  by (simp add: main_ok_def)

lemma main_ok_trans [trans]: "main_ok s t \<Longrightarrow> main_ok t u \<Longrightarrow> main_ok s u"
  by (simp add: main_ok_def)

lemma main_ok_app:
  assumes "app_ok s t"
  shows "main_ok s t"
proof -
  have "webui_st.more t = webui_st.more s" using assms by (simp add: app_ok_def)
  note more = main_fields_cong [OF this]
  show ?thesis using assms by (simp add: main_ok_def app_ok_def firmware_inv_def more)
qed

lemma driver_inv_update [simp]:
  "driver_inv (n\<lparr>rx_queue := q\<rparr>) = driver_inv n" "driver_inv (n\<lparr>pbuf_allocs := k\<rparr>) = driver_inv n"
  "driver_inv (n\<lparr>pbufs_freed := k\<rparr>) = driver_inv n" "driver_inv (n\<lparr>rx_memerr := k\<rparr>) = driver_inv n"
  "driver_inv (writer_ev_clear n) = driver_inv n"
  by (simp_all add: driver_inv_def flight_inv_def netif_inv_def mac_contract_def intact_def slot_content_def writer_ev_clear_def)

lemma low_level_output_driver:
  assumes "low_level_output p n = Some (e, t)" "driver_inv n"
  shows "driver_inv t"
proof -
  have inv: "netif_inv n" and flight: "mac_contract n \<Longrightarrow> flight_inv n" using assms(2) by (simp_all add: driver_inv_def)
  obtain k where "tx_polls t = Suc k" "tx_done t = tx_done n" "tx_ready t = tx_ready n" "netif_inv t"
    by (rule low_level_output_cases [OF assms(1) inv]) blast
  then show ?thesis
    using low_level_output_flight [OF flight assms(1)] by (simp add: driver_inv_def mac_contract_def)
qed

lemma low_level_output_queue:
  assumes "low_level_output p n = Some (e, t)"
  shows "rx_queue t = rx_queue n"
proof -
  obtain u where "wait_ready n = Some u" using assms by (cases "wait_ready n") (auto simp: low_level_output_def)
  moreover from wait_ready_result [OF this] have "rx_queue u = rx_queue n" by auto
  ultimately show ?thesis
    using assms by (cases "fst (copy_chain (tx_base (s_tx_slot u)) 0 p (slot_ram u))")
      (auto simp: low_level_output_def case_prod_beta Let_def reader_start_def)
qed

section \<open>What lwIP delivers\<close>

lemma app_inv_conns [simp]: "app_inv (t\<lparr>s_conns := f\<rparr>) = app_inv t" "app_inv (t\<lparr>s_net := n\<rparr>) = app_inv t"
    "app_inv (t\<lparr>s_user_cb := cb\<rparr>) = app_inv t"
  by (simp_all add: app_defs midi_inv_def)

lemma identity_main [simp]: "identity (t\<lparr>s_conns := f\<rparr>) = identity t" "identity (t\<lparr>s_net := n\<rparr>) = identity t"
  by (simp_all add: identity_def published_def)

lemma if_chain:
  "(if A then Some s else if B then x else if C then y else if D then z else Some s) = Some t \<Longrightarrow>
   t = s \<or> x = Some t \<or> y = Some t \<or> z = Some t"
  by (auto split: if_splits)

lemma on_udp_rx_app:
  assumes "on_udp_rx a ip sport dport buf s = Some t"
  shows "app_ok s t"
proof -
  consider "t = s" | "link_handle_rx a buf ip sport s = Some t"
    | "do { s \<leftarrow> measurement_handle_rx a buf ip sport s; Some (measurement_responder_handle_rx buf ip sport s) } = Some t"
    | "link_audio_handle_rx a buf ip sport s = Some t"
    using if_chain [OF assms [unfolded on_udp_rx_def]] by blast
  then show ?thesis
  proof cases
    case 2
    then show ?thesis by (intro app_ok_link link_handle_rx_ok)
  next
    case 3
    then obtain u where "measurement_handle_rx a buf ip sport s = Some u" "t = measurement_responder_handle_rx buf ip sport u"
      by (cases "measurement_handle_rx a buf ip sport s") simp_all
    then show ?thesis
      using link_ok_trans [OF measurement_handle_rx_ok measurement_responder_ok] by (blast intro: app_ok_link)
  next
    case 4
    then show ?thesis by (intro app_ok_audio link_audio_handle_rx_ok)
  qed simp
qed

lemma conn_inv_fresh: "on_accept x y = Some cs \<Longrightarrow> conn_inv cs"
  by (auto simp: on_accept_def fresh_conn_def conn_inv_def split: if_splits)

lemma parse_headers_inv:
  assumes "parse_headers cs = Some cs'" "conn_inv cs"
  shows "conn_inv cs'"
proof -
  let ?cs = "cs\<lparr>req_buf := (req_buf cs)[used cs := 0]\<rparr>"
  have cs: "conn_inv ?cs" using assms(2) by (simp add: conn_inv_def)
  show ?thesis
  proof (cases "strstr (req_buf ?cs) (crlf @ crlf)")
    case None
    with assms(1) cs show ?thesis by (auto simp: parse_headers_def Let_def split: if_splits)
  next
    case (Some eol)
    note d = strstr_SomeD [OF Some]
    have "eol + 4 \<le> length (c_str (req_buf ?cs))" using d(1) starts_with_length [OF d(2)] by simp
    also have "\<dots> \<le> REQ_BUF_MAX" using cs length_c_str [of "req_buf ?cs"] by (simp add: conn_inv_def)
    finally show ?thesis
      using assms(1) cs Some by (auto simp: parse_headers_def Let_def bind_eq_Some_conv conn_inv_def split: if_splits)
  qed
qed

lemma on_recv_app:
  assumes "on_recv web_call pcb ev cs s = Some (c, t)"
  shows "app_ok s t \<and> (conn_inv cs \<longrightarrow> (\<forall>cs'. c = Some cs' \<longrightarrow> conn_inv cs'))"
proof (cases ev)
  case (Segment p)
  let ?cs = "cs\<lparr>req_buf := take (used cs) (req_buf cs) @ p @ drop (used cs + length p) (req_buf cs), used := used cs + length p\<rparr>"
  show ?thesis
  proof (cases "REQ_BUF_MAX < used cs + length p")
    case True
    with assms Segment show ?thesis
      by (auto simp: on_recv_def bind_eq_Some_conv http_send_response_app)
  next
    case False
    then have cs: "conn_inv cs \<Longrightarrow> conn_inv ?cs" by (simp add: conn_inv_def)
    from assms Segment False obtain cs' where
      parsed: "(if have_headers ?cs then Some ?cs else parse_headers ?cs) = Some cs'"
      and rest: "c = Some cs' \<and> t = s \<or> c = None \<and> dispatch web_call pcb cs' s = Some t"
      by (auto simp: on_recv_def bind_eq_Some_conv Let_def split: if_splits)
    have "conn_inv cs \<Longrightarrow> conn_inv cs'"
      using cs parse_headers_inv [of ?cs cs'] parsed by (cases "have_headers ?cs") auto
    with rest show ?thesis using dispatch_app by auto
  qed
qed (use assms in \<open>simp add: on_recv_def\<close>)

lemma conns_update:
  assumes "main_ok s t" "s_conns t = s_conns s" "\<And>cs. firmware_inv s \<Longrightarrow> c = Some cs \<Longrightarrow> conn_inv cs"
  shows "main_ok s (t\<lparr>s_conns := (s_conns t)(pcb := c)\<rparr>)"
  using assms by (simp add: main_ok_def firmware_inv_def)

lemma net_deliver_ok: "net_deliver a ev s = Some t \<Longrightarrow> main_ok s t"
proof (cases ev)
  case (Udp data addr port)
  assume t: "net_deliver a ev s = Some t"
  show ?thesis
  proof (cases "s_user_cb s")
    case None
    with t Udp show ?thesis by (simp add: udp_rx_handler_def)
  next
    case (Some cb)
    then have "s_user_cb s = Some On_udp_rx" by (cases cb) simp
    with t Udp have "t = s \<or> (\<exists>ip. on_udp_rx a ip port LINK_DISCOVERY_PORT data s = Some t)"
      by (auto simp: udp_rx_handler_def Let_def split: if_splits)
    then show ?thesis using main_ok_app [OF on_udp_rx_app] by auto
  qed
next
  case (Tcp_accept pcb mem)
  assume "net_deliver a ev s = Some t"
  then show ?thesis using Tcp_accept conns_update [of s s "on_accept True mem" pcb] conn_inv_fresh by auto
next
  case (Tcp_recv pcb e)
  assume t: "net_deliver a ev s = Some t"
  show ?thesis
  proof (cases "s_conns s pcb")
    case None
    with t Tcp_recv show ?thesis by simp
  next
    case (Some cs)
    with t Tcp_recv obtain c u where u: "on_recv web_call pcb e cs s = Some (c, u)" "t = u\<lparr>s_conns := (s_conns u)(pcb := c)\<rparr>"
      by (auto simp: bind_eq_Some_conv)
    note app = on_recv_app [OF u(1)]
    have "webui_st.more u = webui_st.more s" using app by (simp add: app_ok_def)
    then have conns: "s_conns u = s_conns s" by (rule main_fields_cong)
    show ?thesis
      using conns_update [OF main_ok_app [OF conjunct1 [OF app]] conns, of c pcb] app Some
      unfolding u(2) by (simp add: firmware_inv_def)
  qed
next
  case (Xmit p)
  assume "net_deliver a ev s = Some t"
  with Xmit obtain e n where n: "low_level_output p (s_net s) = Some (e, n)" "t = s\<lparr>s_net := n\<rparr>"
    by (auto simp: bind_eq_Some_conv)
  then show ?thesis
    using low_level_output_driver [OF n(1)] low_level_output_queue [OF n(1)] by (simp add: main_ok_def firmware_inv_def)
qed

lemma fold_deliver_ok: "fold_option (net_deliver a) evs s = Some t \<Longrightarrow> main_ok s t"
  by (rule fold_option_inv [where P = "main_ok s" and f = "net_deliver a"]) (auto intro: main_ok_trans net_deliver_ok)

text \<open>The driver's loop carries the driver's state beside the rest.\<close>

definition join_net :: "netif_st \<times> 'a main_st_scheme \<Rightarrow> 'a main_st_scheme" where
  "join_net q = snd q\<lparr>s_net := fst q\<rparr>"

lemma ethernet_input_ok:
  assumes "ethernet_input a stack p n s = Some (e, n', s')"
  shows "main_ok (join_net (n, s)) (join_net (n', s'))"
proof -
  obtain evs where evs: "fold_option (net_deliver a) evs (join_net (n, s)) = Some s'" "n' = s_net s'"
    using assms by (auto simp: ethernet_input_def Let_def case_prod_beta bind_eq_Some_conv join_net_def)
  then show ?thesis using fold_deliver_ok [OF evs(1)] by (simp add: join_net_def)
qed

lemma ethernet_input_queue: "keeps_queue (ethernet_input a stack)"
  unfolding keeps_queue_def
proof (intro allI impI)
  fix p n s e n' s'
  assume "ethernet_input a stack p n s = Some (e, n', s')"
  from ethernet_input_ok [OF this] show "rx_queue n' = rx_queue n" by (simp add: main_ok_def join_net_def)
qed

lemma firmware_inv_net [simp]: "firmware_inv (join_net (n, s)) \<longleftrightarrow> driver_inv n \<and> app_inv s \<and>
    (\<forall>pcb cs. s_conns s pcb = Some cs \<longrightarrow> conn_inv cs) \<and> s_user_cb s = Some On_udp_rx"
  by (auto simp: firmware_inv_def join_net_def)

lemma input_frame_ok:
  assumes "input_frame pbuf_alloc (ethernet_input a stack) f n s = Some (n', s')" "firmware_inv (join_net (n, s))"
  shows "firmware_inv (join_net (n', s'))"
    "identity s' = identity s \<and> s_user_cb s' = s_user_cb s"
proof -
  let ?n = "n\<lparr>pbuf_allocs := Suc (pbuf_allocs n)\<rparr>"
  consider "n' = ?n\<lparr>rx_memerr := Suc (rx_memerr n)\<rparr>" "s' = s"
    | p e n'' where "ethernet_input a stack p ?n s = Some (e, n'', s')" "n' = n'' \<or> n' = n''\<lparr>pbufs_freed := Suc (pbufs_freed n'')\<rparr>"
    using assms(1) by (auto simp: input_frame_def Let_def bind_eq_Some_conv split: option.splits if_splits)
  then have "firmware_inv (join_net (n', s')) \<and> identity s' = identity s \<and> s_user_cb s' = s_user_cb s"
  proof cases
    case 1
    with assms(2) show ?thesis by simp
  next
    case (2 p e n'')
    have cb: "s_user_cb s = Some On_udp_rx" using assms(2) by simp
    have "firmware_inv (join_net (?n, s))" using assms(2) by simp
    with ethernet_input_ok [OF 2(1)] cb have "firmware_inv (join_net (n'', s'))" "identity s' = identity s"
      "s_user_cb s' = s_user_cb s"
      by (auto simp: main_ok_def simp del: firmware_inv_net) (auto simp: join_net_def)
    with 2(2) show ?thesis by auto
  qed
  then show "firmware_inv (join_net (n', s'))" "identity s' = identity s \<and> s_user_cb s' = s_user_cb s" by blast+
qed

lemma net_poll_inv:
  assumes "net_poll a w s = Some t" "firmware_inv s"
  shows "firmware_inv t \<and> identity t = identity s \<and> s_user_cb t = s_user_cb s"
proof -
  let ?P = "\<lambda>q. firmware_inv (join_net q) \<and> identity (snd q) = identity s \<and> s_user_cb (snd q) = s_user_cb s"
  let ?step = "\<lambda>f (n, s). map_option (apfst writer_ev_clear) (input_frame (poll_alloc w) (ethernet_input a (poll_stack w)) f n s)"
  obtain n u where u: "netif_litex_input (poll_alloc w) (ethernet_input a (poll_stack w)) (s_net s) s = Some (n, u)"
    and t: "fold_option (net_deliver a) (poll_timeouts w) (join_net (n, u)) = Some t"
    using assms(1) by (auto simp: net_poll_def bind_eq_Some_conv join_net_def)
  have "?P (n, u)"
  proof (rule fold_option_inv [where P = ?P])
    show "fold_option ?step (rx_queue (s_net s)) (s_net s, s) = Some (n, u)"
      using u unfolding netif_litex_input_fold [OF ethernet_input_queue] .
    show "?P (s_net s, s)" using assms(2) by (simp add: firmware_inv_def [of s])
    show "?P v" if pq: "?P q" and st: "?step f q = Some v" for f q v
    proof -
      obtain m x where q: "q = (m, x)" by (cases q)
      obtain m' x' where v: "input_frame (poll_alloc w) (ethernet_input a (poll_stack w)) f m x = Some (m', x')"
        "v = (writer_ev_clear m', x')"
        using st q by (auto simp: apfst_def map_prod_def split: prod.splits)
      from input_frame_ok [OF v(1)] pq show ?thesis by (simp add: q v(2) del: firmware_inv_net) simp
    qed
  qed
  then show ?thesis using fold_deliver_ok [OF t] by (simp add: main_ok_def del: firmware_inv_net) (simp add: join_net_def)
qed

section \<open>A pass, the boot, and every run\<close>

lemma tdm_fields_ok: "audio_ok s (s\<lparr>tdm_accesses := k\<rparr>)" "audio_ok s (s\<lparr>s_last_count := c\<rparr>)"
  by (simp_all add: audio_ok_def published_def audio_inv_def tx_inv_def core_def meas_st.truncate_def)

lemma frame_pending_ok: "audio_ok s (snd (tdm_frame_pending port s))"
  using tdm_fields_ok(1) [of s "Suc (tdm_accesses s)"]
  by (simp add: tdm_frame_pending_def tdm_frame_count_def tdm_access_def Let_def)

lemma clear_pending_ok: "audio_ok s (tdm_clear_frame_pending port s)"
proof -
  have "audio_ok s (s\<lparr>tdm_accesses := k, s_last_count := c\<rparr>)" for k c
    using audio_ok_trans [OF tdm_fields_ok(1) tdm_fields_ok(2)] .
  then show ?thesis by (simp add: tdm_clear_frame_pending_def tdm_frame_count_def tdm_access_def Let_def)
qed

lemma serve_port_app:
  assumes "serve_port port s = Some t" "app_inv s"
  shows "app_ok s t"
proof -
  let ?u = "snd (tdm_frame_pending port s)"
  have u: "app_ok s ?u" by (rule app_ok_audio [OF frame_pending_ok])
  show ?thesis
  proof (cases "fst (tdm_frame_pending port s)")
    case False
    with assms(1) u show ?thesis by (simp add: serve_port_def case_prod_beta)
  next
    case True
    then obtain v where v: "link_audio_on_tdm_frame port ?u = Some v" "t = tdm_clear_frame_pending port v"
      using assms(1) by (auto simp: serve_port_def case_prod_beta bind_eq_Some_conv)
    have "audio_inv ?u" using u assms(2) by (simp add: app_ok_def app_inv_def)
    with v show ?thesis
      using app_ok_trans [OF u app_ok_audio [OF audio_ok_trans [OF on_tdm_frame_ok clear_pending_ok]]] by blast
  qed
qed

lemma loop_pass_inv:
  assumes "loop_pass a w s = Some t" "firmware_inv s"
  shows "firmware_inv t \<and> identity t = identity s"
proof -
  obtain s1 where s1: "net_poll a w s = Some s1"
    and rest: "do { s \<leftarrow> midi_tick (link_audio_tick (session_tick (link_tick s1))); s \<leftarrow> euro_tick s;
        fold_option serve_port [0..<LINK_NUM_TDM_PORTS] s } = Some t"
    using assms(1) by (auto simp: loop_pass_def bind_eq_Some_conv Let_def)
  let ?s2 = "link_audio_tick (session_tick (link_tick s1))"
  obtain s3 s4 where s3: "midi_tick ?s2 = Some s3" and s4: "euro_tick s3 = Some s4"
    and t: "fold_option serve_port [0..<LINK_NUM_TDM_PORTS] s4 = Some t"
    using rest by (auto simp: bind_eq_Some_conv)
  have "app_ok s1 ?s2"
    by (rule app_ok_trans [OF app_ok_trans [OF app_ok_link app_ok_link] app_ok_audio])
      (rule link_tick_ok session_tick_ok link_audio_tick_ok)+
  also note midi_tick_app [OF s3]
  also note euro_tick_app [OF s4]
  finally have s4': "app_ok s1 s4" .
  have f1: "firmware_inv s1" "identity s1 = identity s" using net_poll_inv [OF s1 assms(2)] by simp_all
  then have "app_inv s4" using s4' by (simp add: app_ok_def firmware_inv_def)
  then have "app_ok s4 t \<and> app_inv t"
    by (intro fold_option_inv [where P = "\<lambda>v. app_ok s4 v \<and> app_inv v", OF _ _ t])
      (auto intro: app_ok_trans serve_port_app simp: app_ok_def [of _ t], meson app_ok_def serve_port_app)
  then have "main_ok s1 t" using main_ok_app [OF app_ok_trans [OF s4']] by blast
  then show ?thesis using f1 by (simp add: main_ok_def)
qed

lemma prng_bytes_frame:
  "meas_st.more (snd (prng_bytes n s)) = meas_st.more s \<and> meas (snd (prng_bytes n s)) = meas s \<and>
   bp_flags (snd (prng_bytes n s)) = bp_flags s \<and> s_flags (snd (prng_bytes n s)) = s_flags s"
  by (induction n arbitrary: s) (simp_all add: prng_byte_def Let_def case_prod_beta host_time_us_eq)

lemma link_init_frame: "meas_st.more (link_init s) = meas_st.more s" "meas (link_init s) = meas s"
  using prng_bytes_frame [of 8 s] by (simp_all add: link_init_def Let_def case_prod_beta ghost_time_us_eq host_time_us_eq)

lemma link_init_core: "flags_inv s \<Longrightarrow> meas_inv (meas s) \<Longrightarrow> core_inv (link_init s)"
proof -
  assume flags: "flags_inv s" and meas: "meas_inv (meas s)"
  let ?u = "snd (prng_bytes 8 s)"
  have "flags_inv ?u" using flags prng_bytes_frame [of 8 s] by (simp add: flags_inv_def)
  then have f: "flags_inv (link_init s)"
    unfolding link_init_def Let_def case_prod_beta by (intro load_timeline_inv) (simp add: flags_inv_def ghost_time_us_eq host_time_us_eq)
  have "link_peers (link_init s) = replicate LINK_MAX_PEERS zero_peer"
    by (simp add: link_init_def Let_def case_prod_beta ghost_time_us_eq host_time_us_eq)
  then have "peers_inv (link_init s)" by (simp add: peers_inv_def distinct_keys_def zero_peer_def)
  with f meas show ?thesis by (simp add: core_inv_def link_init_frame)
qed

lemma link_audio_init_more: "audio_st.more (link_audio_init s) = audio_st.more s"
  "link_audio_remote (link_audio_init s) = replicate LINK_AUDIO_MAX_REMOTE zero_remote"
proof -
  let ?step = "\<lambda>(port, ch) (idx, s). if idx < MAX_LOCAL_CHANNELS then (idx + 1, init_local idx port ch s) else (idx, s)"
  have "audio_st.more (snd (fold ?step xs q)) = audio_st.more (snd q) \<and>
      link_audio_remote (snd (fold ?step xs q)) = link_audio_remote (snd q)"
    for xs and q :: "nat \<times> 'a audio_st_scheme"
    by (rule fold_inv [where P = "\<lambda>r. audio_st.more (snd r) = audio_st.more (snd q) \<and>
          link_audio_remote (snd r) = link_audio_remote (snd q)"])
      (auto simp: init_local_def random_id_def Let_def host_time_us_eq)
  then show "audio_st.more (link_audio_init s) = audio_st.more s"
    "link_audio_remote (link_audio_init s) = replicate LINK_AUDIO_MAX_REMOTE zero_remote"
    by (simp_all add: link_audio_init_def Let_def case_prod_beta)
qed

lemma net_init_driver:
  assumes "length (slot_ram n) = ETHMAC_SLOT_SIZE * (ETHMAC_RX_SLOTS + ETHMAC_TX_SLOTS)" "tx_started n = []"
  shows "driver_inv (net_init n)"
proof -
  let ?t = "net_init n"
  have "tx_started ?t = []" "netif_inv ?t"
    using assms by (simp_all add: net_init_def netif_litex_bringup_def netif_litex_init_def low_level_init_def lwip_do_def
        writer_ev_clear_def Let_def netif_inv_def)
  then show ?thesis using flight_inv_start by (simp add: driver_inv_def)
qed

lemma fold_xmit:
  assumes "fold_option (\<lambda>p. net_deliver a (Xmit p)) ps s = Some t" "driver_inv (s_net s)"
  shows "\<exists>n. t = s\<lparr>s_net := n\<rparr> \<and> driver_inv n"
proof -
  have "(\<exists>n. t = s\<lparr>s_net := n\<rparr>) \<and> driver_inv (s_net t)"
    using assms(1)
  proof (rule fold_option_inv [where P = "\<lambda>t. (\<exists>n. t = s\<lparr>s_net := n\<rparr>) \<and> driver_inv (s_net t)", rotated 2])
    show "(\<exists>n. s = s\<lparr>s_net := n\<rparr>) \<and> driver_inv (s_net s)"
      using assms(2) by (auto intro: exI [of _ "s_net s"])
  next
    fix p u v
    assume "(\<exists>n. u = s\<lparr>s_net := n\<rparr>) \<and> driver_inv (s_net u)" "net_deliver a (Xmit p) u = Some v"
    then show "(\<exists>n. v = s\<lparr>s_net := n\<rparr>) \<and> driver_inv (s_net v)"
      by (auto simp: bind_eq_Some_conv dest: low_level_output_driver)
  qed
  then show ?thesis by auto
qed

lemma padded_name_short: "length (c_str (bytes ''linkfpga'' @ replicate 24 0)) < 32"
  using c_str_padded [of "bytes ''linkfpga''" 24] by simp

text \<open>The modules' initialisation, in the order of \<open>link_app_main\<close>.\<close>

lemma boot_inv:
  assumes "power_on s" "boot a ps s = Some t"
  shows "firmware_inv t"
proof -
  have net: "driver_inv (net_init (s_net s))" using assms(1) by (simp add: power_on_def net_init_driver)
  let ?s = "s\<lparr>s_net := net_init (s_net s)\<rparr>"
  obtain u where u: "fold_option (\<lambda>p. net_deliver a (Xmit p)) ps ?s = Some u"
    and t: "t = link_broadcast_alive_now (webui_init (http_init (euro_init (midi_init (link_audio_init (link_init
      (tdm_init (beat_pulse_init (net_set_rx_callback On_udp_rx u)))))))))"
    using assms(2) by (auto simp: boot_def bind_eq_Some_conv Let_def)
  have "driver_inv (s_net ?s)" using net by simp
  from fold_xmit [OF u this] obtain n where n: "u = s\<lparr>s_net := n\<rparr>" "driver_inv n" by auto
  let ?a = "tdm_init (beat_pulse_init (net_set_rx_callback On_udp_rx u))"
  have a: "tx_inv ?a" "meas ?a = zero_state" "s_peer_name ?a = bytes ''linkfpga'' @ replicate 24 0" "flags_inv ?a"
    "s_resp_buf ?a = replicate RESP_BUF 0" "webui_name ?a = bytes ''linkfpga'' @ replicate 24 0"
    "midi_tx_fifo ?a = []" "s_conns ?a = (\<lambda>_. None)" "s_net ?a = n" "s_user_cb ?a = Some On_udp_rx"
    using assms(1) beat_pulse_init_inv [of "net_set_rx_callback On_udp_rx u"] n(1)
    by (simp_all add: power_on_def net_set_rx_callback_def beat_pulse_init_def tdm_init_def flags_write_def Let_def tx_inv_def
        flags_inv_def)
  let ?l = "link_init ?a"
  note l = audio_fields_cong [OF link_init_frame(1) [of ?a]]
  have core: "core_inv ?l" using a(2,4) by (intro link_init_core) (simp_all add: meas_inv_def zero_state_def)
  let ?d = "link_audio_init ?l"
  have d: "core_inv ?d" "audio_inv ?d" "names_inv ?d" "short_names (link_audio_remote ?d)"
  proof -
    show "core_inv ?d" using core core_inv_cong [OF link_audio_init_core] by blast
    show "audio_inv ?d" using a(1) l by (intro link_audio_init_inv) (simp add: tx_inv_def)
    show "names_inv ?d" using a(3) l padded_name_short by (intro link_audio_init_names) (simp_all add: audio_consts)
    show "short_names (link_audio_remote ?d)"
      by (simp add: link_audio_init_more short_names_def zero_remote_def audio_consts)
  qed
  have more: "audio_st.more ?d = audio_st.more ?a" using link_audio_init_more(1) l(7) by metis
  note midi = midi_fields_cong [OF more] and up = http_fields_cong(2) [OF euro_fields_cong(2) [OF midi_fields_cong(5) [OF more]]]
  note main = main_fields_cong [OF web_fields_cong(3) [OF up]]
  let ?w = "webui_init (http_init (euro_init (midi_init ?d)))"
  have w: "?w = (euro_init (midi_init ?d))\<lparr>s_routes := map route_of documented\<rparr>" by (rule webui_routes)
  have "app_inv ?w"
    using d midi(2) a(5-7) web_fields_cong(1,2) [OF up] padded_name_short
    unfolding w by (simp add: app_defs euro_init_def midi_init_def midi_inv_def)
  moreover have "s_conns ?w = (\<lambda>_. None)" "s_net ?w = n" "s_user_cb ?w = Some On_udp_rx"
    unfolding w using a(8-10) main by (simp_all add: euro_init_def midi_init_def)
  ultimately have "firmware_inv ?w" using n(2) by (simp add: firmware_inv_def)
  then show ?thesis
    using main_ok_app [OF app_ok_link [OF broadcast_ok [of ?w]]] unfolding t by (simp add: main_ok_def)
qed

lemma main_step_inv:
  assumes "main_step a s t" "firmware_inv s"
  shows "firmware_inv t \<and> identity t = identity s"
  using assms(1)
proof (cases rule: main_step.cases)
  case (Pass w)
  then show ?thesis using loop_pass_inv [OF _ assms(2)] by blast
next
  case (Midi_sent k)
  have "length (midi_tx_fifo s) - k \<le> 64"
    by (rule le_trans [OF diff_le_self]) (use assms(2) in \<open>simp add: firmware_inv_def app_inv_def midi_inv_def\<close>)
  with Midi_sent assms(2) show ?thesis by (simp add: firmware_inv_def app_defs midi_inv_def)
qed (use assms(2) in \<open>simp_all add: firmware_inv_def app_defs midi_inv_def\<close>)

lemma reachable_inv: "reachable a s \<Longrightarrow> firmware_inv s"
  by (induction rule: reachable.induct) (blast intro: boot_inv, simp add: main_step_inv)

end
