(* ===== verification/Audio_Exchange.thy ===== *)
theory Audio_Exchange
  imports Witnesses
begin

text \<open>
  What one node's Link-Audio messages do at another: audio buffers into the jitter ring, channel
  requests into the list of subscribers, announcements into the catalogue, byes out of it.
\<close>

section \<open>Audio buffers\<close>

lemma length_audio_header [simp]: "length (encode_audio_header m ttl s) = 20"
  by (simp add: encode_audio_header_def)

lemma audio_header_fields [simp]:
  "take 8 (encode_audio_header m ttl s @ rest) = kProtoAudio"
  "(encode_audio_header m ttl s @ rest) ! 8 = m"
  "id_of_bytes (drop 12 (encode_audio_header m ttl s @ rest)) = link_self_id s"
  "drop 20 (encode_audio_header m ttl s @ rest) = rest"
  by (simp_all add: encode_audio_header_def nth_append kProtoAudio_def)

text \<open>A message of another node, past the header checks.\<close>

lemma audio_message_dispatch:
  assumes "link_self_id u \<noteq> link_self_id s"
  shows "link_audio_handle_rx a (encode_audio_header m ttl u @ body) ip port s =
     (if m = 1 then do {
        (_, ctx, s) \<leftarrow> tlv_walk (a + 20) ann_handler body
          (\<lparr>ping_ht = 0, have_ping = False, peer_id = link_self_id u, peer_addr = ip, peer_port = port,
            peer_name = replicate LINK_AUDIO_NAME_MAX 0\<rparr>, s);
        Some (if have_ping ctx then send_pong ip port (ping_ht ctx) s else s)
      }
      else if m = 2 then do { (_, s) \<leftarrow> tlv_walk (a + 20) handle_aucb_entry body s; Some s }
      else if m = 3 then Some s
      else if m = 4 \<or> m = 5 then handle_channel_request m (link_self_id u) ip port (a + 20) body s
      else if m = 6 then handle_audio_buffer body (of_nat (length body)) s
      else Some s)"
proof -
  let ?buf = "encode_audio_header m ttl u @ body"
  have len: "\<not> length ?buf < 8 + 12" "length ?buf - 20 = length body" by simp_all
  have proto: "\<not> memcmp (take 8 ?buf) kProtoAudio \<noteq> 0" unfolding audio_header_fields by (simp add: kProtoAudio_def)
  have own: "id_cmp (link_self_id u) (link_self_id s) \<noteq> 0" using assms by simp
  show ?thesis
    unfolding link_audio_handle_rx_def Let_def len(2) if_not_P [OF len(1)] if_not_P [OF proto]
      audio_header_fields(2-4) if_not_P [OF own] ..
qed

lemma concat_put_be16:
  "k < length xs \<Longrightarrow> drop (2 * k) (concat (map put_be16 xs) @ rest) =
   put_be16 (xs ! k) @ concat (map put_be16 (drop (Suc k) xs)) @ rest"
proof (induction xs arbitrary: k)
  case (Cons x xs)
  show ?case
  proof (cases k)
    case (Suc j)
    then have "drop (2 * k) (concat (map put_be16 (x # xs)) @ rest) = drop (2 * j) (concat (map put_be16 xs) @ rest)"
      by (simp add: put_be16_def)
    then show ?thesis using Suc Cons by simp
  qed simp
qed simp

lemma length_concat_put_be16 [simp]: "length (concat (map put_be16 xs)) = 2 * length xs"
  by (induction xs) simp_all

lemma store_samples_all:
  assumes "n \<le> length xs"
  shows "store_samples (concat (map put_be16 xs)) 1 n b = Some (fold jbuf_push (take n xs) b)"
  using assms
proof (induction n)
  case (Suc n)
  then have "drop (2 * n) (concat (map put_be16 xs) @ []) =
      put_be16 (xs ! n) @ concat (map put_be16 (drop (Suc n) xs)) @ []"
    by (intro concat_put_be16) simp
  then have "be16 (drop (n * 2) (concat (map put_be16 xs))) = xs ! n"
    by (simp add: mult.commute [of n])
  moreover have "store_samples (concat (map put_be16 xs)) 1 n b = Some (fold jbuf_push (take n xs) b)"
    using Suc by simp
  ultimately show ?case
    using Suc.prems unfolding store_samples_def
    by (simp add: fold_option_append Let_def take_Suc_conv_app_nth)
qed (simp add: store_samples_def)

lemma samples_written:
  "length xs = AUDIO_FRAMES_PER_PKT \<Longrightarrow>
   concat (map (\<lambda>i. put_be16 (xs ! i)) [0..<AUDIO_FRAMES_PER_PKT]) = concat (map put_be16 xs)"
proof -
  assume "length xs = AUDIO_FRAMES_PER_PKT"
  then have "map (\<lambda>i. put_be16 (xs ! i)) [0..<AUDIO_FRAMES_PER_PKT] = map put_be16 xs"
    by (intro nth_equalityI) simp_all
  then show ?thesis by (rule arg_cong)
qed

lemma handle_audio_buffer_accepted:
  assumes "be32 (drop 16 p) = 1" "chunk_frames 1 (drop 20 p) 162 0 = Some (q, 136, 64)"
    "q ! 0 = 1" "q ! 5 = 1" "be16 (drop 6 q) = 128" "8 \<le> length q"
    "id_cmp (id_of_bytes (drop 8 p)) (link_self_session s) = 0"
  shows "handle_audio_buffer p 182 s = (case find_sub_for_channel (id_of_bytes p) s of None \<Rightarrow> Some s
      | Some k \<Rightarrow> do {
          b \<leftarrow> store_samples (drop 8 q) 1 64 ((link_audio_subs s ! k)\<lparr>num_chan_remote := 1\<rparr>);
          Some (s\<lparr>link_audio_subs := (link_audio_subs s)[k := b\<lparr>last_count := last_count b + 1\<rparr>]\<rparr>)
        })"
  using assms by (simp add: handle_audio_buffer_def Let_def split: option.split)

text \<open>The body of a packet is received as the samples put into the subscription of its channel.\<close>

lemma audio_body_received:
  assumes "id_cmp session (link_self_session s) = 0" "find_sub_for_channel channel s = Some k"
    "length smp = AUDIO_FRAMES_PER_PKT"
  shows "handle_audio_buffer (audio_body channel session cnt beats bp smp) 182 s =
    Some (s\<lparr>link_audio_subs := (link_audio_subs s)[k :=
      (let b = fold jbuf_push smp ((link_audio_subs s ! k)\<lparr>num_chan_remote := 1\<rparr>)
       in b\<lparr>last_count := last_count b + 1\<rparr>)]\<rparr>)"
proof -
  let ?data = "concat (map put_be16 smp)"
  let ?tail = "[1] @ put_be32 48000 @ [1] @ put_be16 128 @ ?data"
  let ?chunk = "put_be64 cnt @ put_be16 64 @ put_be64 beats @ put_be64 bp @ ?tail"
  let ?p = "audio_body channel session cnt beats bp smp"
  have p: "?p = id_bytes channel @ id_bytes session @ put_be32 1 @ ?chunk"
    unfolding audio_body_def Let_def samples_written [OF assms(3)]
    by (simp add: audio_consts LINK_TDM_FS_HZ_def)
  have ids: "id_of_bytes ?p = channel" "id_of_bytes (drop 8 ?p) = session" "be32 (drop 16 ?p) = 1"
    "drop 20 ?p = ?chunk"
    by (simp_all add: p)
  have chunk: "chunk_frames 1 ?chunk 162 0 = Some (?tail, 136, 64)"
    by (simp add: put_be16_def put_be32_def put_be64_def be16_def)
  have tail: "?tail ! 0 = 1" "?tail ! 5 = 1" "be16 (drop 6 ?tail) = 128" "drop 8 ?tail = ?data" "8 \<le> length ?tail"
    using be16_put [of 128 ?data] by (simp_all add: put_be32_def)
  have store: "store_samples ?data 1 64 b = Some (fold jbuf_push smp b)" for b
    using store_samples_all [of 64 smp b] assms(3) by (simp add: audio_consts)
  show ?thesis
    using handle_audio_buffer_accepted [of ?p ?tail s] ids chunk tail assms(1,2) store
    by (simp only: option.case bind.bind_lunit Let_def)
qed

definition audio_packet :: "nat \<Rightarrow> u16 list \<Rightarrow> i64 \<Rightarrow> 'a audio_st_scheme \<Rightarrow> u8 list" where
  "audio_packet k smp beats u =
     (let c = link_audio_local u ! k
      in encode_audio_header 6 0 u @ audio_body (loc_channel_id c) (link_self_session u) (next_send_count c) beats
           (tempo_us_per_beat (link_self_timeline u)) smp)"

lemma fold_sends:
  fixes s :: "'a hw_scheme"
  shows "fold (\<lambda>j s. snd (net_udp_send_v4_unicast (f j) (g j) q buf s)) js s =
    s\<lparr>net_log := net_log (fold (\<lambda>j s. logged (sent_to (ip4_of (f j)) (g j) q buf) s) js s)\<rparr> \<and>
    sent (fold (\<lambda>j s. snd (net_udp_send_v4_unicast (f j) (g j) q buf s)) js s) =
      sent s @ map (\<lambda>j. sent_to (ip4_of (f j)) (g j) q buf) js"
proof (induction js arbitrary: s)
  case (Cons j js)
  show ?case using Cons.IH [of "logged (sent_to (ip4_of (f j)) (g j) q buf) s"]
    by (auto simp: logged_def)
qed simp

lemma send_audio_packet:
  assumes "send_audio_buffer_for k smp u = Some v" "num_subscribers (link_audio_local u ! k) \<noteq> 0"
  obtains beats where
    "sent v = sent u @ map (\<lambda>x. sent_to (ip4_of (fst x)) (fst (snd x)) LINK_DISCOVERY_PORT (audio_packet k smp beats u))
       (subscribers (link_audio_local u ! k))"
proof -
  let ?c = "link_audio_local u ! k"
  from assms obtain b where v: "v = fold (\<lambda>j s. snd (net_udp_send_v4_unicast (sub_addr ?c ! j)
      (sub_port ?c ! j) LINK_DISCOVERY_PORT
      (audio_packet k smp (beat_origin_microbeats (link_self_timeline u) + b) u) s)) [0..<num_subscribers ?c]
      (u\<lparr>n_reads := n_reads u + 3, link_audio_local := (link_audio_local u)[k :=
         ?c\<lparr>next_send_count := next_send_count ?c + 1\<rparr>]\<rparr>)"
    by (auto simp: send_audio_buffer_for_def Let_def ghost_time_us_eq bind_eq_Some_conv audio_packet_def
        encode_audio_header_def)
  have "sent v = sent u @ map (\<lambda>j. sent_to (ip4_of (sub_addr ?c ! j)) (sub_port ?c ! j) LINK_DISCOVERY_PORT
      (audio_packet k smp (beat_origin_microbeats (link_self_timeline u) + b) u)) [0..<num_subscribers ?c]"
    unfolding v by (subst conjunct2 [OF fold_sends]) simp
  then show thesis
    by (intro that [of "beat_origin_microbeats (link_self_timeline u) + b"]) (simp add: subscribers_def subscriber_def)
qed

lemma length_audio_packet: "length smp = AUDIO_FRAMES_PER_PKT \<Longrightarrow> length (audio_packet k smp beats u) = 202"
  by (simp add: audio_packet_def audio_body_def Let_def samples_written) (simp add: audio_consts)

lemma audio_packet_received:
  assumes "link_self_id u \<noteq> link_self_id s" "link_self_session u = link_self_session s"
    "find_sub_for_channel (loc_channel_id (link_audio_local u ! k)) s = Some j" "length smp = AUDIO_FRAMES_PER_PKT"
  shows "link_audio_handle_rx a (audio_packet k smp beats u) ip port s =
    Some (s\<lparr>link_audio_subs := (link_audio_subs s)[j :=
      (let b = fold jbuf_push smp ((link_audio_subs s ! j)\<lparr>num_chan_remote := 1\<rparr>)
       in b\<lparr>last_count := last_count b + 1\<rparr>)]\<rparr>)"
proof -
  let ?c = "link_audio_local u ! k"
  let ?body = "audio_body (loc_channel_id ?c) (link_self_session u) (next_send_count ?c) beats
      (tempo_us_per_beat (link_self_timeline u)) smp"
  have buf: "audio_packet k smp beats u = encode_audio_header 6 0 u @ ?body" by (simp add: audio_packet_def Let_def)
  have len: "length ?body = 182" using length_audio_packet [OF assms(4), of k beats u] by (simp add: buf)
  have "link_audio_handle_rx a (encode_audio_header 6 0 u @ ?body) ip port s = handle_audio_buffer ?body 182 s"
    unfolding audio_message_dispatch [OF assms(1)] len by simp
  also have "\<dots> = Some (s\<lparr>link_audio_subs := (link_audio_subs s)[j :=
      (let b = fold jbuf_push smp ((link_audio_subs s ! j)\<lparr>num_chan_remote := 1\<rparr>)
       in b\<lparr>last_count := last_count b + 1\<rparr>)]\<rparr>)"
    using assms(2-4) by (intro audio_body_received) simp_all
  finally show ?thesis unfolding buf .
qed

lemma pending_update [simp]:
  "pending (b\<lparr>num_chan_remote := x\<rparr>) = pending b" "pending (b\<lparr>last_count := y\<rparr>) = pending b"
  by (simp_all add: pending_def)

text \<open>
  C10: Every subscriber of a local channel is sent the same 202-byte packet, and a node of the same
  session that subscribes to the channel receives it as exactly the 64 samples captured, in order: its
  jitter ring then holds the latest 1024 of the samples waiting and the new ones, and no other
  subscription changes.
\<close>

theorem audio_exchange:
  assumes "send_audio_buffer_for k smp u = Some v" "num_subscribers (link_audio_local u ! k) \<noteq> 0"
    "length smp = AUDIO_FRAMES_PER_PKT"
    "link_self_id u \<noteq> link_self_id s" "link_self_session u = link_self_session s"
    "find_sub_for_channel (loc_channel_id (link_audio_local u ! k)) s = Some j"
    "ring_inv (link_audio_subs s ! j)"
  shows "\<exists>buf t. sent v = sent u @
      map (\<lambda>x. sent_to (ip4_of (fst x)) (fst (snd x)) LINK_DISCOVERY_PORT buf) (subscribers (link_audio_local u ! k)) \<and>
    length buf = 202 \<and> link_audio_handle_rx a buf ip port s = Some t \<and>
    pending (link_audio_subs t ! j) = latest 1024 (pending (link_audio_subs s ! j) @ smp) \<and>
    (\<forall>i. i \<noteq> j \<longrightarrow> link_audio_subs t ! i = link_audio_subs s ! i)"
proof -
  obtain beats where log: "sent v = sent u @ map (\<lambda>x. sent_to (ip4_of (fst x)) (fst (snd x)) LINK_DISCOVERY_PORT
      (audio_packet k smp beats u)) (subscribers (link_audio_local u ! k))"
    using assms(1,2) by (rule send_audio_packet)
  let ?b = "fold jbuf_push smp ((link_audio_subs s ! j)\<lparr>num_chan_remote := 1\<rparr>)"
  let ?t = "s\<lparr>link_audio_subs := (link_audio_subs s)[j := ?b\<lparr>last_count := last_count ?b + 1\<rparr>]\<rparr>"
  have j: "j < length (link_audio_subs s)"
    using assms(6) unfolding find_sub_for_channel_def by (rule find_index_bound)
  have rx: "link_audio_handle_rx a (audio_packet k smp beats u) ip port s = Some ?t"
    using audio_packet_received [OF assms(4-6,3)] by (simp add: Let_def)
  have "pending ?b = latest 1024 (pending (link_audio_subs s ! j) @ smp)"
    using jring.push_all [of "(link_audio_subs s ! j)\<lparr>num_chan_remote := 1\<rparr>" smp] assms(7)
    by (simp add: audio_consts)
  with log rx j length_audio_packet [OF assms(3)] show ?thesis
    by (intro exI [of _ "audio_packet k smp beats u"] exI [of _ ?t]) simp
qed

section \<open>Channel requests\<close>

lemma chid_entry_received:
  "unat a + 24 < 2 ^ 32 \<Longrightarrow>
   tlv_walk a handle_chid_entry (tlv_entry (KEY_CHID, id_bytes i)) out = Some (0, i)"
proof -
  assume a: "unat a + 24 < 2 ^ 32"
  have "tlv_walk a handle_chid_entry (tlv_payload [(KEY_CHID, id_bytes i)]) out =
      tlv_fold handle_chid_entry [(KEY_CHID, id_bytes i)] out"
    by (rule walk_payload_local) (use a in \<open>simp_all add: handle_chid_entry_def\<close>)
  then show ?thesis by (simp add: handle_chid_entry_def)
qed

lemma handle_channel_request_received:
  assumes "unat a + 24 < 2 ^ 32" "find_local_channel cid s = Some k"
  shows "handle_channel_request m i ip port a (tlv_entry (KEY_CHID, id_bytes cid)) s =
    Some (s\<lparr>link_audio_local := (link_audio_local s)[k :=
      (if m = 4 then add_subscriber i ip port (link_audio_local s ! k)
       else remove_subscriber ip port (link_audio_local s ! k))]\<rparr>)"
  by (simp add: handle_channel_request_def chid_entry_received [OF assms(1)] assms(2) Let_def)

lemma channel_request_sent:
  "sent (send_channel_request m addr port cid u) = sent u @ [sent_to (ip4_of addr) port LINK_DISCOVERY_PORT
     (encode_audio_header m 5 u @ tlv_entry (KEY_CHID, id_bytes cid))]"
  by (simp add: send_channel_request_def Let_def tlv_emit_bytes_entry AUDIO_REQUEST_TTL_MS_def)

text \<open>A stop from an endpoint that is not in the list changes nothing, and no tick ever drops a subscriber.\<close>

lemma remove_subscriber_unknown:
  assumes "(ip, port) \<notin> set (map endpoint (subscribers c))"
  shows "remove_subscriber ip port c = c"
proof -
  have "find_index (is_endpoint ip port c) [0..<num_subscribers c] = None"
    using assms by (auto simp: find_index_None is_endpoint_subscriber subscribers_def)
  then show ?thesis by (simp add: remove_subscriber_def)
qed

lemma link_audio_tick_local: "link_audio_local (link_audio_tick s) = link_audio_local s"
proof -
  have again: "link_audio_local (rerequest now k t) = link_audio_local t" for now k and t :: "'a audio_st_scheme"
    by (simp add: rerequest_def Let_def send_channel_request_def logged_def)
  have fold: "link_audio_local (fold (rerequest now) ks t) = link_audio_local t" for now ks and t :: "'a audio_st_scheme"
    by (rule fold_inv [where P = "\<lambda>u. link_audio_local u = link_audio_local t"]) (simp_all add: again)
  have encoded: "link_audio_local (snd (encode_peer_announcement first t)) = link_audio_local t" for first and t :: "'a audio_st_scheme"
    by (simp add: encode_peer_announcement_def Let_def case_prod_beta host_time_us_eq)
  have "link_audio_local (announce_to ps first t) = link_audio_local t" for ps first and t :: "'a audio_st_scheme"
  proof (induction ps arbitrary: first t)
    case (Cons p ps)
    then show ?case using encoded by (simp add: Let_def case_prod_beta logged_def)
  qed simp
  then show ?thesis
    by (simp add: link_audio_tick_def host_time_us_eq Let_def fold send_announcements_def)
qed

text \<open>
  C27: A channel request sent to the owner of a channel adds the endpoint its datagram came from, with
  the identifier of its sender, to the channel's subscribers, once per endpoint and up to eight; a stop
  request removes the endpoint it came from and keeps the order of the others. No other channel
  changes. A stop from an endpoint that is not in the list removes nobody, even where its identifier
  is that of a subscriber, and no later tick removes anybody: against the specification (section 9.7)
  the identifier and the lifetime of a request play no part.
\<close>

theorem channel_request_exchange:
  assumes "link_self_id u \<noteq> link_self_id s" "subs_inv (link_audio_local s ! k)"
    "find_local_channel cid s = Some k" "unat a + 44 < 2 ^ 32" "m = 4 \<or> m = 5"
  shows "\<exists>buf t. sent (send_channel_request m addr dport cid u) = sent u @ [sent_to (ip4_of addr) dport LINK_DISCOVERY_PORT buf] \<and>
    link_audio_handle_rx a buf ip port s = Some t \<and>
    subscribers (link_audio_local t ! k) =
      (if m = 4 then add_spec (link_self_id u) ip port (subscribers (link_audio_local s ! k))
       else remove_spec ip port (subscribers (link_audio_local s ! k))) \<and>
    subs_inv (link_audio_local t ! k) \<and>
    (\<forall>j. j \<noteq> k \<longrightarrow> link_audio_local t ! j = link_audio_local s ! j) \<and>
    (m = 5 \<and> (ip, port) \<notin> set (map endpoint (subscribers (link_audio_local s ! k))) \<longrightarrow> t = s) \<and>
    link_audio_local (link_audio_tick t) = link_audio_local t"
proof -
  let ?buf = "encode_audio_header m 5 u @ tlv_entry (KEY_CHID, id_bytes cid)"
  let ?c = "if m = 4 then add_subscriber (link_self_id u) ip port (link_audio_local s ! k)
      else remove_subscriber ip port (link_audio_local s ! k)"
  have k: "k < length (link_audio_local s)"
    using assms(3) unfolding find_local_channel_def by (rule find_index_bound)
  have "unat (a + 20) + 24 < 2 ^ 32"
    using assms(4) by (subst unat_add_small) simp_all
  note recv = handle_channel_request_received [OF this assms(3), of m "link_self_id u" ip port]
  have "m \<noteq> 1 \<and> m \<noteq> 2 \<and> m \<noteq> 3" using assms(5) by auto
  with assms(5) have rx: "link_audio_handle_rx a ?buf ip port s = Some (s\<lparr>link_audio_local := (link_audio_local s)[k := ?c]\<rparr>)"
    unfolding audio_message_dispatch [OF assms(1)] recv by simp
  have c: "subs_inv ?c" "subscribers ?c =
      (if m = 4 then add_spec (link_self_id u) ip port (subscribers (link_audio_local s ! k))
       else remove_spec ip port (subscribers (link_audio_local s ! k)))"
    using assms(2) by (simp_all add: add_subscriber_inv remove_subscriber_inv add_subscriber_refines remove_subscriber_refines)
  have same: "s\<lparr>link_audio_local := (link_audio_local s)[k := ?c]\<rparr> = s"
    if "m = 5" "(ip, port) \<notin> set (map endpoint (subscribers (link_audio_local s ! k)))"
    using that(1) by (simp add: remove_subscriber_unknown [OF that(2)])
  show ?thesis
  proof (intro exI conjI)
    show "sent (send_channel_request m addr dport cid u) = sent u @ [sent_to (ip4_of addr) dport LINK_DISCOVERY_PORT ?buf]"
      by (rule channel_request_sent)
  qed (rule rx, use c k same in \<open>simp_all add: link_audio_tick_local\<close>)
qed

section \<open>The catalogue\<close>

definition catalogue :: "'a audio_st_scheme \<Rightarrow> link_id \<Rightarrow> link_audio_remote_t option" where
  "catalogue s = lookup rem_in_use rem_channel_id (link_audio_remote s)"

lemma audio_inv_remotes: "audio_inv s \<Longrightarrow> distinct_keys rem_in_use rem_channel_id (link_audio_remote s)"
  by (simp add: audio_inv_def)

lemma catalogue_index: "catalogue s i = map_option (nth (link_audio_remote s)) (find_index (is_remote i) (link_audio_remote s))"
  by (simp add: catalogue_def lookup_def)

text \<open>Hearing of a channel updates the map, unless the table is full.\<close>

lemma note_remote_catalogue:
  assumes "audio_inv s"
  shows "\<exists>r. catalogue (note_remote ctx name i s) =
      (if catalogue s i = None \<and> (\<forall>r\<in>set (link_audio_remote s). rem_in_use r) then catalogue s
       else (catalogue s)(i \<mapsto> r)) \<and>
    rem_name r = name \<and> endpoint_addr r = peer_addr ctx \<and> endpoint_port r = peer_port ctx \<and>
    rem_peer_id r = (case catalogue s i of None \<Rightarrow> peer_id ctx | Some r' \<Rightarrow> rem_peer_id r')"
proof (cases "find_index (is_remote i) (link_audio_remote s)")
  case (Some k)
  let ?r = "heard_remote ctx name (host_now s) (link_audio_remote s ! k)"
  have "k < length (link_audio_remote s)" "rem_in_use (link_audio_remote s ! k)"
    "rem_channel_id (link_audio_remote s ! k) = i"
    using find_index_SomeD [OF Some] find_index_bound [OF Some] by auto
  then have "catalogue (note_remote ctx name i s) = (catalogue s)(i \<mapsto> ?r)"
    unfolding note_remote_known [OF Some] catalogue_def
    using lookup_write [OF audio_inv_remotes [OF assms], of k ?r] by simp
  then show ?thesis
    using Some by (intro exI [of _ ?r]) (simp add: catalogue_index)
next
  case None
  then have fresh: "catalogue s i = None" by (simp add: catalogue_index)
  show ?thesis
  proof (cases "find_index (\<lambda>r. \<not> rem_in_use r) (link_audio_remote s)")
    case slot: (Some k)
    let ?r = "claim_remote i (heard_remote ctx name (host_now s) ((link_audio_remote s ! k)\<lparr>rem_peer_id := peer_id ctx\<rparr>))"
    have "k < length (link_audio_remote s)" "\<not> rem_in_use (link_audio_remote s ! k)"
      using find_index_SomeD [OF slot] find_index_bound [OF slot] by auto
    moreover from this have "\<not> Ball (set (link_audio_remote s)) rem_in_use" by auto
    ultimately show ?thesis
      using lookup_write [OF audio_inv_remotes [OF assms], of k ?r] fresh
      unfolding note_remote_new [OF None] slot
      by (intro exI [of _ ?r]) (auto simp: catalogue_def)
  next
    case full: None
    then have "\<forall>r\<in>set (link_audio_remote s). rem_in_use r" by (simp add: find_index_None)
    then show ?thesis
      unfolding note_remote_new [OF None] full
      by (intro exI [of _ "zero_remote\<lparr>rem_name := name, endpoint_addr := peer_addr ctx,
          endpoint_port := peer_port ctx, rem_peer_id := peer_id ctx\<rparr>"]) (simp add: fresh)
  qed
qed

text \<open>A bye deletes one identifier.\<close>

lemma drop_channel_catalogue: "audio_inv s \<Longrightarrow> catalogue (drop_channel i s) = (catalogue s)(i := None)"
  using lookup_drop [OF audio_inv_remotes, of s i "drop_remote i"]
  by (simp add: catalogue_def drop_channel_def drop_remote_def)

end
