(* ===== verification/Announcements.thy ===== *)
theory Announcements
  imports Audio_Exchange
begin

text \<open>
  A node's announcement of its channels, written by one node and read by another, and the messages
  whose counts overflow the handlers' size arithmetic.
\<close>

section \<open>Announcements\<close>

definition published_channels :: "'a audio_st_scheme \<Rightarrow> link_audio_local_t list" where
  "published_channels u = filter loc_in_use (link_audio_local u)"

definition announced_entry :: "link_audio_local_t \<Rightarrow> u8 list" where
  "announced_entry c = put_be32 (of_nat (length (c_str (loc_name c)))) @ c_str (loc_name c) @ id_bytes (loc_channel_id c)"

definition announcement_entries :: "'a audio_st_scheme \<Rightarrow> (u32 \<times> u8 list) list" where
  "announcement_entries u =
     [(KEY_SESS, id_bytes (link_self_session u)),
      (KEY_PI, put_be32 (of_nat (length (c_str (s_peer_name u)))) @ c_str (s_peer_name u)),
      (KEY_AUCA, put_be32 (of_nat (length (published_channels u))) @ concat (map announced_entry (published_channels u)))]"

lemma c_str_take: "length p < 2 ^ 32 \<Longrightarrow> take (unat (of_nat (length (c_str p)) :: u32)) p = c_str p"
  using length_c_str [of p] by (simp add: unat_of_nat_small c_str_def takeWhile_eq_take [symmetric])

lemma channel_announcement_eq: "length (loc_name c) < 2 ^ 32 \<Longrightarrow> channel_announcement c = announced_entry c"
  by (simp add: channel_announcement_def announced_entry_def Let_def c_str_take)

lemma announcement_totals:
  "fold (\<lambda>c (total, count). (total + (4 + of_nat (length (c_str (loc_name c))) + 8), count + 1)) cs (tot :: u32, cnt :: u32)
     = (tot + of_nat (length (concat (map announced_entry cs))), cnt + of_nat (length cs))"
  by (induction cs arbitrary: tot cnt) (simp_all add: announced_entry_def)

lemma fold_announcements:
  "\<forall>c\<in>set cs. length (loc_name c) < 2 ^ 32 \<Longrightarrow>
   fold (\<lambda>c p. p @ channel_announcement c) cs p = p @ concat (map announced_entry cs)"
  by (induction cs arbitrary: p) (simp_all add: channel_announcement_eq)

lemma encode_peer_announcement_eq:
  assumes "names_inv u"
  shows "fst (encode_peer_announcement ping u) = encode_audio_header 1 5 u @
    tlv_payload (announcement_entries u @ (if ping then [(KEY_HT, put_be64 (host_now u))] else []))"
proof -
  have names: "length (s_peer_name u) < 2 ^ 32" "\<forall>c\<in>set (published_channels u). length (loc_name c) < 2 ^ 32"
    using assms by (auto simp: names_inv_def published_channels_def audio_consts)
  show ?thesis
    unfolding encode_peer_announcement_def Let_def announcement_totals fold_announcements
      published_channels_def [symmetric] announcement_totals prod.case fold_announcements [OF names(2)]
      c_str_take [OF names(1)]
    by (simp add: host_time_us_eq announcement_entries_def tlv_emit_bytes_entry tlv_emit_header_def tlv_entry_def
        tlv_emit_u64be_def LINK_DISCOVERY_TTL_SEC_def)
qed

text \<open>The receiver reads the same names and identifiers back.\<close>

definition padded_name :: "link_audio_local_t \<Rightarrow> u8 list" where
  "padded_name c = c_str (loc_name c) @ replicate (LINK_AUDIO_NAME_MAX - length (c_str (loc_name c))) 0"

definition hear_channels :: "ann_ctx \<Rightarrow> link_audio_local_t list \<Rightarrow> 'a audio_st_scheme \<Rightarrow> 'a audio_st_scheme" where
  "hear_channels ctx cs s = fold (\<lambda>c. note_remote ctx (padded_name c) (loc_channel_id c)) cs s"

lemma announced_entry_fields:
  "length (announced_entry c) = 12 + length (c_str (loc_name c))"
  "be32 (announced_entry c @ rest) = of_nat (length (c_str (loc_name c)))"
  "drop 4 (announced_entry c @ rest) = c_str (loc_name c) @ id_bytes (loc_channel_id c) @ rest"
  by (simp_all add: announced_entry_def)

lemma read_channels_entries:
  assumes "\<forall>c\<in>set cs. length (c_str (loc_name c)) < LINK_AUDIO_NAME_MAX"
    "length (concat (map announced_entry cs)) < 2 ^ 32"
  shows "read_channels (length cs) ctx (concat (map announced_entry cs) @ rest)
      (of_nat (length (concat (map announced_entry cs)))) s = Some (0, hear_channels ctx cs s)"
  using assms
proof (induction cs arbitrary: s)
  case (Cons c cs)
  let ?l = "length (c_str (loc_name c))" and ?L = "length (concat (map announced_entry cs))"
  let ?v = "announced_entry c @ concat (map announced_entry cs) @ rest"
  let ?n = "of_nat (12 + ?l + ?L) :: u32"
  have l: "?l < 32" "12 + ?l + ?L < 2 ^ 32"
    using Cons.prems by (simp_all add: announced_entry_fields audio_consts)
  have small: "unat (of_nat k :: u32) = k" if "k < 2 ^ 32" for k
    using that by (simp add: unat_of_nat_small)
  have n: "unat ?n = 12 + ?l + ?L" "unat (of_nat ?l :: u32) = ?l"
    using l by (intro small; linarith)+
  have n4: "?n - 4 = of_nat (8 + ?l + ?L)" and n12: "?n - 4 - of_nat ?l - 8 = of_nat ?L"
    and l8: "of_nat ?l + 8 = (of_nat (?l + 8) :: u32)" by simp_all
  have un4: "unat (?n - 4) = 8 + ?l + ?L" unfolding n4 using l by (intro small) linarith
  have ul8: "unat (of_nat ?l + 8 :: u32) = ?l + 8" unfolding l8 using l by (intro small) linarith
  have c1: "\<not> ?n < 4" "\<not> ?n - 4 < of_nat ?l + 8"
    unfolding word_less_nat_alt un4 ul8 n(1) by simp_all
  have cp: "min (unat (of_nat ?l :: u32)) (LINK_AUDIO_NAME_MAX - 1) = ?l" using l(1) n(2) by (simp add: audio_consts)
  have "read_channels (length (c # cs)) ctx ?v ?n s =
      read_channels (length cs) ctx (concat (map announced_entry cs) @ rest) (of_nat ?L)
        (note_remote ctx (padded_name c) (loc_channel_id c) s)"
    using c1 n(2) n12 unfolding list.size add_Suc_right read_channels.simps Let_def announced_entry_fields cp
    by (simp add: announced_entry_fields padded_name_def)
  then show ?case using Cons by (simp add: announced_entry_fields hear_channels_def)
qed (simp add: hear_channels_def)

lemma note_remote_cong:
  "peer_id c = peer_id d \<Longrightarrow> peer_addr c = peer_addr d \<Longrightarrow> peer_port c = peer_port d \<Longrightarrow>
   note_remote c = note_remote d"
  unfolding note_remote_def [abs_def] by (simp only:)

lemma note_remote_ctx [simp]:
  "note_remote (ctx\<lparr>peer_name := x\<rparr>) = note_remote ctx"
  "note_remote (ctx\<lparr>ping_ht := y, have_ping := z\<rparr>) = note_remote ctx"
  by (rule note_remote_cong; simp)+

lemma hear_channels_ctx [simp]: "hear_channels (ctx\<lparr>peer_name := x\<rparr>) = hear_channels ctx"
  by (intro ext) (simp add: hear_channels_def)

text \<open>What each entry of an announcement does, whatever follows it.\<close>

lemma ann_handler_SESS: "ann_handler KEY_SESS (id_bytes i @ rest) 8 cs = Some (0, cs)"
  by (simp add: ann_handler_def audio_keys KEY_SESS_def KEY_HT_def case_prod_beta)

lemma ann_handler_HT:
  "ann_handler KEY_HT (put_be64 t @ rest) 8 (ctx, s) = Some (0, (ctx\<lparr>ping_ht := t, have_ping := True\<rparr>, s))"
  by (simp add: ann_handler_def)

lemma ann_handler_PI:
  assumes "length p < LINK_AUDIO_NAME_MAX"
  shows "ann_handler KEY_PI ((put_be32 (of_nat (length p)) @ p) @ rest) (of_nat (4 + length p)) (ctx, s) =
    Some (0, (ctx\<lparr>peer_name := p @ [0] @ drop (length p + 1) (peer_name ctx)\<rparr>, s))"
proof -
  have l: "length p < 32" using assms by (simp add: audio_consts)
  have n: "unat (of_nat (4 + length p) :: u32) = 4 + length p" "unat (of_nat (length p) :: u32) = length p"
    using l by (intro unat_of_nat_small; simp)+
  have "4 + of_nat (length p) = (of_nat (4 + length p) :: u32)" by simp
  moreover have "\<not> of_nat (4 + length p) < (4 :: u32)"
    unfolding word_less_nat_alt n by simp
  ultimately show ?thesis
    using l n by (simp add: ann_handler_def audio_keys KEY_SESS_def KEY_HT_def audio_consts)
qed

lemma ann_handler_AUCA:
  assumes "\<forall>c\<in>set cs. length (c_str (loc_name c)) < LINK_AUDIO_NAME_MAX"
    "4 + length (concat (map announced_entry cs)) < 2 ^ 32" "length cs < 2 ^ 32"
  shows "ann_handler KEY_AUCA ((put_be32 (of_nat (length cs)) @ concat (map announced_entry cs)) @ rest)
      (of_nat (4 + length (concat (map announced_entry cs)))) (ctx, s) = Some (0, (ctx, hear_channels ctx cs s))"
proof -
  let ?L = "length (concat (map announced_entry cs))"
  have n: "unat (of_nat (4 + ?L) :: u32) = 4 + ?L" "unat (of_nat (length cs) :: u32) = length cs"
    using assms(2,3) by (intro unat_of_nat_small; simp)+
  have "\<not> of_nat (4 + ?L) < (4 :: u32)" unfolding word_less_nat_alt n by simp
  moreover have "of_nat (4 + ?L) - 4 = (of_nat ?L :: u32)" by simp
  moreover have "read_channels (length cs) ctx (concat (map announced_entry cs) @ rest) (of_nat ?L) s =
      Some (0, hear_channels ctx cs s)"
    using assms by (intro read_channels_entries) simp_all
  ultimately show ?thesis
    using n(2) by (simp add: ann_handler_def audio_keys KEY_SESS_def KEY_HT_def del: of_nat_add of_nat_numeral)
qed

definition free_remotes :: "'a audio_st_scheme \<Rightarrow> nat" where
  "free_remotes s = length (filter (\<lambda>r. \<not> rem_in_use r) (link_audio_remote s))"

lemma filter_update_count: "length (filter P xs) \<le> Suc (length (filter P (xs[k := x])))"
  by (induction xs arbitrary: k) (auto split: nat.split)

lemma note_remote_free: "free_remotes s \<le> Suc (free_remotes (note_remote ctx name i s))"
proof (cases "find_index (is_remote i) (link_audio_remote s)")
  case (Some k)
  show ?thesis unfolding note_remote_known [OF Some] free_remotes_def by (simp add: filter_update_count)
next
  case None
  show ?thesis
    unfolding note_remote_new [OF None] free_remotes_def by (simp add: filter_update_count split: option.split)
qed

lemma free_remotes_pos: "0 < free_remotes s \<Longrightarrow> \<not> (\<forall>r\<in>set (link_audio_remote s). rem_in_use r)"
  by (auto simp: free_remotes_def filter_empty_conv simp flip: length_greater_0_conv)

lemma hear_channels_catalogue:
  assumes "audio_inv s" "length cs \<le> free_remotes s" "distinct (map loc_channel_id cs)"
  shows "(\<forall>c\<in>set cs. \<exists>r. catalogue (hear_channels ctx cs s) (loc_channel_id c) = Some r \<and>
      rem_name r = padded_name c \<and> endpoint_addr r = peer_addr ctx \<and> endpoint_port r = peer_port ctx \<and>
      rem_peer_id r = (case catalogue s (loc_channel_id c) of None \<Rightarrow> peer_id ctx | Some r' \<Rightarrow> rem_peer_id r')) \<and>
    (\<forall>i. i \<notin> loc_channel_id ` set cs \<longrightarrow> catalogue (hear_channels ctx cs s) i = catalogue s i)"
  using assms
proof (induction cs arbitrary: s)
  case (Cons c cs)
  let ?i = "loc_channel_id c"
  let ?s = "note_remote ctx (padded_name c) ?i s"
  have "audio_inv ?s" using Cons.prems(1) by (rule note_remote_inv)
  moreover have "length cs \<le> free_remotes ?s"
    using note_remote_free [of s ctx "padded_name c" ?i] Cons.prems(2) by simp
  ultimately have IH: "\<forall>c\<in>set cs. \<exists>r. catalogue (hear_channels ctx cs ?s) (loc_channel_id c) = Some r \<and>
      rem_name r = padded_name c \<and> endpoint_addr r = peer_addr ctx \<and> endpoint_port r = peer_port ctx \<and>
      rem_peer_id r = (case catalogue ?s (loc_channel_id c) of None \<Rightarrow> peer_id ctx | Some r' \<Rightarrow> rem_peer_id r')"
    "\<forall>i. i \<notin> loc_channel_id ` set cs \<longrightarrow> catalogue (hear_channels ctx cs ?s) i = catalogue ?s i"
    using Cons.IH Cons.prems(3) by auto
  have room: "\<not> (catalogue s ?i = None \<and> (\<forall>r\<in>set (link_audio_remote s). rem_in_use r))"
    using free_remotes_pos [of s] Cons.prems(2) by simp
  obtain r where r: "catalogue ?s = (catalogue s)(?i \<mapsto> r)" "rem_name r = padded_name c"
    "endpoint_addr r = peer_addr ctx" "endpoint_port r = peer_port ctx"
    "rem_peer_id r = (case catalogue s ?i of None \<Rightarrow> peer_id ctx | Some r' \<Rightarrow> rem_peer_id r')"
    using note_remote_catalogue [OF Cons.prems(1), of ctx "padded_name c" ?i]
    unfolding if_not_P [OF room] by blast
  have fresh: "?i \<notin> loc_channel_id ` set cs" using Cons.prems(3) by simp
  have other: "catalogue ?s (loc_channel_id d) = catalogue s (loc_channel_id d)" if "d \<in> set cs" for d
  proof -
    have "loc_channel_id d \<noteq> ?i" using that fresh by (metis imageI)
    then show ?thesis by (simp add: r(1))
  qed
  have eq: "hear_channels ctx (c # cs) s = hear_channels ctx cs ?s" by (simp add: hear_channels_def)
  show ?case
    unfolding eq using IH other r fresh by simp
qed (simp add: hear_channels_def)

text \<open>A whole announcement at another node.\<close>

lemma length_announcement:
  assumes "names_inv u" "length (link_audio_local u) = MAX_LOCAL_CHANNELS"
  shows "length (concat (map announced_entry (published_channels u))) \<le> 704"
    "length (tlv_payload (announcement_entries u)) \<le> 800" "length (published_channels u) \<le> 32"
proof -
  let ?cs = "published_channels u"
  have len: "length ?cs \<le> 32"
    using length_filter_le [of loc_in_use "link_audio_local u"] assms(2)
    by (simp add: published_channels_def audio_consts LINK_NUM_TDM_PORTS_def LINK_TDM_CHANNELS_PER_PORT_def)
  have "length (concat (map announced_entry cs)) \<le> 22 * length cs" if "set cs \<subseteq> set (link_audio_local u)" for cs
    using that assms(1) by (induction cs) (auto simp: names_inv_def announced_entry_fields)
  from this [of ?cs] len show concat: "length (concat (map announced_entry ?cs)) \<le> 704"
    by (auto simp: published_channels_def)
  have "length (c_str (s_peer_name u)) \<le> 32"
    using assms(1) length_c_str [of "s_peer_name u"] by (simp add: names_inv_def audio_consts)
  with concat show "length (tlv_payload (announcement_entries u)) \<le> 800"
    by (simp add: announcement_entries_def)
  show "length ?cs \<le> 32" by (rule len)
qed

lemma announcement_received:
  assumes "link_self_id u \<noteq> link_self_id s" "names_inv u" "length (link_audio_local u) = MAX_LOCAL_CHANNELS"
    "unat a + 1200 < 2 ^ 32"
  shows "link_audio_handle_rx a (fst (encode_peer_announcement ping u)) ip port s =
    (let t = hear_channels \<lparr>ping_ht = 0, have_ping = False, peer_id = link_self_id u, peer_addr = ip,
         peer_port = port, peer_name = replicate LINK_AUDIO_NAME_MAX 0\<rparr> (published_channels u) s
     in Some (if ping then send_pong ip port (host_now u) t else t))"
proof -
  define ctx where "ctx = \<lparr>ping_ht = 0, have_ping = False, peer_id = link_self_id u, peer_addr = ip,
      peer_port = port, peer_name = replicate LINK_AUDIO_NAME_MAX 0\<rparr>"
  let ?cs = "published_channels u" and ?p = "c_str (s_peer_name u)"
  let ?name = "?p @ [0] @ drop (length ?p + 1) (peer_name ctx)"
  let ?es = "announcement_entries u @ (if ping then [(KEY_HT, put_be64 (host_now u))] else [])"
  note size = length_announcement [OF assms(2,3)]
  have names: "length ?p < LINK_AUDIO_NAME_MAX" "\<forall>c\<in>set ?cs. length (c_str (loc_name c)) < LINK_AUDIO_NAME_MAX"
    using assms(2) by (auto simp: names_inv_def published_channels_def audio_consts)
  have four: "of_nat (4 + n) = (4 + of_nat n :: u32)" for n by simp
  note SESS = ann_handler_SESS [of "link_self_session u"] and HT = ann_handler_HT [of "host_now u"]
    and PI = ann_handler_PI [OF names(1), unfolded four]
  have AUCA: "ann_handler KEY_AUCA ((put_be32 (of_nat (length ?cs)) @ concat (map announced_entry ?cs)) @ rest)
      (4 + of_nat (length (concat (map announced_entry ?cs)))) (ctx, s) = Some (0, (ctx, hear_channels ctx ?cs s))" for rest ctx
    and s :: "'b audio_st_scheme"
    using ann_handler_AUCA [OF names(2), of rest ctx s] size(1,3) unfolding four by simp
  have base: "unat (a + 20) + length (tlv_payload ?es) + 8 < 2 ^ 32"
    using assms(4) size(2) by (subst unat_add_small) simp_all
  have "tlv_walk (a + 20) ann_handler (tlv_payload ?es) (ctx, s) = tlv_fold ann_handler ?es (ctx, s)"
  proof (rule walk_payload_local [OF _ base])
    fix key v and rest :: "u8 list" and c :: "ann_ctx \<times> 'b audio_st_scheme"
    assume e: "(key, v) \<in> set ?es"
    obtain ctx s where c: "c = (ctx, s)" by (cases c)
    show "ann_handler key (v @ rest) (of_nat (length v)) c = ann_handler key v (of_nat (length v)) c"
      using e SESS [of rest c] SESS [of "[]" c] HT [of rest ctx s] HT [of "[]" ctx s]
        PI [of rest ctx s] PI [of "[]" ctx s] AUCA [of rest ctx s] AUCA [of "[]" ctx s]
      by (auto simp: announcement_entries_def c split: if_splits)
  qed
  also have "\<dots> = Some (0, (if ping then ctx\<lparr>peer_name := ?name, ping_ht := host_now u, have_ping := True\<rparr>
      else ctx\<lparr>peer_name := ?name\<rparr>), hear_channels ctx ?cs s)"
    using SESS [of "[]" "(ctx, s)"] PI [of "[]" ctx s] AUCA [of "[]" "ctx\<lparr>peer_name := ?name\<rparr>" s]
      HT [of "[]" "ctx\<lparr>peer_name := ?name\<rparr>" "hear_channels ctx ?cs s"]
    by (simp add: announcement_entries_def)
  finally show ?thesis
    unfolding encode_peer_announcement_eq [OF assms(2)] audio_message_dispatch [OF assms(1)] ctx_def [symmetric]
    by (simp add: Let_def) (simp add: ctx_def)
qed

lemma c_str_padded_name: "c_str (padded_name c) = c_str (loc_name c)"
proof -
  have "\<forall>b\<in>set (c_str (loc_name c)). b \<noteq> 0" by (auto simp: c_str_def dest: set_takeWhileD)
  then have "takeWhile (\<lambda>b. b \<noteq> 0) (c_str (loc_name c) @ zs) = c_str (loc_name c) @ takeWhile (\<lambda>b. b \<noteq> 0) zs" for zs
    by (simp add: takeWhile_append2)
  then show ?thesis by (simp add: padded_name_def c_str_def takeWhile_replicate)
qed

lemma catalogue_send_pong [simp]: "catalogue (send_pong ip port t s) = catalogue s"
  by (simp add: catalogue_def send_pong_def Let_def logged_def)


section \<open>Counts that overflow\<close>

lemma chunk_frames_overrun: "length p < 26 * k \<Longrightarrow> chunk_frames (Suc k) p n tot = None"
proof (induction k arbitrary: p n tot)
  case (Suc k)
  show ?case
  proof (cases "length p < 10")
    case False
    with Suc.prems have "length (drop 26 p) < 26 * k \<or> length (drop 26 p) = 0 \<and> k = 0" by auto
    then show ?thesis using Suc.IH [of "drop 26 p"] False by (cases k) auto
  qed simp
qed simp

lemma drop_channels_overrun: "length v < 8 * k \<Longrightarrow> drop_channels k v s = None"
  by (induction k v s rule: drop_channels.induct) auto

text \<open>
  C38: The counts of two audio messages are multiplied by the entry size in 32 bits before they are
  compared with the size received. An audio buffer that announces \<open>2^31\<close> chunks and a ChannelByes that
  announces \<open>2^29\<close> identifiers pass the check, and the handler reads past the end of the received
  datagram, whatever its size up to the 1500 bytes the receive buffer holds.
\<close>

theorem overflowing_counts_overread:
  assumes "link_self_id u \<noteq> link_self_id s" "54 \<le> length body" "length body \<le> 1480" "be32 (drop 16 body) = 0x80000000"
    "unat a + 100 < 2 ^ 32"
  shows "link_audio_handle_rx a (encode_audio_header 6 ttl u @ body) ip port s = None \<and>
    link_audio_handle_rx a (encode_audio_header 2 ttl u @ tlv_entry (KEY_AUCB, put_be32 0x20000000)) ip port s = None"
proof
  let ?n = "of_nat (length body) :: u32"
  have n: "unat ?n = length body" using assms(3) by (intro unat_of_nat_small) simp
  have "\<not> ?n < 8 + 8 + 4 + 26 + 1 + 4 + 1 + 2"
    unfolding word_less_nat_alt n using assms(2) by simp
  moreover obtain c :: u32 where c: "be32 (drop 16 body) = c" "c \<noteq> 0" "c * 26 = 0" "unat c = 2 ^ 31"
  proof (rule that [of "0x80000000"])
    show "(0x80000000 :: u32) * 26 = 0" by transfer simp
  qed (use assms(4) in simp_all)
  moreover have "chunk_frames (unat c) q m 0 = None" if "length q \<le> 1480" for q m
    using chunk_frames_overrun [of q "2 ^ 31 - 1" m 0] that c(4) by simp
  ultimately have "handle_audio_buffer body ?n s = None"
    using assms(3) by (simp add: handle_audio_buffer_def Let_def)
  then show "link_audio_handle_rx a (encode_audio_header 6 ttl u @ body) ip port s = None"
    unfolding audio_message_dispatch [OF assms(1)] by simp
next
  let ?p = "tlv_entry (KEY_AUCB, put_be32 0x20000000)"
  have a: "unat (a + 20) + 100 \<le> 2 ^ 32 + 20" "unat (a + 20) = unat a + 20" using assms(5) by (simp_all add: unat_add_small)
  have "drop_channels (unat (0x20000000 :: u32)) [] s = None"
    by (rule drop_channels_overrun) simp
  then have "handle_aucb_entry KEY_AUCB (put_be32 0x20000000) 4 s = None"
    using be32_put [of "0x20000000" "[]"] by (simp add: handle_aucb_entry_def)
  then have "tlv_walk (a + 20) handle_aucb_entry ?p s = None"
    using a assms(5) by (subst tlv_walk_step) (simp_all add: tlv_entry_fields tlv_entry_def)
  then show "link_audio_handle_rx a (encode_audio_header 2 ttl u @ ?p) ip port s = None"
    unfolding audio_message_dispatch [OF assms(1)] by simp
qed

end
