(* ===== verification/Audio_Frames.thy ===== *)
theory Audio_Frames
  imports Audio_Inv
begin

text \<open>
  One TDM frame through \<^verbatim>\<open>link_audio_on_tdm_frame\<close>: what the capture half leaves of the
  transmit packets, and what the drain half takes out of the jitter rings and puts into the transmit
  registers.
\<close>

section \<open>The specification\<close>

definition plays :: "nat \<Rightarrow> link_audio_sub_t \<Rightarrow> bool" where
  "plays port b \<longleftrightarrow> sub_in_use b \<and> sub_tdm_port b = int port"

text \<open>The samples that reach one slot in one frame, in the order of the table.\<close>

definition slot_samples :: "nat \<Rightarrow> nat \<Rightarrow> link_audio_sub_t list \<Rightarrow> u16 list" where
  "slot_samples port ch bs =
     map (\<lambda>b. hd (pending b)) (filter (\<lambda>b. plays port b \<and> sub_tdm_channel b = int ch \<and> pending b \<noteq> []) bs)"

section \<open>Capture\<close>

definition tdm_view :: "'a audio_st_scheme \<Rightarrow> _" where
  "tdm_view s = (link_audio_subs s, tdm_tx_csr s, tdm_rx_csr s, tdm_accesses s, s_tx_pkt_buf s, s_tx_pkt_pos s)"

lemma tdm_view_update [simp]:
  "tdm_view (s\<lparr>n_reads := n\<rparr>) = tdm_view s" "tdm_view (logged d s) = tdm_view s"
  "tdm_view (s\<lparr>link_audio_local := cs\<rparr>) = tdm_view s"
  by (simp_all add: tdm_view_def logged_def)

lemma send_audio_buffer_for_view:
  assumes "send_audio_buffer_for k smp s = Some t"
  shows "tdm_view t = tdm_view s"
proof (cases "num_subscribers (link_audio_local s ! k) = 0")
  case True
  with assms show ?thesis by (simp add: send_audio_buffer_for_def Let_def)
next
  case False
  have sends: "tdm_view (fold (\<lambda>j. logged (d j)) js u) = tdm_view u" for d js and u :: "'a audio_st_scheme"
    by (rule fold_inv [where P = "\<lambda>v. tdm_view v = tdm_view u"]) simp_all
  from assms False show ?thesis
    by (auto simp: send_audio_buffer_for_def Let_def ghost_time_us_eq bind_eq_Some_conv sends)
qed

text \<open>One channel: the sample read goes to the packet's position, which starts over after the last.\<close>

lemma tdm_read_rx_port:
  "port < LINK_NUM_TDM_PORTS \<Longrightarrow> ch < LINK_TDM_CHANNELS_PER_PORT \<Longrightarrow>
   tdm_read_rx (int port) (int ch) s = (tdm_rx_csr s (tdm_accesses s) port ch, tdm_access s)"
  by (auto simp: tdm_read_rx_def rx_p_def tdm_consts less_2_cases_iff)

definition packet :: "nat \<Rightarrow> nat \<Rightarrow> 'a audio_st_scheme \<Rightarrow> u16 list" where
  "packet port ch s = (s_tx_pkt_buf s ! port ! ch)[s_tx_pkt_pos s ! port ! ch := tdm_rx_csr s (tdm_accesses s) port ch]"

definition store_packet :: "nat \<Rightarrow> nat \<Rightarrow> 'a audio_st_scheme \<Rightarrow> 'a audio_st_scheme" where
  "store_packet port ch s =
     (tdm_access s)\<lparr>s_tx_pkt_buf := (s_tx_pkt_buf s)[port := (s_tx_pkt_buf s ! port)[ch := packet port ch s]]\<rparr>"

definition set_pos :: "nat \<Rightarrow> nat \<Rightarrow> nat \<Rightarrow> 'a audio_st_scheme \<Rightarrow> 'a audio_st_scheme" where
  "set_pos port ch pos s = s\<lparr>s_tx_pkt_pos := (s_tx_pkt_pos s)[port := (s_tx_pkt_pos s ! port)[ch := pos]]\<rparr>"

definition local_at :: "nat \<Rightarrow> nat \<Rightarrow> 'a audio_st_scheme \<Rightarrow> nat option" where
  "local_at port ch s =
     find_index (\<lambda>c. loc_in_use c \<and> loc_tdm_port c = int port \<and> loc_tdm_channel c = int ch) (link_audio_local s)"

lemma capture_channel_eq:
  assumes "port < LINK_NUM_TDM_PORTS" "ch < LINK_TDM_CHANNELS_PER_PORT"
  shows "capture_channel port ch s =
     (if s_tx_pkt_pos s ! port ! ch + 1 = AUDIO_FRAMES_PER_PKT
      then map_option (set_pos port ch 0) (case local_at port ch s of None \<Rightarrow> Some (store_packet port ch s)
        | Some k \<Rightarrow> send_audio_buffer_for k (packet port ch s) (store_packet port ch s))
      else Some (set_pos port ch (s_tx_pkt_pos s ! port ! ch + 1) (store_packet port ch s)))"
  by (simp add: capture_channel_def Let_def tdm_read_rx_port assms tdm_access_def set_pos_def store_packet_def packet_def
      local_at_def map_conv_bind_option comp_def split: option.split)

lemma capture_channel_view:
  assumes "port < LINK_NUM_TDM_PORTS" "ch < LINK_TDM_CHANNELS_PER_PORT" "s_tx_pkt_pos s ! port ! ch < AUDIO_FRAMES_PER_PKT"
  shows "case capture_channel port ch s of
      None \<Rightarrow> s_tx_pkt_pos s ! port ! ch + 1 = AUDIO_FRAMES_PER_PKT
    | Some t \<Rightarrow> tdm_view t = (link_audio_subs s, tdm_tx_csr s, tdm_rx_csr s, tdm_accesses s + 1,
        (s_tx_pkt_buf s)[port := (s_tx_pkt_buf s ! port)[ch := packet port ch s]],
        (s_tx_pkt_pos s)[port := (s_tx_pkt_pos s ! port)[ch := (s_tx_pkt_pos s ! port ! ch + 1) mod AUDIO_FRAMES_PER_PKT]])"
proof (cases "s_tx_pkt_pos s ! port ! ch + 1 = AUDIO_FRAMES_PER_PKT")
  case False
  then show ?thesis
    using assms by (simp add: capture_channel_eq tdm_view_def set_pos_def store_packet_def tdm_access_def)
next
  case True
  let ?next = "case local_at port ch s of None \<Rightarrow> Some (store_packet port ch s)
    | Some k \<Rightarrow> send_audio_buffer_for k (packet port ch s) (store_packet port ch s)"
  have cap: "capture_channel port ch s = map_option (set_pos port ch 0) ?next"
    unfolding capture_channel_eq [OF assms(1,2)] if_P [OF True] ..
  show ?thesis
  proof (cases ?next)
    case None
    then show ?thesis using True by (simp only: cap option.map option.case)
  next
    case (Some v)
    then have "tdm_view v = tdm_view (store_packet port ch s)"
      using send_audio_buffer_for_view by (cases "local_at port ch s") auto
    then have "tdm_view (set_pos port ch 0 v) = (link_audio_subs s, tdm_tx_csr s, tdm_rx_csr s, tdm_accesses s + 1,
        (s_tx_pkt_buf s)[port := (s_tx_pkt_buf s ! port)[ch := packet port ch s]], (s_tx_pkt_pos s)[port := (s_tx_pkt_pos s ! port)[ch := 0]])"
      by (simp add: tdm_view_def tdm_access_def set_pos_def store_packet_def)
    then show ?thesis using True by (simp add: cap Some)
  qed
qed

text \<open>All channels: the \<open>ch\<close>-th takes the \<open>ch\<close>-th sample read, none disturbs another.\<close>

definition captured :: "nat \<Rightarrow> nat \<Rightarrow> 'a audio_st_scheme \<Rightarrow> 'a audio_st_scheme \<Rightarrow> bool" where
  "captured port n s t \<longleftrightarrow> (\<exists>bufs poss.
     tdm_view t = (link_audio_subs s, tdm_tx_csr s, tdm_rx_csr s, tdm_accesses s + n,
       (s_tx_pkt_buf s)[port := bufs], (s_tx_pkt_pos s)[port := poss]) \<and>
     length bufs = LINK_TDM_CHANNELS_PER_PORT \<and> length poss = LINK_TDM_CHANNELS_PER_PORT \<and>
     (\<forall>ch. bufs ! ch = (if ch < n
        then (s_tx_pkt_buf s ! port ! ch)[s_tx_pkt_pos s ! port ! ch := tdm_rx_csr s (tdm_accesses s + ch) port ch]
        else s_tx_pkt_buf s ! port ! ch)) \<and>
     (\<forall>ch. poss ! ch = (if ch < n then (s_tx_pkt_pos s ! port ! ch + 1) mod AUDIO_FRAMES_PER_PKT
        else s_tx_pkt_pos s ! port ! ch)))"

lemma captured_none:
  assumes "tx_inv s" "port < LINK_NUM_TDM_PORTS"
  shows "captured port 0 s s"
  using assms unfolding captured_def
  by (intro exI [of _ "s_tx_pkt_buf s ! port"] exI [of _ "s_tx_pkt_pos s ! port"]) (simp add: tdm_view_def tx_inv_def)

lemma captured_next:
  assumes "tx_inv s" "port < LINK_NUM_TDM_PORTS" "n < LINK_TDM_CHANNELS_PER_PORT" "captured port n s u"
  shows "case capture_channel port n u of
      None \<Rightarrow> s_tx_pkt_pos s ! port ! n + 1 = AUDIO_FRAMES_PER_PKT
    | Some t \<Rightarrow> captured port (Suc n) s t"
proof -
  let ?pos = "s_tx_pkt_pos s ! port ! n"
  let ?buf = "(s_tx_pkt_buf s ! port ! n)[?pos := tdm_rx_csr s (tdm_accesses s + n) port n]"
  obtain bufs poss where u: "tdm_view u = (link_audio_subs s, tdm_tx_csr s, tdm_rx_csr s, tdm_accesses s + n,
        (s_tx_pkt_buf s)[port := bufs], (s_tx_pkt_pos s)[port := poss])"
    and len: "length bufs = LINK_TDM_CHANNELS_PER_PORT" "length poss = LINK_TDM_CHANNELS_PER_PORT"
    and bufs: "\<forall>ch. bufs ! ch = (if ch < n
         then (s_tx_pkt_buf s ! port ! ch)[s_tx_pkt_pos s ! port ! ch := tdm_rx_csr s (tdm_accesses s + ch) port ch]
         else s_tx_pkt_buf s ! port ! ch)"
    and poss: "\<forall>ch. poss ! ch = (if ch < n then (s_tx_pkt_pos s ! port ! ch + 1) mod AUDIO_FRAMES_PER_PKT
         else s_tx_pkt_pos s ! port ! ch)"
    using assms(4) unfolding captured_def by blast
  have ports: "port < length (s_tx_pkt_buf s)" "port < length (s_tx_pkt_pos s)" and pos: "?pos < AUDIO_FRAMES_PER_PKT"
    using assms(1-3) by (simp_all add: tx_inv_def)
  have fields: "link_audio_subs u = link_audio_subs s" "tdm_tx_csr u = tdm_tx_csr s" "tdm_rx_csr u = tdm_rx_csr s"
    "tdm_accesses u = tdm_accesses s + n" "s_tx_pkt_buf u = (s_tx_pkt_buf s)[port := bufs]" "s_tx_pkt_pos u = (s_tx_pkt_pos s)[port := poss]"
    using u by (simp_all add: tdm_view_def)
  have here: "s_tx_pkt_pos u ! port ! n = ?pos" "s_tx_pkt_buf u ! port ! n = s_tx_pkt_buf s ! port ! n"
    using ports by (simp_all add: fields bufs poss)
  have "case capture_channel port n u of
      None \<Rightarrow> ?pos + 1 = AUDIO_FRAMES_PER_PKT
    | Some t \<Rightarrow> tdm_view t = (link_audio_subs s, tdm_tx_csr s, tdm_rx_csr s, tdm_accesses s + n + 1,
        (s_tx_pkt_buf s)[port := bufs[n := ?buf]], (s_tx_pkt_pos s)[port := poss[n := (?pos + 1) mod AUDIO_FRAMES_PER_PKT]])"
    using capture_channel_view [OF assms(2,3) pos [folded here(1)]] ports
    by (cases "capture_channel port n u") (simp_all only: option.case here packet_def, simp_all add: fields)
  then show ?thesis
  proof (cases "capture_channel port n u")
    case (Some t)
    let ?bufs = "bufs[n := ?buf]" and ?poss = "poss[n := (?pos + 1) mod AUDIO_FRAMES_PER_PKT]"
    have "tdm_view t = (link_audio_subs s, tdm_tx_csr s, tdm_rx_csr s, tdm_accesses s + Suc n,
        (s_tx_pkt_buf s)[port := ?bufs], (s_tx_pkt_pos s)[port := ?poss])"
      using \<open>case capture_channel port n u of None \<Rightarrow> _ | Some t \<Rightarrow> _\<close> by (simp add: Some)
    moreover have "\<forall>ch. ?bufs ! ch = (if ch < Suc n
         then (s_tx_pkt_buf s ! port ! ch)[s_tx_pkt_pos s ! port ! ch := tdm_rx_csr s (tdm_accesses s + ch) port ch]
         else s_tx_pkt_buf s ! port ! ch)"
      using assms(3) by (simp add: nth_list_update len less_Suc_eq bufs)
    moreover have "\<forall>ch. ?poss ! ch = (if ch < Suc n then (s_tx_pkt_pos s ! port ! ch + 1) mod AUDIO_FRAMES_PER_PKT
         else s_tx_pkt_pos s ! port ! ch)"
      using assms(3) by (simp add: nth_list_update len less_Suc_eq poss)
    ultimately have "captured port (Suc n) s t" unfolding captured_def using len by (metis length_list_update)
    then show ?thesis by (simp add: Some)
  qed simp
qed

lemma capture_channels_view:
  assumes "tx_inv s" "port < LINK_NUM_TDM_PORTS" "n \<le> LINK_TDM_CHANNELS_PER_PORT"
  shows "case fold_option (capture_channel port) [0..<n] s of
      None \<Rightarrow> \<exists>ch<n. s_tx_pkt_pos s ! port ! ch + 1 = AUDIO_FRAMES_PER_PKT
    | Some t \<Rightarrow> captured port n s t"
  using assms(3)
proof (induction n)
  case (Suc n)
  have step: "fold_option (capture_channel port) [0..<Suc n] s =
      Option.bind (fold_option (capture_channel port) [0..<n] s) (capture_channel port n)"
    by (simp add: fold_option_append fun_eq_iff [THEN iffD2, of "fold_option _ []" Some])
  show ?case
  proof (cases "fold_option (capture_channel port) [0..<n] s")
    case None
    with Suc show ?thesis unfolding step by (auto intro: less_SucI)
  next
    case (Some u)
    then have "captured port n s u" using Suc by simp
    from captured_next [OF assms(1,2) _ this] Suc.prems Some show ?thesis
      unfolding step by (auto split: option.splits)
  qed
qed (simp add: captured_none assms)

section \<open>Drain\<close>

definition popped :: "nat \<Rightarrow> link_audio_sub_t \<Rightarrow> link_audio_sub_t" where
  "popped port b = (if plays port b then (case jbuf_pop b of None \<Rightarrow> b | Some (v, b) \<Rightarrow> b) else b)"

lemma popped_pending:
  "ring_inv b \<Longrightarrow> pending (popped port b) = (if plays port b then tl (pending b) else pending b)"
  using jbuf_pop_refines [of b] by (auto simp: popped_def split: option.splits)

text \<open>One subscription: its ring loses the oldest sample, which becomes the value of its slot.\<close>

lemma drain_sub_effect:
  assumes "k < length (link_audio_subs s)" "ring_inv (link_audio_subs s ! k)"
  shows "link_audio_subs (drain_sub port k s) = (link_audio_subs s)[k := popped port (link_audio_subs s ! k)]"
    "tdm_tx_csr (drain_sub port k s) p c =
       (if p = port \<and> p < LINK_NUM_TDM_PORTS \<and> c < LINK_TDM_CHANNELS_PER_PORT
        then last (tdm_tx_csr s p c # slot_samples port c [link_audio_subs s ! k]) else tdm_tx_csr s p c)"
proof -
  have subs: "link_audio_subs (tdm_write_tx p c v s) = link_audio_subs s" for p c v and s :: "'a audio_st_scheme"
    by (simp add: tdm_write_tx_def tx_p_def)
  show "link_audio_subs (drain_sub port k s) = (link_audio_subs s)[k := popped port (link_audio_subs s ! k)]"
    by (auto simp: drain_sub_def Let_def popped_def plays_def subs split: option.split)
  show "tdm_tx_csr (drain_sub port k s) p c =
       (if p = port \<and> p < LINK_NUM_TDM_PORTS \<and> c < LINK_TDM_CHANNELS_PER_PORT
        then last (tdm_tx_csr s p c # slot_samples port c [link_audio_subs s ! k]) else tdm_tx_csr s p c)"
    using jbuf_pop_refines [OF assms(2)]
    by (auto simp: drain_sub_def Let_def slot_samples_def plays_def tdm_write_tx_csr jbuf_pop_def split: if_splits)
qed

lemma drain_subs_effect:
  assumes "n \<le> length (link_audio_subs s)" "\<forall>b\<in>set (link_audio_subs s). ring_inv b"
  shows "link_audio_subs (fold (drain_sub port) [0..<n] s) =
      map (popped port) (take n (link_audio_subs s)) @ drop n (link_audio_subs s) \<and>
    (\<forall>p c. tdm_tx_csr (fold (drain_sub port) [0..<n] s) p c =
       (if p = port \<and> p < LINK_NUM_TDM_PORTS \<and> c < LINK_TDM_CHANNELS_PER_PORT
        then last (tdm_tx_csr s p c # slot_samples port c (take n (link_audio_subs s))) else tdm_tx_csr s p c))"
  using assms(1)
proof (induction n)
  case (Suc n)
  let ?u = "fold (drain_sub port) [0..<n] s"
  from Suc have u: "link_audio_subs ?u = map (popped port) (take n (link_audio_subs s)) @ drop n (link_audio_subs s)"
    "\<And>p c. tdm_tx_csr ?u p c = (if p = port \<and> p < LINK_NUM_TDM_PORTS \<and> c < LINK_TDM_CHANNELS_PER_PORT
        then last (tdm_tx_csr s p c # slot_samples port c (take n (link_audio_subs s))) else tdm_tx_csr s p c)"
    by auto
  have n: "n < length (link_audio_subs s)" using Suc.prems by simp
  then have here: "link_audio_subs ?u ! n = link_audio_subs s ! n" "length (link_audio_subs ?u) = length (link_audio_subs s)"
    by (simp_all add: u(1) nth_append)
  have ring: "ring_inv (link_audio_subs ?u ! n)" using assms(2) n by (simp add: here)
  note step = drain_sub_effect [of n ?u port, unfolded here, OF n ring [unfolded here]]
  have "fold (drain_sub port) [0..<Suc n] s = drain_sub port n ?u" by simp
  moreover have "(map (popped port) (take n (link_audio_subs s)) @ drop n (link_audio_subs s))[n := popped port (link_audio_subs s ! n)] =
      map (popped port) (take (Suc n) (link_audio_subs s)) @ drop (Suc n) (link_audio_subs s)"
    using n by (simp add: take_Suc_conv_app_nth list_update_append Cons_nth_drop_Suc [symmetric])
  moreover have "slot_samples port c (take (Suc n) (link_audio_subs s)) =
      slot_samples port c (take n (link_audio_subs s)) @ slot_samples port c [link_audio_subs s ! n]" for c
    using n by (simp add: slot_samples_def take_Suc_conv_app_nth)
  ultimately show ?case using step u by simp
qed (simp add: slot_samples_def)

lemma drain_sub_keeps:
  "s_tx_pkt_buf (drain_sub port k s) = s_tx_pkt_buf s" "s_tx_pkt_pos (drain_sub port k s) = s_tx_pkt_pos s"
  "tdm_rx_csr (drain_sub port k s) = tdm_rx_csr s" "tdm_accesses (drain_sub port k s) = tdm_accesses s"
  by (auto simp: drain_sub_def Let_def tdm_write_tx_def tx_p_def split: option.split)

section \<open>Without listeners\<close>

text \<open>A node whose channels nobody has requested handles every frame.\<close>

definition unheard :: "'a audio_st_scheme \<Rightarrow> bool" where
  "unheard s \<longleftrightarrow> (\<forall>c\<in>set (link_audio_local s). num_subscribers c = 0)"

lemma capture_unheard:
  assumes "unheard s" "port < LINK_NUM_TDM_PORTS" "ch < LINK_TDM_CHANNELS_PER_PORT"
  shows "\<exists>t. capture_channel port ch s = Some t \<and> unheard t"
proof -
  let ?u = "store_packet port ch s"
  have same: "link_audio_local ?u = link_audio_local s" by (simp add: store_packet_def tdm_access_def)
  have quiet: "send_audio_buffer_for k b ?u = Some ?u" if "local_at port ch s = Some k" for k b
    using find_index_bound [OF that [unfolded local_at_def]] assms(1)
    by (simp add: send_audio_buffer_for_def Let_def same unheard_def)
  then have "\<exists>pos. capture_channel port ch s = Some (set_pos port ch pos ?u)"
    by (auto simp: capture_channel_eq [OF assms(2,3)] split: option.split)
  then show ?thesis using assms(1) by (auto simp: unheard_def set_pos_def same)
qed

lemma fold_option_total:
  assumes "\<And>x s. P s \<Longrightarrow> \<exists>t. f x s = Some t \<and> P t"
  shows "P s \<Longrightarrow> \<exists>t. fold_option f xs s = Some t \<and> P t"
proof (induction xs arbitrary: s)
  case (Cons x xs)
  then show ?case using assms [OF Cons.prems, of x] by auto
qed simp

lemma drain_sub_local: "link_audio_local (drain_sub port k s) = link_audio_local s"
proof -
  have w: "link_audio_local (tdm_write_tx p c v t) = link_audio_local t" for p c v and t :: "'a audio_st_scheme"
    by (simp add: tdm_write_tx_def tx_p_def)
  show ?thesis
    by (cases "jbuf_pop (link_audio_subs s ! k)") (auto simp: drain_sub_def Let_def w)
qed

lemma frame_unheard:
  assumes "unheard s"
  shows "\<exists>t. link_audio_on_tdm_frame port s = Some t \<and> unheard t"
proof (cases "LINK_NUM_TDM_PORTS \<le> port")
  case False
  have "\<exists>t. fold_option (capture_channel port) [0..<n] s = Some t \<and> unheard t" if "n \<le> LINK_TDM_CHANNELS_PER_PORT" for n
    using that
  proof (induction n)
    case (Suc n)
    then obtain t where "fold_option (capture_channel port) [0..<n] s = Some t" "unheard t" by auto
    then show ?case using capture_unheard [of t port n] False Suc.prems by (auto simp: fold_option_append)
  qed (simp add: assms)
  from this [OF order_refl] obtain t where t: "fold_option (capture_channel port) [0..<LINK_TDM_CHANNELS_PER_PORT] s = Some t" "unheard t"
    by blast
  have "link_audio_local (fold (drain_sub port) ks t) = link_audio_local t" for ks
    by (rule fold_inv [where P = "\<lambda>u. link_audio_local u = link_audio_local t"]) (simp_all add: drain_sub_local)
  then show ?thesis using False t by (simp add: link_audio_on_tdm_frame_def unheard_def)
qed (simp add: assms link_audio_on_tdm_frame_def)

section \<open>A frame\<close>

lemma tdm_frame_effect:
  assumes "link_audio_on_tdm_frame port s = Some t" "audio_inv s" "port < LINK_NUM_TDM_PORTS"
  shows "\<forall>ch<LINK_TDM_CHANNELS_PER_PORT.
      s_tx_pkt_buf t ! port ! ch = (s_tx_pkt_buf s ! port ! ch)[s_tx_pkt_pos s ! port ! ch := tdm_rx_csr s (tdm_accesses s + ch) port ch] \<and>
      s_tx_pkt_pos t ! port ! ch = (s_tx_pkt_pos s ! port ! ch + 1) mod AUDIO_FRAMES_PER_PKT"
    "link_audio_subs t = map (popped port) (link_audio_subs s)"
    "tdm_tx_csr t p c = (if p = port \<and> c < LINK_TDM_CHANNELS_PER_PORT
       then last (tdm_tx_csr s p c # slot_samples port c (link_audio_subs s)) else tdm_tx_csr s p c)"
    "tdm_rx_csr t = tdm_rx_csr s" "tdm_accesses t = tdm_accesses s + LINK_TDM_CHANNELS_PER_PORT"
proof -
  have tx: "tx_inv s" and subs: "length (link_audio_subs s) = LINK_AUDIO_MAX_REMOTE" "\<forall>b\<in>set (link_audio_subs s). ring_inv b"
    using assms(2) by (simp_all add: audio_inv_def)
  obtain u where u: "fold_option (capture_channel port) [0..<LINK_TDM_CHANNELS_PER_PORT] s = Some u"
    and t: "t = fold (drain_sub port) [0..<LINK_AUDIO_MAX_REMOTE] u"
    using assms(1,3) by (auto simp: link_audio_on_tdm_frame_def bind_eq_Some_conv)
  have cap: "captured port LINK_TDM_CHANNELS_PER_PORT s u"
    using capture_channels_view [OF tx assms(3) order_refl] u by simp
  then have same: "link_audio_subs u = link_audio_subs s" "tdm_tx_csr u = tdm_tx_csr s" "tdm_rx_csr u = tdm_rx_csr s"
    "tdm_accesses u = tdm_accesses s + LINK_TDM_CHANNELS_PER_PORT"
    by (auto simp: captured_def tdm_view_def)
  have packets: "s_tx_pkt_buf t = s_tx_pkt_buf u" "s_tx_pkt_pos t = s_tx_pkt_pos u"
    "tdm_rx_csr t = tdm_rx_csr u" "tdm_accesses t = tdm_accesses u"
    unfolding t
    by (rule fold_inv [where P = "\<lambda>v. s_tx_pkt_buf v = s_tx_pkt_buf u"], simp_all add: drain_sub_keeps)
      (rule fold_inv [where P = "\<lambda>v. s_tx_pkt_pos v = s_tx_pkt_pos u"], simp_all add: drain_sub_keeps,
       rule fold_inv [where P = "\<lambda>v. tdm_rx_csr v = tdm_rx_csr u"], simp_all add: drain_sub_keeps,
       rule fold_inv [where P = "\<lambda>v. tdm_accesses v = tdm_accesses u"], simp_all add: drain_sub_keeps)
  show "tdm_rx_csr t = tdm_rx_csr s" "tdm_accesses t = tdm_accesses s + LINK_TDM_CHANNELS_PER_PORT"
    by (simp_all add: packets same)
  show "\<forall>ch<LINK_TDM_CHANNELS_PER_PORT.
      s_tx_pkt_buf t ! port ! ch = (s_tx_pkt_buf s ! port ! ch)[s_tx_pkt_pos s ! port ! ch := tdm_rx_csr s (tdm_accesses s + ch) port ch] \<and>
      s_tx_pkt_pos t ! port ! ch = (s_tx_pkt_pos s ! port ! ch + 1) mod AUDIO_FRAMES_PER_PKT"
    using cap tx assms(3) by (auto simp: packets captured_def tdm_view_def tx_inv_def)
  show "link_audio_subs t = map (popped port) (link_audio_subs s)"
    "tdm_tx_csr t p c = (if p = port \<and> c < LINK_TDM_CHANNELS_PER_PORT
       then last (tdm_tx_csr s p c # slot_samples port c (link_audio_subs s)) else tdm_tx_csr s p c)"
    using drain_subs_effect [of LINK_AUDIO_MAX_REMOTE u port] subs assms(3) by (auto simp: t same)
qed

lemma tdm_frame_undefined:
  assumes "link_audio_on_tdm_frame port s = None" "audio_inv s" "port < LINK_NUM_TDM_PORTS"
  shows "\<exists>ch<LINK_TDM_CHANNELS_PER_PORT. s_tx_pkt_pos s ! port ! ch + 1 = AUDIO_FRAMES_PER_PKT"
  using assms capture_channels_view [of s port LINK_TDM_CHANNELS_PER_PORT]
  by (auto simp: link_audio_on_tdm_frame_def audio_inv_def split: option.splits)

section \<open>Property\<close>

text \<open>
  C11: One TDM frame of a port. The sample read from each of the sixteen channels goes to the next place of that
  channel's packet, which starts over after sixty-four. Every subscription playing on the port gives up its
  oldest sample and keeps the others, every other subscription keeps all of its own, and a transmit register
  holds the sample of the last non-empty subscription routed to it, or what it held. The frame is handled
  unless a packet fills up in it.
\<close>

theorem tdm_frame_handled:
  assumes "audio_inv s" "port < LINK_NUM_TDM_PORTS"
  shows "case link_audio_on_tdm_frame port s of
      None \<Rightarrow> \<exists>ch<LINK_TDM_CHANNELS_PER_PORT. s_tx_pkt_pos s ! port ! ch = 63
    | Some t \<Rightarrow>
        (\<forall>ch<LINK_TDM_CHANNELS_PER_PORT.
           s_tx_pkt_buf t ! port ! ch = (s_tx_pkt_buf s ! port ! ch)[s_tx_pkt_pos s ! port ! ch := tdm_rx_csr s (tdm_accesses s + ch) port ch] \<and>
           s_tx_pkt_pos t ! port ! ch = (s_tx_pkt_pos s ! port ! ch + 1) mod 64) \<and>
        (\<forall>k<LINK_AUDIO_MAX_REMOTE. pending (link_audio_subs t ! k) =
           (if plays port (link_audio_subs s ! k) then tl (pending (link_audio_subs s ! k)) else pending (link_audio_subs s ! k))) \<and>
        (\<forall>p c. tdm_tx_csr t p c =
           (if p = port \<and> c < LINK_TDM_CHANNELS_PER_PORT
            then last (tdm_tx_csr s p c # slot_samples port c (link_audio_subs s)) else tdm_tx_csr s p c))"
proof (cases "link_audio_on_tdm_frame port s")
  case None
  then show ?thesis using tdm_frame_undefined [OF None assms] by (auto simp: AUDIO_FRAMES_PER_PKT_def)
next
  case (Some t)
  have "ring_inv (link_audio_subs s ! k)" "k < length (link_audio_subs s)" if "k < LINK_AUDIO_MAX_REMOTE" for k
    using assms(1) that by (simp_all add: audio_inv_def)
  then show ?thesis
    using tdm_frame_effect [OF Some assms] by (simp add: Some popped_pending AUDIO_FRAMES_PER_PKT_def)
qed

end
