(* ===== verification/Audio_Path.thy ===== *)
theory Audio_Path
  imports Audio_Exchange Audio_Frames
begin

text \<open>
  The way of a sample: captured from a TDM port of one node, sent in a packet, kept in the jitter ring
  of another node and written to a TDM port there.
\<close>

fun tdm_frames :: "nat \<Rightarrow> nat \<Rightarrow> 'a audio_st_scheme \<Rightarrow> 'a audio_st_scheme option" where
  "tdm_frames port 0 s = Some s"
| "tdm_frames port (Suc n) s = do { s \<leftarrow> tdm_frames port n s; link_audio_on_tdm_frame port s }"

section \<open>The sender\<close>

text \<open>A frame changes neither the node nor who listens to its channels, and only adds to the log.\<close>

definition audience :: "link_audio_local_t \<Rightarrow> (bool \<times> link_id \<times> u8 list \<times> int \<times> int) \<times> (u32 \<times> u16 \<times> link_id) list" where
  "audience c = (channel_key c, subscribers c)"

definition sender_keeps :: "'a audio_st_scheme \<Rightarrow> 'a audio_st_scheme \<Rightarrow> bool" where
  "sender_keeps s t \<longleftrightarrow> core t = core s \<and> map audience (link_audio_local t) = map audience (link_audio_local s) \<and>
     (\<exists>ds. sent t = sent s @ ds)"

lemma sender_keeps_refl [simp]: "sender_keeps s s"
  by (simp add: sender_keeps_def)

lemma sender_keeps_trans [trans]: "sender_keeps s t \<Longrightarrow> sender_keeps t u \<Longrightarrow> sender_keeps s u"
  by (auto simp: sender_keeps_def)

lemma sender_keeps_same: "core t = core s \<Longrightarrow> link_audio_local t = link_audio_local s \<Longrightarrow> net_log t = net_log s \<Longrightarrow> sender_keeps s t"
  by (simp add: sender_keeps_def)

lemma find_index_map: "find_index P (map f xs) = find_index (P \<circ> f) xs"
  by (induction xs) simp_all

lemma sender_keeps_at:
  assumes "sender_keeps s t" "local_at port ch s = Some k"
  shows "local_at port ch t = Some k" "loc_channel_id (link_audio_local t ! k) = loc_channel_id (link_audio_local s ! k)"
    "subscribers (link_audio_local t ! k) = subscribers (link_audio_local s ! k)"
proof -
  have same: "map audience (link_audio_local t) = map audience (link_audio_local s)"
    using assms(1) by (simp add: sender_keeps_def)
  let ?P = "\<lambda>c. loc_in_use c \<and> loc_tdm_port c = int port \<and> loc_tdm_channel c = int ch"
  let ?Q = "\<lambda>((u, i, n, p, c), x). u \<and> p = int port \<and> c = int ch"
  have at: "local_at port ch v = find_index ?Q (map audience (link_audio_local v))" for v :: "'a audio_st_scheme"
    unfolding local_at_def by (simp add: find_index_map comp_def audience_def channel_key_def)
  show "local_at port ch t = Some k" using assms(2) by (simp add: at same)
  have "k < length (link_audio_local s)" using assms(2) unfolding local_at_def by (rule find_index_bound)
  then have "audience (link_audio_local t ! k) = audience (link_audio_local s ! k)"
    using same by (metis length_map nth_map)
  then show "loc_channel_id (link_audio_local t ! k) = loc_channel_id (link_audio_local s ! k)"
    "subscribers (link_audio_local t ! k) = subscribers (link_audio_local s ! k)"
    by (simp_all add: audience_def channel_key_def)
qed

lemma send_audio_buffer_for_keeps:
  assumes "send_audio_buffer_for k smp s = Some t" "k < length (link_audio_local s)"
  shows "sender_keeps s t"
proof (cases "num_subscribers (link_audio_local s ! k) = 0")
  case True
  with assms show ?thesis by (simp add: send_audio_buffer_for_def Let_def)
next
  case False
  let ?c = "link_audio_local s ! k"
  let ?cs = "(link_audio_local s)[k := ?c\<lparr>next_send_count := next_send_count ?c + 1\<rparr>]"
  have log: "\<exists>ds. sent t = sent s @ ds" using send_audio_packet [OF assms(1) False] by blast
  have local: "link_audio_local (fold (\<lambda>j. logged (d j)) js v) = link_audio_local v" for d js and v :: "'a audio_st_scheme"
    by (rule fold_inv [where P = "\<lambda>w. link_audio_local w = link_audio_local v"]) (simp_all add: logged_def)
  from assms(1) False have "link_audio_local t = ?cs"
    by (auto simp: send_audio_buffer_for_def Let_def ghost_time_us_eq bind_eq_Some_conv local)
  moreover have "map audience ?cs = map audience (link_audio_local s)"
    using assms(2) by (simp add: map_update list_update_same_conv audience_def channel_key_def subscribers_def subscriber_def [abs_def])
  ultimately show ?thesis
    using log send_audio_buffer_for_ok [OF assms] by (simp add: sender_keeps_def audio_ok_def)
qed

lemma store_packet_keeps: "sender_keeps s (store_packet port ch s)"
  by (rule sender_keeps_same) (simp_all add: store_packet_def tdm_access_def)

lemma set_pos_keeps: "sender_keeps s (set_pos port ch pos s)"
  by (rule sender_keeps_same) (simp_all add: set_pos_def)

lemma capture_channel_keeps:
  assumes "capture_channel port ch s = Some t" "port < LINK_NUM_TDM_PORTS" "ch < LINK_TDM_CHANNELS_PER_PORT"
  shows "sender_keeps s t"
proof -
  have local: "link_audio_local (store_packet port ch s) = link_audio_local s"
    by (simp add: store_packet_def tdm_access_def)
  obtain pos v where t: "t = set_pos port ch pos v" and v: "v = store_packet port ch s \<or>
      (\<exists>k. local_at port ch s = Some k \<and> send_audio_buffer_for k (packet port ch s) (store_packet port ch s) = Some v)"
    using assms(1) by (auto simp: capture_channel_eq [OF assms(2,3)] split: if_splits option.splits)
  have "sender_keeps (store_packet port ch s) v"
    using v
  proof
    assume "\<exists>k. local_at port ch s = Some k \<and> send_audio_buffer_for k (packet port ch s) (store_packet port ch s) = Some v"
    then obtain k where k: "local_at port ch s = Some k" "send_audio_buffer_for k (packet port ch s) (store_packet port ch s) = Some v"
      by blast
    show ?thesis
      using k(2) find_index_bound [OF k(1) [unfolded local_at_def]] by (intro send_audio_buffer_for_keeps) (simp_all add: local)
  qed simp
  then show ?thesis unfolding t using store_packet_keeps set_pos_keeps by (blast intro: sender_keeps_trans)
qed

lemma capture_channels_keep:
  assumes "fold_option (capture_channel port) chs s = Some t" "\<forall>ch\<in>set chs. ch < LINK_TDM_CHANNELS_PER_PORT"
    "port < LINK_NUM_TDM_PORTS" "audio_inv s"
  shows "sender_keeps s t \<and> audio_inv t"
proof (rule fold_option_inv [OF _ _ assms(1)])
  fix ch v w
  assume step: "ch \<in> set chs" "sender_keeps s v \<and> audio_inv v" "capture_channel port ch v = Some w"
  then have "ch < LINK_TDM_CHANNELS_PER_PORT" using assms(2) by auto
  then show "sender_keeps s w \<and> audio_inv w"
    using step(2) capture_channel_keeps [OF step(3) assms(3)] capture_channel_ok [OF step(3) assms(3)]
    by (auto simp: audio_ok_def intro: sender_keeps_trans)
qed (simp add: assms(4))

lemma drains_keep: "sender_keeps s (fold (drain_sub port) ks s)"
proof (rule fold_inv [where P = "sender_keeps s"])
  fix k v
  assume v: "sender_keeps s v"
  have "core (drain_sub port k v) = core v" "link_audio_local (drain_sub port k v) = link_audio_local v"
    "net_log (drain_sub port k v) = net_log v"
    by (simp_all add: drain_sub_def Let_def split: option.split) (simp_all add: tdm_write_tx_def tx_p_def)
  then show "sender_keeps s (drain_sub port k v)" using v sender_keeps_same sender_keeps_trans by blast
qed simp

lemma frame_keeps:
  assumes "link_audio_on_tdm_frame port s = Some t" "port < LINK_NUM_TDM_PORTS" "audio_inv s"
  shows "sender_keeps s t" "audio_inv t"
proof -
  obtain u where u: "fold_option (capture_channel port) [0..<LINK_TDM_CHANNELS_PER_PORT] s = Some u"
    and t: "t = fold (drain_sub port) [0..<LINK_AUDIO_MAX_REMOTE] u"
    using assms(1,2) by (auto simp: link_audio_on_tdm_frame_def bind_eq_Some_conv)
  have "sender_keeps s u" using capture_channels_keep [OF u _ assms(2,3)] by auto
  then show "sender_keeps s t" unfolding t using drains_keep by (rule sender_keeps_trans)
  show "audio_inv t" using on_tdm_frame_ok [OF assms(1,3)] assms(3) by (simp add: audio_ok_def)
qed

text \<open>The frame that completes the packet of a channel with listeners sends it to each of them.\<close>

lemma frame_sends:
  assumes frame: "link_audio_on_tdm_frame port s = Some t" and inv: "audio_inv s"
    and port: "port < LINK_NUM_TDM_PORTS" "ch < LINK_TDM_CHANNELS_PER_PORT"
    and full: "s_tx_pkt_pos s ! port ! ch + 1 = AUDIO_FRAMES_PER_PKT"
    and k: "local_at port ch s = Some k" "subscribers (link_audio_local s ! k) \<noteq> []"
  obtains x beats pre post where "sender_keeps s x"
    "sent t = sent s @ pre @ map (\<lambda>y. sent_to (ip4_of (fst y)) (fst (snd y)) LINK_DISCOVERY_PORT
       (audio_packet k (s_tx_pkt_buf t ! port ! ch) beats x)) (subscribers (link_audio_local s ! k)) @ post"
proof -
  obtain w where w: "fold_option (capture_channel port) [0..<LINK_TDM_CHANNELS_PER_PORT] s = Some w"
    and t: "t = fold (drain_sub port) [0..<LINK_AUDIO_MAX_REMOTE] w"
    using frame port(1) by (auto simp: link_audio_on_tdm_frame_def bind_eq_Some_conv)
  have "[0..<LINK_TDM_CHANNELS_PER_PORT] = [0..<ch] @ ch # [Suc ch..<LINK_TDM_CHANNELS_PER_PORT]"
    using port(2) by (metis le0 less_imp_le_nat upt_add_eq_append upt_conv_Cons le_add_diff_inverse)
  with w obtain u v where u: "fold_option (capture_channel port) [0..<ch] s = Some u" and v: "capture_channel port ch u = Some v"
    and w': "fold_option (capture_channel port) [Suc ch..<LINK_TDM_CHANNELS_PER_PORT] v = Some w"
    by (auto simp: fold_option_append bind_eq_Some_conv)
  have su: "sender_keeps s u" "audio_inv u" using capture_channels_keep [OF u _ port(1) inv] port(2) by auto
  have cap: "captured port ch s u"
    using capture_channels_view [of s port ch] inv port u by (simp add: audio_inv_def)
  have lens: "port < length (s_tx_pkt_buf s)" "port < length (s_tx_pkt_pos s)" using inv port(1) by (simp_all add: audio_inv_def tx_inv_def)
  have here: "s_tx_pkt_pos u ! port ! ch = s_tx_pkt_pos s ! port ! ch"
    "packet port ch u = (s_tx_pkt_buf s ! port ! ch)[s_tx_pkt_pos s ! port ! ch := tdm_rx_csr s (tdm_accesses s + ch) port ch]"
    using cap lens by (auto simp: captured_def tdm_view_def packet_def)
  have packet: "packet port ch u = s_tx_pkt_buf t ! port ! ch"
    using tdm_frame_effect(1) [OF frame inv port(1)] port(2) by (simp add: here)
  let ?x = "store_packet port ch u"
  note at = sender_keeps_at [OF sender_keeps_trans [OF su(1) store_packet_keeps] k(1)]
  have "local_at port ch u = Some k" using sender_keeps_at(1) [OF su(1) k(1)] .
  with v full here(1) obtain y where y: "send_audio_buffer_for k (packet port ch u) ?x = Some y" "v = set_pos port ch 0 y"
    by (auto simp: capture_channel_eq [OF port])
  have "num_subscribers (link_audio_local ?x ! k) \<noteq> 0" by (metis at(3) k(2) length_0_conv length_subscribers)
  from send_audio_packet [OF y(1) this] obtain beats where
    sent_y: "sent y = sent ?x @ map (\<lambda>y. sent_to (ip4_of (fst y)) (fst (snd y)) LINK_DISCOVERY_PORT
       (audio_packet k (packet port ch u) beats ?x)) (subscribers (link_audio_local ?x ! k))" .
  have before: "\<exists>pre. sent ?x = sent s @ pre"
    using sender_keeps_trans [OF su(1) store_packet_keeps] unfolding sender_keeps_def by blast
  have "sender_keeps v t"
    using capture_channels_keep [OF w' _ port(1)] capture_channel_ok [OF v port su(2)] su(2) drains_keep unfolding t
    by (auto simp: audio_ok_def intro: sender_keeps_trans)
  then have "\<exists>post. sent t = sent y @ post" unfolding y(2) sender_keeps_def by (simp add: set_pos_def)
  with before sent_y show thesis
    using that [OF sender_keeps_trans [OF su(1) store_packet_keeps], where beats = beats] by (auto simp: packet at(3))
qed

text \<open>Sixty-four frames fill a packet with what the port read, and the last of them sends it.\<close>

lemma captured_frames:
  assumes "tdm_frames port n s = Some t" "n \<le> AUDIO_FRAMES_PER_PKT" "audio_inv s" "port < LINK_NUM_TDM_PORTS"
    "ch < LINK_TDM_CHANNELS_PER_PORT" "s_tx_pkt_pos s ! port ! ch = 0"
  shows "sender_keeps s t \<and> audio_inv t \<and> tdm_rx_csr t = tdm_rx_csr s \<and>
    tdm_accesses t = tdm_accesses s + n * LINK_TDM_CHANNELS_PER_PORT \<and> s_tx_pkt_pos t ! port ! ch = n mod AUDIO_FRAMES_PER_PKT \<and>
    (\<forall>i<n. s_tx_pkt_buf t ! port ! ch ! i = tdm_rx_csr s (tdm_accesses s + i * LINK_TDM_CHANNELS_PER_PORT + ch) port ch)"
  using assms(1,2)
proof (induction n arbitrary: t)
  case (Suc n)
  then obtain u where u: "tdm_frames port n s = Some u" and frame: "link_audio_on_tdm_frame port u = Some t"
    by (auto simp: bind_eq_Some_conv)
  from Suc.IH [OF u] Suc.prems(2) have IH: "sender_keeps s u" "audio_inv u" "tdm_rx_csr u = tdm_rx_csr s"
    "tdm_accesses u = tdm_accesses s + n * LINK_TDM_CHANNELS_PER_PORT" "s_tx_pkt_pos u ! port ! ch = n"
    "\<And>i. i < n \<Longrightarrow> s_tx_pkt_buf u ! port ! ch ! i = tdm_rx_csr s (tdm_accesses s + i * LINK_TDM_CHANNELS_PER_PORT + ch) port ch"
    by auto
  note effect = tdm_frame_effect [OF frame IH(2) assms(4)]
  have len: "length (s_tx_pkt_buf u ! port ! ch) = AUDIO_FRAMES_PER_PKT"
    using IH(2) assms(4,5) by (simp add: audio_inv_def tx_inv_def)
  have "s_tx_pkt_buf t ! port ! ch = (s_tx_pkt_buf u ! port ! ch)[n := tdm_rx_csr s (tdm_accesses s + n * LINK_TDM_CHANNELS_PER_PORT + ch) port ch]"
    "s_tx_pkt_pos t ! port ! ch = Suc n mod AUDIO_FRAMES_PER_PKT"
    using effect(1) assms(5) by (simp_all add: IH(3-5))
  then show ?case
    using IH(6) Suc.prems(2) len effect(4,5) IH(3,4) frame_keeps [OF frame assms(4) IH(2)] sender_keeps_trans [OF IH(1)]
    by (simp add: less_Suc_eq nth_list_update all_conj_distrib disj_imp)
qed (use assms(3,6) in simp)

lemma packet_sent:
  assumes "tdm_frames port AUDIO_FRAMES_PER_PKT s = Some t" "audio_inv s" "port < LINK_NUM_TDM_PORTS"
    "ch < LINK_TDM_CHANNELS_PER_PORT" "s_tx_pkt_pos s ! port ! ch = 0"
    "local_at port ch s = Some k" "subscribers (link_audio_local s ! k) \<noteq> []"
  obtains x beats pre post where "sender_keeps s x"
    "sent t = sent s @ pre @ map (\<lambda>y. sent_to (ip4_of (fst y)) (fst (snd y)) LINK_DISCOVERY_PORT
       (audio_packet k (s_tx_pkt_buf t ! port ! ch) beats x)) (subscribers (link_audio_local s ! k)) @ post"
proof -
  let ?n = "AUDIO_FRAMES_PER_PKT - 1"
  have n: "AUDIO_FRAMES_PER_PKT = Suc ?n" by (simp add: AUDIO_FRAMES_PER_PKT_def)
  obtain u where u: "tdm_frames port ?n s = Some u" and frame: "link_audio_on_tdm_frame port u = Some t"
    using assms(1) by (subst (asm) n) (auto simp: bind_eq_Some_conv)
  have here: "sender_keeps s u" "audio_inv u" "s_tx_pkt_pos u ! port ! ch + 1 = AUDIO_FRAMES_PER_PKT"
    using captured_frames [OF u _ assms(2-5)] by (simp_all add: AUDIO_FRAMES_PER_PKT_def)
  note at = sender_keeps_at [OF here(1) assms(6)]
  obtain x beats pre post where x: "sender_keeps u x"
    and "sent t = sent u @ pre @ map (\<lambda>y. sent_to (ip4_of (fst y)) (fst (snd y)) LINK_DISCOVERY_PORT
       (audio_packet k (s_tx_pkt_buf t ! port ! ch) beats x)) (subscribers (link_audio_local s ! k)) @ post"
    by (rule frame_sends [OF frame here(2) assms(3,4) here(3) at(1), unfolded at(3), OF assms(7)]) (rule that; assumption)
  moreover obtain ds where "sent u = sent s @ ds" using here(1) by (auto simp: sender_keeps_def)
  ultimately show thesis using that [OF sender_keeps_trans [OF here(1) x], where pre = "ds @ pre" and beats = beats] by simp
qed

section \<open>The receiver\<close>

text \<open>Where a subscription plays does not change while it is drained.\<close>

lemma popped_fields [simp]:
  "sub_in_use (popped port b) = sub_in_use b" "sub_tdm_port (popped port b) = sub_tdm_port b"
  "sub_tdm_channel (popped port b) = sub_tdm_channel b"
  by (simp_all add: popped_def jbuf_pop_def split: option.split)

lemma popped_plays [simp]: "plays port (popped q b) = plays port b"
  by (simp add: plays_def)

definition only_player :: "nat \<Rightarrow> nat \<Rightarrow> nat \<Rightarrow> link_audio_sub_t list \<Rightarrow> bool" where
  "only_player p c j bs \<longleftrightarrow> j < length bs \<and> (\<forall>i<length bs. plays p (bs ! i) \<and> sub_tdm_channel (bs ! i) = int c \<longleftrightarrow> i = j)"

lemma only_playerD:
  assumes "only_player p c j bs"
  shows "j < length bs" "plays p (bs ! j)" "sub_tdm_channel (bs ! j) = int c"
    "\<And>i. i < length bs \<Longrightarrow> i \<noteq> j \<Longrightarrow> \<not> (plays p (bs ! i) \<and> sub_tdm_channel (bs ! i) = int c)"
  using assms by (auto simp: only_player_def)

lemma only_player_samples:
  assumes "only_player p c j bs" "pending (bs ! j) \<noteq> []"
  shows "slot_samples p c bs = [hd (pending (bs ! j))]"
proof -
  let ?P = "\<lambda>b. plays p b \<and> sub_tdm_channel b = int c \<and> pending b \<noteq> []"
  note j = only_playerD [OF assms(1)]
  have "filter ?P (take j bs) = []"
    using j(1,4) by (auto simp: filter_empty_conv in_set_conv_nth)
  moreover have "filter ?P (drop (Suc j) bs) = []"
    using j(4) by (auto simp: filter_empty_conv in_set_conv_nth)
  moreover have "?P (bs ! j)" using j(2,3) assms(2) by simp
  moreover have "filter ?P bs = filter ?P (take j bs @ bs ! j # drop (Suc j) bs)"
    using id_take_nth_drop [OF j(1)] by (rule arg_cong)
  ultimately have "filter ?P bs = [bs ! j]" by simp
  then show ?thesis by (simp add: slot_samples_def)
qed

lemma drained_frames:
  assumes "tdm_frames p n s = Some t" "n \<le> length (pending (link_audio_subs s ! j))" "audio_inv s"
    "p < LINK_NUM_TDM_PORTS" "c < LINK_TDM_CHANNELS_PER_PORT" "only_player p c j (link_audio_subs s)"
  shows "audio_inv t \<and> only_player p c j (link_audio_subs t) \<and>
    pending (link_audio_subs t ! j) = drop n (pending (link_audio_subs s ! j)) \<and>
    (0 < n \<longrightarrow> tdm_tx_csr t p c = pending (link_audio_subs s ! j) ! (n - 1))"
  using assms(1,2)
proof (induction n arbitrary: t)
  case (Suc n)
  then obtain u where u: "tdm_frames p n s = Some u" and frame: "link_audio_on_tdm_frame p u = Some t"
    by (auto simp: bind_eq_Some_conv)
  let ?xs = "pending (link_audio_subs s ! j)"
  have IH: "audio_inv u" "only_player p c j (link_audio_subs u)" "pending (link_audio_subs u ! j) = drop n ?xs"
    using Suc.IH [OF u] Suc.prems(2) by simp_all
  note effect = tdm_frame_effect [OF frame IH(1) assms(4)]
  have j: "j < length (link_audio_subs u)" "plays p (link_audio_subs u ! j)" using only_playerD [OF IH(2)] by simp_all
  then have "ring_inv (link_audio_subs u ! j)" using IH(1) by (simp add: audio_inv_def)
  then have "pending (link_audio_subs t ! j) = drop (Suc n) ?xs"
    using j by (simp add: effect(2) popped_pending IH(3) drop_Suc tl_drop)
  moreover have "only_player p c j (link_audio_subs t)" using IH(2) by (simp add: only_player_def effect(2))
  moreover have "n < length ?xs" using Suc.prems(2) by simp
  then have "tdm_tx_csr t p c = ?xs ! n"
    using only_player_samples [OF IH(2)] assms(5) by (simp add: effect(3) IH(3) hd_drop_conv_nth)
  ultimately show ?case using frame_keeps(2) [OF frame assms(4) IH(1)] by simp
qed (use assms(3,6) in simp)

lemma pushed_fields:
  "sub_in_use (fold jbuf_push xs b) = sub_in_use b" "sub_tdm_port (fold jbuf_push xs b) = sub_tdm_port b"
  "sub_tdm_channel (fold jbuf_push xs b) = sub_tdm_channel b"
  by (induction xs arbitrary: b) (simp_all add: jbuf_push_def Let_def)

lemma frames_unheard: "unheard s \<Longrightarrow> \<exists>t. tdm_frames port n s = Some t \<and> unheard t"
proof (induction n)
  case (Suc n)
  then show ?case using frame_unheard by fastforce
qed simp

section \<open>Property\<close>

text \<open>
  C5: The way of a sample through two nodes. Sixty-four TDM frames of one node send, to every listener of
  a channel, one packet of what its port read in them. At a listener of the same session whose ring is
  empty and which alone plays into its slot, the next sixty-four frames write these samples to the
  transmit register of the slot, one per frame and in order. A node none of whose own channels is requested
  handles all these frames.
\<close>

theorem sample_path:
  assumes "audio_inv u" "port < LINK_NUM_TDM_PORTS" "ch < LINK_TDM_CHANNELS_PER_PORT" "s_tx_pkt_pos u ! port ! ch = 0"
    "local_at port ch u = Some k" "subscribers (link_audio_local u ! k) \<noteq> []"
    "tdm_frames port 64 u = Some v"
    and "audio_inv s" "p < LINK_NUM_TDM_PORTS" "c < LINK_TDM_CHANNELS_PER_PORT"
    "link_self_id u \<noteq> link_self_id s" "link_self_session u = link_self_session s"
    "find_sub_for_channel (loc_channel_id (link_audio_local u ! k)) s = Some j"
    "only_player p c j (link_audio_subs s)" "pending (link_audio_subs s ! j) = []"
  shows "\<exists>buf pre post t. sent v = sent u @ pre @ map (\<lambda>x. sent_to (ip4_of (fst x)) (fst (snd x)) LINK_DISCOVERY_PORT buf)
      (subscribers (link_audio_local u ! k)) @ post \<and>
    link_audio_handle_rx a buf ip sport s = Some t \<and> (unheard s \<longrightarrow> tdm_frames p 64 t \<noteq> None) \<and>
    (\<forall>n<64. \<forall>w. tdm_frames p (Suc n) t = Some w \<longrightarrow>
       tdm_tx_csr w p c = tdm_rx_csr u (tdm_accesses u + n * LINK_TDM_CHANNELS_PER_PORT + ch) port ch)"
proof -
  let ?smp = "s_tx_pkt_buf v ! port ! ch"
  have frames: "tdm_frames port AUDIO_FRAMES_PER_PKT u = Some v" using assms(7) by (simp add: AUDIO_FRAMES_PER_PKT_def)
  from packet_sent [OF this assms(1-6)] obtain x beats pre post where x: "sender_keeps u x"
    and sent_v: "sent v = sent u @ pre @ map (\<lambda>y. sent_to (ip4_of (fst y)) (fst (snd y)) LINK_DISCOVERY_PORT
       (audio_packet k ?smp beats x)) (subscribers (link_audio_local u ! k)) @ post" .
  have v: "audio_inv v" "\<And>i. i < 64 \<Longrightarrow> ?smp ! i = tdm_rx_csr u (tdm_accesses u + i * LINK_TDM_CHANNELS_PER_PORT + ch) port ch"
    using captured_frames [OF frames order_refl assms(1-4)] by (simp_all add: AUDIO_FRAMES_PER_PKT_def)
  then have len: "length ?smp = AUDIO_FRAMES_PER_PKT" using assms(2,3) by (simp add: audio_inv_def tx_inv_def)
  have same: "link_self_id x = link_self_id u" "link_self_session x = link_self_session u"
    using x core_fields(2,6) [of x] by (simp_all add: sender_keeps_def)
  let ?b = "fold jbuf_push ?smp ((link_audio_subs s ! j)\<lparr>num_chan_remote := 1\<rparr>)"
  let ?t = "s\<lparr>link_audio_subs := (link_audio_subs s)[j := ?b\<lparr>last_count := last_count ?b + 1\<rparr>]\<rparr>"
  have rx: "link_audio_handle_rx a (audio_packet k ?smp beats x) ip sport s = Some ?t"
    using audio_packet_received [of x s k j ?smp] assms(11-13) len sender_keeps_at(2) [OF x assms(5)]
    by (simp add: same Let_def)
  note j = only_playerD(1) [OF assms(14)]
  have "ring_inv ((link_audio_subs s ! j)\<lparr>num_chan_remote := 1\<rparr>)" using assms(8) j by (simp add: audio_inv_def)
  then have pending: "pending (link_audio_subs ?t ! j) = ?smp"
    using jring.push_all [of "(link_audio_subs s ! j)\<lparr>num_chan_remote := 1\<rparr>" ?smp] j len
    by (simp add: assms(15) audio_consts)
  have t: "audio_inv ?t" "only_player p c j (link_audio_subs ?t)"
    using link_audio_handle_rx_ok [OF rx] assms(8,14) j by (simp_all add: audio_ok_def only_player_def plays_def pushed_fields nth_list_update)
  have "tdm_tx_csr w p c = tdm_rx_csr u (tdm_accesses u + n * LINK_TDM_CHANNELS_PER_PORT + ch) port ch"
    if "tdm_frames p (Suc n) ?t = Some w" "n < 64" for n w
    using drained_frames [OF that(1) _ t(1) assms(9,10) t(2)] that(2) v(2) len unfolding pending by (simp add: AUDIO_FRAMES_PER_PKT_def)
  moreover have "tdm_frames p 64 ?t \<noteq> None" if "unheard s"
    using frames_unheard [of ?t p 64] that by (auto simp: unheard_def)
  ultimately show ?thesis
    using sent_v rx by (intro exI [of _ "audio_packet k ?smp beats x"] exI [of _ pre] exI [of _ post] exI [of _ ?t]) simp
qed

end
