(* ===== verification/Subscriptions.thy ===== *)
theory Subscriptions
  imports Audio_Path
begin

text \<open>
  The life of a subscription: the call that makes it, the request the next tick sends for it, the entry
  it gets at the owner of the channel, and what becomes of a second one for the same channel.
\<close>

section \<open>The tick\<close>

lemma sender_keeps_update [simp]:
  "sender_keeps s (t\<lparr>n_reads := n\<rparr>) = sender_keeps s t" "sender_keeps s (t\<lparr>s_last_announce_us := x\<rparr>) = sender_keeps s t"
  "sender_keeps s (t\<lparr>link_audio_subs := bs\<rparr>) = sender_keeps s t" "sender_keeps (s\<lparr>n_reads := n\<rparr>) t = sender_keeps s t"
  by (simp_all add: sender_keeps_def)

lemma sender_keeps_logged: "sender_keeps s t \<Longrightarrow> sender_keeps s (logged d t)"
  by (auto simp: sender_keeps_def) (simp_all add: logged_def)

lemma announce_to_keeps: "sender_keeps s (announce_to ps first s) \<and> link_audio_subs (announce_to ps first s) = link_audio_subs s"
proof (induction ps arbitrary: first s)
  case (Cons p ps)
  let ?buf = "fst (encode_peer_announcement first s)" and ?s = "snd (encode_peer_announcement first s)"
  let ?t = "logged (sent_to (ip4_of (aep4_addr p)) (aep4_port p) LINK_DISCOVERY_PORT ?buf) ?s"
  have "sender_keeps s ?s" "link_audio_subs ?s = link_audio_subs s"
    by (simp_all add: encode_peer_announcement_def Let_def host_time_us_eq case_prod_beta)
  then have "sender_keeps s ?t" "link_audio_subs ?t = link_audio_subs s"
    by (simp_all add: sender_keeps_logged) (simp add: logged_def)
  then show ?case using Cons.IH [of s False] Cons.IH [of ?t False] Cons.IH [of s first] sender_keeps_trans
    by (auto simp: case_prod_beta)
qed simp

lemma rerequest_keeps:
  "sender_keeps s (rerequest now k s)" "length (link_audio_subs (rerequest now k s)) = length (link_audio_subs s)"
  "j \<noteq> k \<Longrightarrow> link_audio_subs (rerequest now k s) ! j = link_audio_subs s ! j"
proof -
  let ?b = "link_audio_subs s ! k"
  let ?s = "send_channel_request 4 (source_addr ?b) (source_port ?b) (sub_channel_id ?b) s"
  have "sender_keeps s ?s" by (simp add: send_channel_request_def Let_def sender_keeps_logged)
  then show "sender_keeps s (rerequest now k s)"
    by (simp add: rerequest_def Let_def)
  have "link_audio_subs ?s = link_audio_subs s" by (simp add: send_channel_request_def Let_def logged_def)
  then show "length (link_audio_subs (rerequest now k s)) = length (link_audio_subs s)"
    "j \<noteq> k \<Longrightarrow> link_audio_subs (rerequest now k s) ! j = link_audio_subs s ! j"
    by (simp_all add: rerequest_def Let_def)
qed

lemma rerequests_keep:
  "sender_keeps s (fold (rerequest now) ks s) \<and> (j \<notin> set ks \<longrightarrow> link_audio_subs (fold (rerequest now) ks s) ! j = link_audio_subs s ! j)"
proof (induction ks arbitrary: s)
  case (Cons k ks)
  from sender_keeps_trans [OF rerequest_keeps(1) conjunct1 [OF Cons.IH]] show ?case
    using Cons.IH [of "rerequest now k s"] rerequest_keeps(3) [of j k now s] by simp
qed simp

lemma keeps_log: "sender_keeps s t \<Longrightarrow> \<exists>ds. sent t = sent s @ ds"
  by (simp add: sender_keeps_def)

text \<open>A subscription whose request is due gets it.\<close>

lemma due_request_sent:
  assumes "j < LINK_AUDIO_MAX_REMOTE" "sub_in_use (link_audio_subs s ! j)" "next_request_us (link_audio_subs s ! j) = 0"
  shows "\<exists>pre post. sent (link_audio_tick s) = sent s @ pre @
    [sent_to (ip4_of (source_addr (link_audio_subs s ! j))) (source_port (link_audio_subs s ! j)) LINK_DISCOVERY_PORT
      (encode_audio_header 4 5 s @ tlv_entry (KEY_CHID, id_bytes (sub_channel_id (link_audio_subs s ! j))))] @ post"
proof -
  let ?s = "s\<lparr>n_reads := n_reads s + 2\<rparr>" and ?now = "host_now s" and ?b = "link_audio_subs s ! j"
  define u where "u = (if of_nat (LINK_DISCOVERY_BCAST_MS * 1000) < ?now - s_last_announce_us s then send_announcements ?s else ?s)"
  define v where "v = fold (rerequest ?now) [0..<j] u"
  define w where "w = rerequest ?now j v"
  have tick: "link_audio_tick s = fold (rerequest ?now) [Suc j..<LINK_AUDIO_MAX_REMOTE] w"
  proof -
    have "[0..<LINK_AUDIO_MAX_REMOTE] = [0..<j] @ j # [Suc j..<LINK_AUDIO_MAX_REMOTE]"
      using assms(1) by (metis le0 less_imp_le_nat upt_add_eq_append upt_conv_Cons le_add_diff_inverse)
    then show ?thesis by (simp add: link_audio_tick_def host_time_us_eq Let_def u_def v_def w_def)
  qed
  have "sender_keeps ?s u" "link_audio_subs u = link_audio_subs s"
    using announce_to_keeps [of ?s "link_peers s" True]
    by (simp_all add: u_def send_announcements_def host_time_us_eq Let_def)
  moreover have "sender_keeps u v" "link_audio_subs v ! j = link_audio_subs u ! j"
    using rerequests_keep [of u ?now "[0..<j]" j] by (simp_all add: v_def)
  ultimately have v: "sender_keeps s v" "link_audio_subs v ! j = ?b"
    using sender_keeps_trans [of s u v] by simp_all
  have "link_self_id v = link_self_id s" using v(1) core_fields(2) [of v] by (simp add: sender_keeps_def)
  then have "encode_audio_header 4 5 v = encode_audio_header 4 5 s" by (simp add: encode_audio_header_def)
  then have "sent w = sent v @ [sent_to (ip4_of (source_addr ?b)) (source_port ?b) LINK_DISCOVERY_PORT
      (encode_audio_header 4 5 s @ tlv_entry (KEY_CHID, id_bytes (sub_channel_id ?b)))]"
    using assms(2,3) channel_request_sent [of 4 _ _ _ v] by (simp add: w_def rerequest_def Let_def v(2))
  moreover obtain pre where "sent v = sent s @ pre" using keeps_log [OF v(1)] by blast
  moreover obtain post where "sent (link_audio_tick s) = sent w @ post"
    unfolding tick using keeps_log rerequests_keep by blast
  ultimately show ?thesis by auto
qed

section \<open>Two subscriptions to one channel\<close>

text \<open>
  A buffer goes to the first subscription of its channel. Nothing stops a second subscription from being
  made; it is answered with success, and no buffer ever reaches it.
\<close>

theorem second_subscription_silent:
  assumes "j < k" "k < length (link_audio_subs s)" "sub_in_use (link_audio_subs s ! j)"
    "sub_channel_id (link_audio_subs s ! j) = sub_channel_id (link_audio_subs s ! k)"
    "handle_audio_buffer p n s = Some t"
  shows "link_audio_subs t ! k = link_audio_subs s ! k"
  using assms(5)
proof (cases rule: handle_audio_buffer_cases)
  case (stored channel i q c m b)
  note hit = find_index_SomeD [OF stored(1) [unfolded find_sub_for_channel_def]]
  have "i \<noteq> k"
  proof
    assume "i = k"
    with hit assms(1,3,4) show False by auto
  qed
  then show ?thesis by (simp add: stored(3))
qed simp

section \<open>Renewal\<close>

text \<open>The request a subscription is renewed with, and the subscription afterwards.\<close>

definition renewal_due :: "u64 \<Rightarrow> link_audio_sub_t \<Rightarrow> bool" where
  "renewal_due now b \<longleftrightarrow> sub_in_use b \<and> next_request_us b \<le> now"

definition renewal :: "'a audio_st_scheme \<Rightarrow> link_audio_sub_t \<Rightarrow> datagram" where
  "renewal s b = sent_to (ip4_of (source_addr b)) (source_port b) LINK_DISCOVERY_PORT
     (encode_audio_header 4 5 s @ tlv_entry (KEY_CHID, id_bytes (sub_channel_id b)))"

definition renewed :: "u64 \<Rightarrow> link_audio_sub_t \<Rightarrow> link_audio_sub_t" where
  "renewed now b = (if renewal_due now b then b\<lparr>next_request_us := now + 5000000\<rparr> else b)"

lemma renewal_cong: "link_self_id t = link_self_id s \<Longrightarrow> renewal t b = renewal s b"
  by (simp add: renewal_def encode_audio_header_def)

lemma rerequest_once:
  assumes "k < length (link_audio_subs s)"
  shows "link_audio_subs (rerequest now k s) = (link_audio_subs s)[k := renewed now (link_audio_subs s ! k)] \<and>
    sent (rerequest now k s) = sent s @ (if renewal_due now (link_audio_subs s ! k) then [renewal s (link_audio_subs s ! k)] else [])"
proof -
  let ?b = "link_audio_subs s ! k"
  have "link_audio_subs (send_channel_request m addr port cid s) = link_audio_subs s" for m addr port cid
    by (simp add: send_channel_request_def Let_def logged_def)
  moreover have "sent (u\<lparr>link_audio_subs := bs\<rparr>) = sent u" for u :: "'a audio_st_scheme" and bs by simp
  ultimately show ?thesis
    using channel_request_sent [of 4 "source_addr ?b" "source_port ?b" "sub_channel_id ?b" s]
    by (auto simp: rerequest_def renewal_due_def renewed_def renewal_def Let_def AUDIO_REQUEST_TTL_MS_def)
qed

lemma rerequest_all:
  assumes "n \<le> length (link_audio_subs s)"
  shows "link_audio_subs (fold (rerequest now) [0..<n] s) = map (renewed now) (take n (link_audio_subs s)) @ drop n (link_audio_subs s) \<and>
    sent (fold (rerequest now) [0..<n] s) = sent s @ map (renewal s) (filter (renewal_due now) (take n (link_audio_subs s)))"
  using assms
proof (induction n)
  case (Suc n)
  let ?t = "fold (rerequest now) [0..<n] s" and ?b = "link_audio_subs s ! n"
  have subs: "link_audio_subs ?t = map (renewed now) (take n (link_audio_subs s)) @ drop n (link_audio_subs s)"
    and log: "sent ?t = sent s @ map (renewal s) (filter (renewal_due now) (take n (link_audio_subs s)))"
    using Suc by simp_all
  have n: "n < length (link_audio_subs ?t)" "link_audio_subs ?t ! n = ?b"
    using Suc.prems by (simp_all add: subs nth_append)
  have "sender_keeps s ?t" using rerequests_keep [of s now "[0..<n]"] by blast
  then have self: "renewal ?t b = renewal s b" for b
    using core_fields(2) [of ?t] by (intro renewal_cong) (simp add: sender_keeps_def)
  have split: "take (Suc n) (link_audio_subs s) = take n (link_audio_subs s) @ [?b]"
    "drop n (link_audio_subs s) = ?b # drop (Suc n) (link_audio_subs s)"
    using Suc.prems by (simp_all add: take_Suc_conv_app_nth Cons_nth_drop_Suc)
  have "(map (renewed now) (take n (link_audio_subs s)) @ drop n (link_audio_subs s))[n := renewed now ?b] =
      map (renewed now) (take (Suc n) (link_audio_subs s)) @ drop (Suc n) (link_audio_subs s)"
    using Suc.prems unfolding split by (simp add: list_update_append)
  with rerequest_once [OF n(1), of now, unfolded n(2) self] show ?case
    unfolding subs log by (simp add: split(1))
qed simp

section \<open>Properties\<close>

text \<open>
  C13: Subscribing. A channel not in the catalogue gives -1, a full table -2, and neither changes anything.
  Otherwise a free entry plays the channel, empty at first, into the slot asked for, and the next tick sends
  a request to the endpoint the channel was announced from; the owner of the channel who receives it has the
  node among the channel's listeners, at the address the request came from.
\<close>

theorem subscription_established:
  assumes "link_self_id s \<noteq> link_self_id u" "audio_inv s" "audio_inv u" "find_local_channel i u = Some k" "unat a + 44 < 2 ^ 32"
  shows "case catalogue s i of
      None \<Rightarrow> link_audio_subscribe p c i s = (- 1, s)
    | Some r \<Rightarrow> (case find_index (\<lambda>b. \<not> sub_in_use b) (link_audio_subs s) of
        None \<Rightarrow> link_audio_subscribe p c i s = (- 2, s)
      | Some j \<Rightarrow> \<exists>b s' buf pre post t. link_audio_subscribe p c i s = (0, s') \<and>
          link_audio_subs s' = (link_audio_subs s)[j := b] \<and> sub_in_use b \<and> sub_channel_id b = i \<and>
          sub_tdm_port b = p \<and> sub_tdm_channel b = c \<and> pending b = [] \<and>
          sent (link_audio_tick s') = sent s @ pre @
            [sent_to (ip4_of (endpoint_addr r)) (endpoint_port r) LINK_DISCOVERY_PORT buf] @ post \<and>
          link_audio_handle_rx a buf ip port u = Some t \<and>
          subscribers (link_audio_local t ! k) = add_spec (link_self_id s) ip port (subscribers (link_audio_local u ! k)))"
proof (cases "find_index (is_remote i) (link_audio_remote s)")
  case None
  then show ?thesis by (simp add: catalogue_index link_audio_subscribe_def)
next
  case (Some m)
  let ?r = "link_audio_remote s ! m"
  have r: "catalogue s i = Some ?r" "rem_channel_id ?r = i"
    using Some find_index_hit [OF Some] by (simp_all add: catalogue_index)
  note found = Some
  show ?thesis
  proof (cases "find_index (\<lambda>b. \<not> sub_in_use b) (link_audio_subs s)")
    case None
    then have "link_audio_subscribe p c i s = (- 2, s)" using found by (simp add: link_audio_subscribe_def Let_def)
    then show ?thesis by (simp only: r(1) None option.case)
  next
    case (Some j)
    define b where "b = zero_sub\<lparr>sub_in_use := True, sub_channel_id := i, source_peer := rem_peer_id ?r, source_addr := endpoint_addr ?r,
      source_port := endpoint_port ?r, sub_tdm_port := p, sub_tdm_channel := c, next_request_us := 0\<rparr>"
    define s' where "s' = s\<lparr>link_audio_subs := (link_audio_subs s)[j := b]\<rparr>"
    have call: "link_audio_subscribe p c i s = (0, s')"
      using found Some r(2)
      by (simp add: link_audio_subscribe_def Let_def s'_def b_def)
    have j: "j < length (link_audio_subs s)" using find_index_bound [OF Some] .
    then have new: "link_audio_subs s' ! j = b" "j < LINK_AUDIO_MAX_REMOTE" using assms(2) by (simp_all add: s'_def audio_inv_def)
    have b: "sub_in_use b" "sub_channel_id b = i" "sub_tdm_port b = p" "sub_tdm_channel b = c" "pending b = []"
      "next_request_us b = 0" "source_addr b = endpoint_addr ?r" "source_port b = endpoint_port ?r"
      by (simp_all add: b_def pending_def zero_sub_def)
    let ?buf = "encode_audio_header 4 5 s @ tlv_entry (KEY_CHID, id_bytes i)"
    have "encode_audio_header 4 5 s' = encode_audio_header 4 5 s" by (simp add: encode_audio_header_def s'_def)
    then obtain pre post where tick: "sent (link_audio_tick s') = sent s @ pre @
        [sent_to (ip4_of (endpoint_addr ?r)) (endpoint_port ?r) LINK_DISCOVERY_PORT ?buf] @ post"
      using due_request_sent [of j s'] new b by (auto simp: s'_def)
    have at: "unat (a + 20) + 24 < 2 ^ 32" using assms(5) by (subst unat_add_small) simp_all
    let ?t = "u\<lparr>link_audio_local := (link_audio_local u)[k := add_subscriber (link_self_id s) ip port (link_audio_local u ! k)]\<rparr>"
    have rx: "link_audio_handle_rx a ?buf ip port u = Some ?t"
      unfolding audio_message_dispatch [OF assms(1)] handle_channel_request_received [OF at assms(4)] by simp
    have k: "k < length (link_audio_local u)" using assms(4) unfolding find_local_channel_def by (rule find_index_bound)
    then have "subs_inv (link_audio_local u ! k)" using assms(3) by (simp add: audio_inv_def)
    then have "subscribers (link_audio_local ?t ! k) = add_spec (link_self_id s) ip port (subscribers (link_audio_local u ! k))"
      using k by (simp add: add_subscriber_refines)
    then show ?thesis
      unfolding r(1) Some option.case
      by (intro exI [of _ b] exI [of _ s'] exI [of _ ?buf] exI [of _ pre] exI [of _ post] exI [of _ ?t] conjI)
        (use call b tick rx in \<open>simp_all add: s'_def\<close>)
  qed
qed

text \<open>
  C16: Every tick renews exactly the subscriptions that are due: for each entry in use whose time has come
  one request goes to the endpoint of its source, in the order of the table, and the next one is due five
  seconds later; all others are left as they are. Before that the tick sends only its announcements, and
  those no sooner than 250 ms after the last ones.
\<close>

theorem subscriptions_renewed:
  assumes "length (link_audio_subs s) = LINK_AUDIO_MAX_REMOTE"
  shows "\<exists>announced. sent (link_audio_tick s) = sent s @ announced @
      map (renewal s) (filter (renewal_due (host_now s)) (link_audio_subs s)) \<and>
    (host_now s - s_last_announce_us s \<le> 250000 \<longrightarrow> announced = []) \<and>
    link_audio_subs (link_audio_tick s) = map (renewed (host_now s)) (link_audio_subs s)"
proof -
  let ?s = "s\<lparr>n_reads := n_reads s + 2\<rparr>" and ?now = "host_now s"
  define u where "u = (if of_nat (LINK_DISCOVERY_BCAST_MS * 1000) < ?now - s_last_announce_us s then send_announcements ?s else ?s)"
  have tick: "link_audio_tick s = fold (rerequest ?now) [0..<LINK_AUDIO_MAX_REMOTE] u"
    by (simp add: link_audio_tick_def host_time_us_eq Let_def u_def)
  have u: "sender_keeps s u" "link_audio_subs u = link_audio_subs s"
    using announce_to_keeps [of ?s "link_peers s" True]
    by (simp_all add: u_def send_announcements_def host_time_us_eq Let_def)
  then obtain announced where announced: "sent u = sent s @ announced" using keeps_log by blast
  have "sent u = sent s" if "host_now s - s_last_announce_us s \<le> 250000"
    using that by (simp add: u_def LINK_DISCOVERY_BCAST_MS_def not_less [symmetric])
  with announced have "host_now s - s_last_announce_us s \<le> 250000 \<longrightarrow> announced = []" by simp
  moreover have "renewal u b = renewal s b" for b
    using u(1) core_fields(2) [of u] by (intro renewal_cong) (simp add: sender_keeps_def)
  ultimately show ?thesis
    using rerequest_all [of LINK_AUDIO_MAX_REMOTE u ?now] assms u(2) announced unfolding tick
    by (intro exI [of _ announced]) simp
qed

end
