(* ===== verification/Audio_Witnesses.thy ===== *)
theory Audio_Witnesses
  imports Announcements Subscriptions
begin

text \<open>
  Concrete nodes at which the hypotheses of the audio properties hold: \<open>audio_node i\<close> has zeroed audio
  tables, \<open>speaker\<close> publishes one channel to one subscriber, and \<open>listener\<close> subscribes to it.
\<close>

definition audio_node :: "link_id \<Rightarrow> audio_st" where
  "audio_node i = tdm_st.extend
     (meas_st.extend (node i) (tdm_st.fields [0, 0] (\<lambda>_ _ _. 0) (\<lambda>_ _. 0) (\<lambda>_ _. 0) 0 [0, 0]))
     (audio_st.fields (replicate MAX_LOCAL_CHANNELS zero_local) (replicate LINK_AUDIO_MAX_REMOTE zero_remote)
        (replicate LINK_AUDIO_MAX_REMOTE zero_sub) (replicate LINK_AUDIO_NAME_MAX 0) 0
        (replicate LINK_NUM_TDM_PORTS (replicate LINK_TDM_CHANNELS_PER_PORT (replicate AUDIO_FRAMES_PER_PKT 0)))
        (replicate LINK_NUM_TDM_PORTS (replicate LINK_TDM_CHANNELS_PER_PORT 0)))"

lemmas audio_node_defs = audio_node_def tdm_st.extend_def meas_st.extend_def tdm_st.fields_def audio_st.fields_def

lemma audio_node_fields [simp]:
  "link_self_id (audio_node i) = i" "link_self_session (audio_node i) = i"
  "link_audio_local (audio_node i) = replicate MAX_LOCAL_CHANNELS zero_local"
  "link_audio_remote (audio_node i) = replicate LINK_AUDIO_MAX_REMOTE zero_remote"
  "link_audio_subs (audio_node i) = replicate LINK_AUDIO_MAX_REMOTE zero_sub"
  "s_peer_name (audio_node i) = replicate LINK_AUDIO_NAME_MAX 0"
  "link_self_timeline (audio_node i) = link_self_timeline (node i)"
  "host_clk (audio_node i) = host_clk (node i)" "n_reads (audio_node i) = 0" "intercept (audio_node i) = 0"
  by (simp_all add: audio_node_defs intercept_def) (simp_all add: node_def)

lemma audio_node_tx: "tx_inv (audio_node i)"
  by (simp add: tx_inv_def) (simp add: audio_node_defs audio_consts)

lemma audio_node_inv: "audio_inv (audio_node i)"
  by (simp add: audio_inv_def remotes.distinct_free audio_node_tx)

lemma audio_node_names: "names_inv (audio_node i)"
  by (simp add: names_inv_def c_str_def takeWhile_replicate zero_local_def) (simp add: audio_consts)

definition idX :: link_id where "idX = Link_id 9 9 9 9 9 9 9 9"

definition spoken :: link_audio_local_t where
  "spoken = add_subscriber idB 0x0A000002 20808 (zero_local\<lparr>loc_in_use := True, loc_channel_id := idX\<rparr>)"

lemma spoken_fields [simp]:
  "loc_in_use spoken" "loc_channel_id spoken = idX" "num_subscribers spoken = 1" "subs_inv spoken"
  "loc_name spoken = replicate LINK_AUDIO_NAME_MAX 0"
  by (simp_all add: spoken_def add_subscriber_inv add_subscriber_def Let_def zero_local_def subs_inv_def
      subscribers_def subscriber_def audio_consts)

definition speaker :: audio_st where
  "speaker = audio_node idA\<lparr>link_audio_local := (replicate MAX_LOCAL_CHANNELS zero_local)[0 := spoken]\<rparr>"

definition listener :: audio_st where
  "listener = audio_node idB\<lparr>link_self_session := idA, link_audio_subs :=
     (replicate LINK_AUDIO_MAX_REMOTE zero_sub)[0 := zero_sub\<lparr>sub_in_use := True, sub_channel_id := idX\<rparr>]\<rparr>"

lemma speaker_fields [simp]:
  "link_self_id speaker = idA" "link_self_session speaker = idA" "link_audio_local speaker ! 0 = spoken"
  "length (link_audio_local speaker) = MAX_LOCAL_CHANNELS"
  "link_self_timeline speaker = link_self_timeline (node idA)" "host_clk speaker = host_clk (node idA)"
  "n_reads speaker = 0" "intercept speaker = 0"
  by (simp_all add: speaker_def audio_consts LINK_NUM_TDM_PORTS_def LINK_TDM_CHANNELS_PER_PORT_def intercept_def)
    (simp_all flip: intercept_def)

lemma listener_fields [simp]:
  "link_self_id listener = idB" "link_self_session listener = idA"
  "find_sub_for_channel idX listener = Some 0" "ring_inv (link_audio_subs listener ! 0)"
  by (simp_all add: listener_def find_sub_for_channel_def find_index_eq_Some audio_consts zero_sub_def ring_inv_def)

lemma speaker_inv: "audio_inv speaker" "names_inv speaker" "published_channels speaker = [spoken]"
proof -
  show "audio_inv speaker"
    unfolding speaker_def using audio_inv_local [OF audio_node_inv, of spoken idA 0] by simp
  show "names_inv speaker"
    unfolding speaker_def using names_inv_local [OF audio_node_names, of spoken idA 0]
    by (simp add: c_str_def takeWhile_replicate)
  have "filter loc_in_use (replicate n zero_local) = []" for n
    by (simp add: zero_local_def)
  then show "published_channels speaker = [spoken]"
    by (simp add: published_channels_def speaker_def audio_consts LINK_NUM_TDM_PORTS_def
        LINK_TDM_CHANNELS_PER_PORT_def upd_conv_take_nth_drop)
qed

section \<open>Setters\<close>

lemma node_usable: "usable_timeline (link_self_timeline (node i)) (ghost_now (node i))"
proof -
  have "ghost_now (node i) = 1000001"
    by (simp add: ghost_now_def join_words_same drop_bit_eq_div)
  then show ?thesis by (simp add: usable_timeline_def) (simp add: node_def)
qed

theorem set_local_tempo_keeps_phase_witness:
  "\<exists>t. link_set_local_tempo (Fin 120) (node idA) = Some t \<and> time_origin_us_ghost (link_self_timeline t) = ghost_now (node idA)"
  using set_local_tempo_keeps_phase [where x = 120 and s = "node idA", OF _ _ node_usable] by auto

theorem set_play_pins_beat_witness: "\<exists>t. link_set_play True (node idA) = Some t \<and> run_bit t"
  using set_play_pins_beat [where p = True, OF node_usable [of idA]] by auto

theorem zero_tempo_undefined_witness:
  "link_set_play True (node idA\<lparr>link_self_timeline := zero_timeline\<rparr>) = None"
  using zero_tempo_undefined [where s = "node idA\<lparr>link_self_timeline := zero_timeline\<rparr>" and p = True]
  by (simp add: zero_timeline_def)

section \<open>Audio\<close>

theorem audio_exchange_witness:
  "\<exists>v buf t. send_audio_buffer_for 0 (replicate 64 7) speaker = Some v \<and>
     sent v = sent speaker @ [sent_to (ip4_of 0x0A000002) 20808 LINK_DISCOVERY_PORT buf] \<and>
     link_audio_handle_rx 0x40001000 buf 0x0A000001 20808 listener = Some t \<and>
     pending (link_audio_subs t ! 0) = latest 1024 (pending (link_audio_subs listener ! 0) @ replicate 64 7)"
proof -
  have "\<exists>b. beats_at (ghost_now speaker - 1333) 0 500000 = Some b"
  proof -
    have now: "ghost_now speaker = 1000001" by (simp add: ghost_now_def join_words_same drop_bit_eq_div)
    have "sint (1000001 - 1333 - 0 :: i64) = 998668" by simp
    then show ?thesis using beats_at_accurate [of "1000001 - 1333" 0 500000] by (auto simp: now)
  qed
  then obtain v where v: "send_audio_buffer_for 0 (replicate 64 7) speaker = Some v"
    by (auto simp: send_audio_buffer_for_def Let_def ghost_time_us_eq audio_consts LINK_TDM_FS_HZ_def node_def)
  have "subscribers spoken = [(0x0A000002, 20808, idB)]"
    by (simp add: subscribers_def subscriber_def)
      (simp add: spoken_def add_subscriber_def Let_def zero_local_def audio_consts)
  then show ?thesis
    using audio_exchange [OF v, of listener 0 "0x40001000" "0x0A000001" 20808] v
    by (auto simp: audio_consts)
qed

lemma speaker_owns: "find_local_channel idX speaker = Some 0"
  by (simp add: find_local_channel_def speaker_def find_index_eq_Some audio_consts LINK_NUM_TDM_PORTS_def
      LINK_TDM_CHANNELS_PER_PORT_def)

theorem channel_request_exchange_witness:
  "\<exists>buf t. sent (send_channel_request 5 1 20808 idX listener) = sent listener @ [sent_to (ip4_of 1) 20808 LINK_DISCOVERY_PORT buf] \<and>
     link_audio_handle_rx 0x40001000 buf 0x0A000002 20808 speaker = Some t \<and>
     subscribers (link_audio_local t ! 0) = [] \<and>
     link_audio_handle_rx 0x40001000 buf 0x0A000002 20809 speaker = Some speaker"
proof -
  have "subscribers spoken = [(0x0A000002, 20808, idB)]"
    by (simp add: subscribers_def subscriber_def)
      (simp add: spoken_def add_subscriber_def Let_def zero_local_def audio_consts)
  then have list: "subscribers (link_audio_local speaker ! 0) = [(0x0A000002, 20808, idB)]" using speaker_owns by simp
  note exchange = channel_request_exchange [of listener speaker 0 idX "0x40001000" 5 1 20808 "0x0A000002"]
  obtain buf t where 1: "sent (send_channel_request 5 1 20808 idX listener) = sent listener @ [sent_to (ip4_of 1) 20808 LINK_DISCOVERY_PORT buf]"
    "link_audio_handle_rx 0x40001000 buf 0x0A000002 20808 speaker = Some t" "subscribers (link_audio_local t ! 0) = []"
    using exchange [of 20808] speaker_owns list by (auto simp: remove_spec_def)
  obtain buf' t' where 2: "sent (send_channel_request 5 1 20808 idX listener) = sent listener @ [sent_to (ip4_of 1) 20808 LINK_DISCOVERY_PORT buf']"
    "link_audio_handle_rx 0x40001000 buf' 0x0A000002 20809 speaker = Some t'" "t' = speaker"
    using exchange [of 20809] speaker_owns list by auto
  have "buf' = buf" using 1(1) 2(1) by (simp add: sent_to_def)
  with 1 2 show ?thesis by blast
qed


theorem overflowing_counts_overread_witness:
  "link_audio_handle_rx 0x40001000 (encode_audio_header 6 0 speaker @ replicate 16 0 @ [0x80, 0, 0, 0] @ replicate 40 0)
     0x0A000001 20808 (audio_node idB) = None"
  using overflowing_counts_overread [where u = speaker and s = "audio_node idB" and ttl = 0 and a = "0x40001000"
      and body = "replicate 16 0 @ [0x80, 0, 0, 0] @ replicate 40 0" and ip = "0x0A000001" and port = 20808]
  by (simp add: be32_def)

text \<open>One sample waits in the ring of the first subscription, for the first slot of the first port.\<close>

definition queued :: link_audio_sub_t where
  "queued = jbuf_push 7 (zero_sub\<lparr>sub_in_use := True\<rparr>)"

lemma queued_fields: "ring_inv queued" "sub_in_use queued" "sub_tdm_port queued = 0" "sub_tdm_channel queued = 0" "pending queued = [7]"
  by (simp_all add: queued_def jbuf_push_def Let_def zero_sub_def ring_inv_def pending_def audio_consts)

theorem tdm_frame_handled_witness:
  "\<exists>t. link_audio_on_tdm_frame 0 (audio_node idB\<lparr>link_audio_subs := (replicate LINK_AUDIO_MAX_REMOTE zero_sub)[0 := queued]\<rparr>) = Some t \<and>
     pending (link_audio_subs t ! 0) = [] \<and> tdm_tx_csr t 0 0 = 7"
proof -
  let ?s = "audio_node idB\<lparr>link_audio_subs := (replicate LINK_AUDIO_MAX_REMOTE zero_sub)[0 := queued]\<rparr>"
  have inv: "audio_inv ?s" using audio_inv_sub [OF audio_node_inv queued_fields(1), of idB 0] by simp
  have pos: "s_tx_pkt_pos ?s ! 0 ! ch \<noteq> 63" if "ch < LINK_TDM_CHANNELS_PER_PORT" for ch
    using that by (simp add: audio_node_defs LINK_NUM_TDM_PORTS_def)
  have idle: "\<not> plays 0 zero_sub" by (simp add: plays_def zero_sub_def)
  have subs: "link_audio_subs ?s = queued # replicate 63 zero_sub" by (simp add: audio_consts numeral_eq_Suc)
  have plays: "plays 0 queued" by (simp add: plays_def queued_fields)
  have samples: "slot_samples 0 0 (link_audio_subs ?s) = [7]"
    unfolding subs by (simp add: slot_samples_def plays queued_fields idle)
  show ?thesis
    using tdm_frame_handled [OF inv, of 0] pos samples plays
    by (auto simp: LINK_NUM_TDM_PORTS_def LINK_TDM_CHANNELS_PER_PORT_def audio_consts queued_fields split: option.splits)
qed

text \<open>The speaker on a stopped clock sends every packet that fills up.\<close>

lemma frames_defined:
  assumes sends: "\<And>x k smp. sender_keeps s x \<Longrightarrow> send_audio_buffer_for k smp x \<noteq> None"
    and "audio_inv s" "port < LINK_NUM_TDM_PORTS"
  shows "\<exists>t. tdm_frames port n s = Some t \<and> sender_keeps s t \<and> audio_inv t"
proof (induction n)
  case (Suc n)
  then obtain t where t: "tdm_frames port n s = Some t" "sender_keeps s t" "audio_inv t" by blast
  have captures: "\<exists>x. fold_option (capture_channel port) [0..<m] t = Some x" if "m \<le> LINK_TDM_CHANNELS_PER_PORT" for m
    using that
  proof (induction m)
    case (Suc m)
    then obtain x where x: "fold_option (capture_channel port) [0..<m] t = Some x" by auto
    have "sender_keeps t x" using capture_channels_keep [OF x _ assms(3) t(3)] Suc.prems by auto
    then have "sender_keeps s (store_packet port m x)"
      using t(2) store_packet_keeps sender_keeps_trans by blast
    from sends [OF this] have "capture_channel port m x \<noteq> None"
      using Suc.prems assms(3) by (auto simp: capture_channel_eq split: option.splits)
    then show ?case by (auto simp: fold_option_append x)
  qed simp
  from captures [OF order_refl] obtain w where frame: "link_audio_on_tdm_frame port t = Some w"
    using assms(3) by (auto simp: link_audio_on_tdm_frame_def)
  show ?case
    using t frame frame_keeps [OF frame assms(3) t(3)] by (auto intro: sender_keeps_trans)
qed (simp add: assms(2))

definition still_speaker :: audio_st where
  "still_speaker = speaker\<lparr>host_clk := \<lambda>_. 1000000\<rparr>"

lemma still_speaker_inv: "audio_inv still_speaker"
  using speaker_inv(1) by (simp add: still_speaker_def audio_inv_def tx_inv_def)

lemma still_speaker_sends:
  assumes "sender_keeps still_speaker x"
  shows "send_audio_buffer_for k smp x \<noteq> None"
proof -
  have core: "core x = core still_speaker" using assms by (simp add: sender_keeps_def)
  have clk: "host_clk (core y) = host_clk y" "intercept (core y) = intercept y" for y :: audio_st
    by (simp_all add: core_def meas_st.truncate_def intercept_def)
  have here: "host_clk x = (\<lambda>_. 1000000)" "intercept x = 0" "link_self_timeline x = link_self_timeline (node idA)"
    using core clk [of x] clk [of still_speaker] core_fields(7) [of x] core_fields(7) [of still_speaker]
    by (simp_all add: still_speaker_def intercept_def) (simp_all flip: intercept_def)
  have now: "ghost_now x = 1000000" by (simp add: ghost_now_def here join_words_same drop_bit_eq_div)
  have "sint (1000000 - 1333 - 0 :: i64) = 998667" by simp
  then have "\<exists>b. beats_at (1000000 - 1333) 0 500000 = Some b" using beats_at_accurate [of "1000000 - 1333" 0 500000] by auto
  then obtain b where "beats_at (1000000 - 1333) 0 500000 = Some b" ..
  then show ?thesis
    by (auto simp: send_audio_buffer_for_def Let_def ghost_time_us_eq now here(3) audio_consts LINK_TDM_FS_HZ_def node_def)
qed

lemma listener_plays: "audio_inv listener" "only_player 0 0 0 (link_audio_subs listener)" "pending (link_audio_subs listener ! 0) = []"
  "unheard listener"
proof -
  have "ring_inv (zero_sub\<lparr>sub_in_use := True, sub_channel_id := idX\<rparr>)" by (simp add: zero_sub_def ring_inv_def audio_consts)
  from audio_inv_sub [OF audio_node_inv this, of idB 0] show "audio_inv listener"
    by (simp add: listener_def audio_inv_def tx_inv_def)
  show "only_player 0 0 0 (link_audio_subs listener)"
    by (auto simp: only_player_def listener_def plays_def nth_list_update audio_consts zero_sub_def)
  show "pending (link_audio_subs listener ! 0) = []" "unheard listener"
    by (simp_all add: listener_def pending_def audio_consts zero_sub_def unheard_def zero_local_def)
qed

theorem sample_path_witness:
  "\<exists>v buf pre post t. tdm_frames 0 64 still_speaker = Some v \<and>
     sent v = sent still_speaker @ pre @ [sent_to (ip4_of 0x0A000002) 20808 LINK_DISCOVERY_PORT buf] @ post \<and>
     link_audio_handle_rx 0x40001000 buf 0x0A000001 20808 listener = Some t \<and> tdm_frames 0 64 t \<noteq> None"
proof -
  obtain v where v: "tdm_frames 0 64 still_speaker = Some v"
    using frames_defined [OF still_speaker_sends still_speaker_inv, of 0 64] by (auto simp: LINK_NUM_TDM_PORTS_def)
  have subscribed: "subscribers (link_audio_local still_speaker ! 0) = [(0x0A000002, 20808, idB)]"
    by (simp add: still_speaker_def subscribers_def subscriber_def)
      (simp add: spoken_def add_subscriber_def Let_def zero_local_def audio_consts)
  have "loc_tdm_port spoken = 0" "loc_tdm_channel spoken = 0"
    by (simp_all add: spoken_def add_subscriber_def Let_def zero_local_def)
  then have at: "local_at 0 0 still_speaker = Some 0"
    unfolding local_at_def by (intro find_index_eq_Some) (simp_all add: still_speaker_def MAX_LOCAL_CHANNELS_def tdm_consts)
  have pos: "s_tx_pkt_pos still_speaker ! 0 ! 0 = 0"
    by (simp add: still_speaker_def speaker_def) (simp add: audio_node_defs LINK_NUM_TDM_PORTS_def LINK_TDM_CHANNELS_PER_PORT_def)
  show ?thesis
    using sample_path [OF still_speaker_inv, of 0 0 0 v listener 0 0 0 "0x40001000" "0x0A000001" 20808] v subscribed at pos
      listener_plays
    by (auto simp: LINK_NUM_TDM_PORTS_def LINK_TDM_CHANNELS_PER_PORT_def still_speaker_def)
qed

text \<open>A node that has heard of the speaker's channel.\<close>

definition informed :: audio_st where
  "informed = audio_node idB\<lparr>link_audio_remote := (link_audio_remote (audio_node idB))[0 :=
     claim_remote idX (zero_remote\<lparr>endpoint_addr := 0x0A000001, endpoint_port := 20808\<rparr>)]\<rparr>"

lemma informed_inv: "audio_inv informed"
  unfolding informed_def
proof (rule audio_inv_remote [OF audio_node_inv])
  show "distinct_keys rem_in_use rem_channel_id ((link_audio_remote (audio_node idB))[0 :=
      claim_remote idX (zero_remote\<lparr>endpoint_addr := 0x0A000001, endpoint_port := 20808\<rparr>)])"
    by (rule remotes.distinct_claim) (simp_all add: remotes.distinct_free find_index_None LINK_AUDIO_MAX_REMOTE_def)
qed (simp add: LINK_AUDIO_MAX_REMOTE_def)

theorem subscription_established_witness:
  "\<exists>s' buf pre post t. link_audio_subscribe 0 3 idX informed = (0, s') \<and>
     sent (link_audio_tick s') = sent informed @ pre @ [sent_to (ip4_of 0x0A000001) 20808 LINK_DISCOVERY_PORT buf] @ post \<and>
     link_audio_handle_rx 0x40001000 buf 0x0A000002 20808 speaker = Some t \<and>
     subscribers (link_audio_local t ! 0) = [(0x0A000002, 20808, idB)]"
proof -
  have remotes: "link_audio_remote informed = claim_remote idX (zero_remote\<lparr>endpoint_addr := 0x0A000001, endpoint_port := 20808\<rparr>) #
      replicate 63 zero_remote"
    by (simp add: informed_def LINK_AUDIO_MAX_REMOTE_def numeral_eq_Suc)
  have known: "catalogue informed idX = Some (claim_remote idX (zero_remote\<lparr>endpoint_addr := 0x0A000001, endpoint_port := 20808\<rparr>))"
    by (simp add: catalogue_def lookup_def remotes)
  have free: "find_index (\<lambda>b. \<not> sub_in_use b) (link_audio_subs informed) = Some 0"
    by (rule find_index_eq_Some) (simp_all add: informed_def LINK_AUDIO_MAX_REMOTE_def zero_sub_def)
  have "subscribers (link_audio_local speaker ! 0) = [(0x0A000002, 20808, idB)]"
    by (simp add: subscribers_def subscriber_def)
      (simp add: spoken_def add_subscriber_def Let_def zero_local_def audio_consts)
  then have listed: "add_spec idB 0x0A000002 20808 (subscribers (link_audio_local speaker ! 0)) = [(0x0A000002, 20808, idB)]"
    by (simp add: add_spec_def)
  have ids: "link_self_id informed = idB" by (simp add: informed_def)
  show ?thesis
    using subscription_established [of informed speaker idX 0 "0x40001000" 0 3 "0x0A000002" 20808] informed_inv speaker_inv(1)
      speaker_owns listed
    by (simp add: known free ids) blast
qed

text \<open>One subscription, whose request is due.\<close>

theorem subscriptions_renewed_witness:
  "let b = queued\<lparr>source_addr := 0x0A000001, source_port := 20808\<rparr>; s = (audio_node idB)\<lparr>link_audio_subs := b # replicate 63 zero_sub\<rparr> in
   \<exists>announced. sent (link_audio_tick s) = sent s @ announced @ [renewal s b] \<and>
     link_audio_subs (link_audio_tick s) = renewed (host_now s) b # replicate 63 zero_sub"
proof -
  let ?b = "queued\<lparr>source_addr := 0x0A000001, source_port := 20808\<rparr>"
  let ?s = "(audio_node idB)\<lparr>link_audio_subs := ?b # replicate 63 zero_sub\<rparr>"
  have due: "renewal_due now ?b" "\<not> renewal_due now zero_sub" "renewed now zero_sub = zero_sub" for now
    by (simp_all add: renewal_due_def renewed_def queued_def jbuf_push_def Let_def zero_sub_def)
  have "length (link_audio_subs ?s) = LINK_AUDIO_MAX_REMOTE" by (simp add: LINK_AUDIO_MAX_REMOTE_def)
  from subscriptions_renewed [OF this] show ?thesis
    by (auto simp: Let_def due)
qed

end
