(* ===== verification/Interface_Witnesses.thy ===== *)
theory Interface_Witnesses
  imports Audio_Witnesses Web_Requests
begin

text \<open>
  Concrete nodes for the properties of the MIDI, Eurorack and web interfaces: \<open>web_node i\<close> has idle
  inputs, the registered routes and a lwIP that accepts writes up to its send buffer.
\<close>

definition midi_node :: "link_id \<Rightarrow> midi_st" where
  "midi_node i = audio_st.extend (audio_node i)
     (midi_st.fields 0x01 0x07 [] [] None 0 MIDI_SYNC_OBSERVE (Fin 0) 0 0)"

definition euro_node :: "link_id \<Rightarrow> euro_st" where
  "euro_node i = midi_st.extend (midi_node i)
     (euro_st.fields 0x01 0 0 0 0 0 EURO_SYNC_OBSERVE 4 (Fin 0) 0 0 0 0 False)"

definition web_node :: "link_id \<Rightarrow> webui_st" where
  "web_node i = http_st.extend (euro_st.extend (euro_node i)
       (http_st.fields (map route_of documented) (\<lambda>_ n. n \<le> TCP_SND_BUF) 0 []))
     (webui_st.fields (replicate RESP_BUF 0) (bytes ''linkfpga'' @ replicate 24 0))"

lemmas interface_node_defs = midi_node_def euro_node_def web_node_def audio_st.extend_def midi_st.extend_def euro_st.extend_def
  http_st.extend_def midi_st.fields_def euro_st.fields_def http_st.fields_def webui_st.fields_def

lemma midi_node_fields [simp]:
  "midi_rt_ev (midi_node i) = None" "midi_clk_period (midi_node i) = 0" "s_observed_period_us (midi_node i) = 0"
  "s_observed_bpm (midi_node i) = Fin 0" "midi_tx_fifo (midi_node i) = []"
  "link_self_timeline (midi_node i) = link_self_timeline (node i)" "ghost_now (midi_node i) = ghost_now (node i)"
  by (simp_all add: interface_node_defs ghost_now_def intercept_def) (simp_all add: audio_node_defs)

lemma euro_node_fields [simp]:
  "link_self_timeline (euro_node i) = link_self_timeline (node i)" "ghost_now (euro_node i) = ghost_now (node i)"
  "eurorack_clk_count (euro_node i) = 0" "eurorack_clk_period (euro_node i) = 0" "eurorack_rst_count (euro_node i) = 0"
  "eurorack_run_count (euro_node i) = 0" "eurorack_status (euro_node i) = 0" "s_mode (euro_node i) = EURO_SYNC_OBSERVE"
  "s_last_clk_count (euro_node i) = 0" "s_last_rst_count (euro_node i) = 0" "s_last_run_count (euro_node i) = 0"
  "\<not> s_run_level (euro_node i)"
  by (simp_all add: interface_node_defs ghost_now_def intercept_def) (simp_all add: audio_node_defs)

lemma web_node_fields [simp]:
  "link_self_timeline (web_node i) = link_self_timeline (node i)" "ghost_now (web_node i) = ghost_now (node i)"
  "s_routes (web_node i) = s_routes (webui_init (http_init s0))" "length (s_resp_buf (web_node i)) = RESP_BUF"
  "length (c_str (webui_name (web_node i))) < 32" "length (link_peers (web_node i)) = LINK_MAX_PEERS"
  "link_audio_remote (web_node i) = replicate LINK_AUDIO_MAX_REMOTE zero_remote"
  "tcp_accepts (web_node i) = (\<lambda>_ n. n \<le> TCP_SND_BUF)"
  by (simp_all add: interface_node_defs ghost_now_def intercept_def webui_routes bytes_def c_str_def)
    (simp_all add: audio_node_defs LINK_MAX_PEERS_def)

section \<open>MIDI and Eurorack\<close>

lemma midi_ghost [simp]:
  "ghost_now (s\<lparr>s_sync_mode := a\<rparr>) = ghost_now s" "ghost_now (s\<lparr>midi_rt_ev := b\<rparr>) = ghost_now s"
  "ghost_now (s\<lparr>midi_clk_period := c\<rparr>) = ghost_now s"
  by (simp_all add: ghost_now_def intercept_def)

lemma euro_ghost [simp]:
  "ghost_now (s\<lparr>s_mode := a\<rparr>) = ghost_now s" "ghost_now (s\<lparr>eurorack_clk_count := b\<rparr>) = ghost_now s"
  "ghost_now (s\<lparr>eurorack_clk_period := c\<rparr>) = ghost_now s" "ghost_now (s\<lparr>s_period := d\<rparr>) = ghost_now s"
  "ghost_now (s\<lparr>s_ppqn := e\<rparr>) = ghost_now s" "ghost_now (s\<lparr>s_last_clk_count := x\<rparr>) = ghost_now s"
  by (simp_all add: ghost_now_def intercept_def)

definition midi_clocked :: midi_st where
  "midi_clocked = midi_node idA\<lparr>s_sync_mode := MIDI_SYNC_FOLLOWER, midi_rt_ev := Some (MIDI_RT_CLOCK, 9), midi_clk_period := 20000\<rparr>"

definition euro_clocked :: euro_st where
  "euro_clocked = euro_node idA\<lparr>s_mode := EURO_SYNC_FOLLOWER, eurorack_clk_count := 1,
     eurorack_clk_period := 125000, s_period := 0, s_ppqn := 4, s_last_clk_count := 0\<rparr>"

theorem midi_follower_tempo_witness:
  "\<exists>t. midi_tick midi_clocked = Some t \<and> sint (tempo_us_per_beat (link_self_timeline t)) = 480000"
  using midi_follower_tempo [where s = midi_clocked and ts = 9] node_usable [of idA]
  by (auto simp: midi_inv_def midi_clocked_def)

lemma midi_start_defined:
  "\<exists>t. midi_tick (midi_node idA\<lparr>midi_rt_ev := Some (MIDI_RT_STOP, 9)\<rparr>) = Some t"
  using current_beat [OF node_usable [of idA]] link_set_play_retimed [where p = False and s = "midi_measure (midi_node idA)\<lparr>midi_rt_ev := None\<rparr>"]
  by (force simp: midi_tick_measure midi_consts Let_def midi_measure_def)

theorem midi_events_once_witness:
  "\<exists>t. midi_tick (midi_node idA\<lparr>midi_rt_ev := Some (MIDI_RT_STOP, 9)\<rparr>) = Some t \<and> midi_tick t = Some t"
  using midi_start_defined midi_events_once by blast

theorem euro_follower_tempo_witness:
  "\<exists>t. euro_clock_edge (euro_measure euro_clocked) = Some t \<and>
     sint (tempo_us_per_beat (link_self_timeline t)) = 500000"
  using euro_follower_tempo [where s = euro_clocked and s' = euro_clocked and k = 1] node_usable [of idA]
  by (auto simp: euro_clocked_def)


theorem euro_reset_snaps_witness:
  "beat_pos (link_self_timeline (euro_reset_edge (euro_clocked\<lparr>eurorack_rst_count := 3\<rparr>))) (ghost_now (euro_clocked\<lparr>eurorack_rst_count := 3\<rparr>)) = 0"
proof -
  have "s_last_rst_count (euro_clocked\<lparr>eurorack_rst_count := 3\<rparr>) = 0"
    by (simp add: euro_clocked_def)
  then show ?thesis
    using euro_reset_snaps [where s = "euro_clocked\<lparr>eurorack_rst_count := 3\<rparr>" and p = True and bpm = NaN] by (simp add: euro_clocked_def)
qed

section \<open>HTTP\<close>

text \<open>A tempo posted with a body of three bytes, and the page asked for.\<close>

definition tempo_request_line :: "u8 list" where
  "tempo_request_line = bytes ''POST'' @ 32 # bytes ''/api/tempo'' @ 32 # bytes ''HTTP/1.0''"

definition tempo_header :: "u8 list" where
  "tempo_header = header_of [tempo_request_line, bytes ''Content-Length: 3'']"

definition page_header :: "u8 list" where
  "page_header = header_of [bytes ''GET'' @ 32 # bytes ''/'' @ 32 # bytes ''HTTP/1.0'']"

lemma tempo_request_whole: "length b = 3 \<Longrightarrow> whole_request tempo_header b"
proof -
  assume b: "length b = 3"
  have t: "header_text tempo_header" unfolding tempo_header_def
    by (rule header_of_text) (simp_all add: header_line_def tempo_request_line_def bytes_def)
  let ?l = "tempo_request_line @ crlf" and ?p = "bytes ''Content-Length: 3'' @ crlf @ crlf @ [0]"
  have p: "tempo_header @ [0] = ?l @ ?p" "length tempo_header - 4 = length ?l + Suc 16"
    by (simp_all add: tempo_header_def header_of_def bytes_def crlf_def)
  have "find_length (length ?l + Suc 16) (?l @ ?p) = find_length (Suc 16) ?p"
    by (rule find_length_skip) (simp_all add: tempo_request_line_def bytes_def crlf_def)
  also have "\<dots> = Some 3"
    by (subst find_length.simps(2)) (simp add: bytes_def crlf_def starts_with_def strchr_def c_str_def
        atoi_def scan_int_def split_sign_def is_space_def is_digit_def digits_val_def hex_val_def int_range_def)
  finally have "find_length (length tempo_header - 4) (tempo_header @ [0]) = Some (int (length b))" using b by (simp add: p)
  then show ?thesis using t b
    by (simp add: whole_request_def tempo_header_def header_of_def tempo_request_line_def bytes_def crlf_def REQ_BUF_MAX_def)
qed

lemma page_request_whole: "whole_request page_header []"
proof -
  let ?l = "bytes ''GET'' @ 32 # bytes ''/'' @ 32 # bytes ''HTTP/1.0''"
  have "header_text page_header" unfolding page_header_def
    by (rule header_of_text) (simp_all add: header_line_def bytes_def)
  moreover have "find_length (length ?l + 0) (?l @ crlf @ crlf @ [0]) = find_length 0 (crlf @ crlf @ [0])"
    by (rule find_length_skip) (simp_all add: bytes_def)
  ultimately show ?thesis
    by (simp add: whole_request_def page_header_def header_of_def REQ_BUF_MAX_def crlf_def bytes_def)
qed


lemma tempo_header_line: "tempo_header = bytes ''POST'' @ 32 # bytes ''/api/tempo'' @ 32 # (bytes ''HTTP/1.0'' @ crlf @ bytes ''Content-Length: 3'' @ crlf @ crlf)"
  by (simp add: tempo_header_def header_of_def tempo_request_line_def)

lemma page_header_line: "page_header = bytes ''GET'' @ 32 # bytes ''/'' @ 32 # (bytes ''HTTP/1.0'' @ crlf @ crlf)"
  by (simp add: page_header_def header_of_def)

lemma tempo_header_length: "length tempo_header = 47"
  by (simp add: tempo_header_line crlf_def)

lemmas web_routes = web_node_fields(3)

theorem segments_do_not_matter_witness:
  "recv_all web_call 1 [Segment (take 7 tempo_header), Segment (drop 7 tempo_header @ [49]), Segment [50, 48]] (Some fresh_conn) (web_node idA)
   = recv_all web_call 1 [Segment (tempo_header @ [49, 50, 48])] (Some fresh_conn) (web_node idA)"
  using segments_do_not_matter [OF tempo_request_whole [of "[49, 50, 48]"],
      of "[take 7 tempo_header, drop 7 tempo_header @ [49], [50, 48]]" "[tempo_header @ [49, 50, 48]]" web_call 1 "web_node idA"]
  by simp

theorem full_buffer_overruns_witness:
  "on_recv web_call 1 (Segment (replicate 4096 65)) fresh_conn (web_node idA) = None"
  using full_buffer_overruns [where cs = fresh_conn and p = "replicate 4096 65" and call = web_call and pcb = 1 and s = "web_node idA"]
  by (simp add: fresh_conn_def REQ_BUF_MAX_def)

theorem documented_request_served_witness:
  "recv_all web_call 1 [Segment page_header] (Some fresh_conn) (web_node idA) =
    (case serve_index (bytes ''/'') (replicate (REQ_BUF_MAX - length page_header) 0) 0 blank_response (web_node idA) of
       None \<Rightarrow> None
     | Some (r, t) \<Rightarrow> (case http_send_response 1 r t of None \<Rightarrow> None | Some t \<Rightarrow> Some (None, t)))"
  using documented_request_served [OF page_request_whole, of "''GET''" "''/''" "bytes ''HTTP/1.0'' @ crlf @ crlf" serve_index_fn
      "web_node idA" "web_node idB" "[page_header]" 1] web_routes
  by (simp add: page_header_line documented_def)

lemma posted_120: "atof ([49, 50, 48] @ replicate 13 0) = Fin 120"
proof -
  have "f64_round (120 :: rat) = Fin 120" using f64_round_int [of 120] by simp
  then show ?thesis
    by (simp add: atof_def c_str_def is_space_def split_sign_def starts_with_def bytes_def lower_def scan_real_def is_digit_def
        digits_val_def hex_val_def rat_power_def Let_def)
qed

theorem tempo_request_witness:
  "\<exists>t. recv_all web_call 1 [Segment tempo_header, Segment [49, 50, 48]] (Some fresh_conn) (web_node idA) = Some (None, t) \<and>
     s_state_dirty t \<and> \<bar>of_int (sint (tempo_us_per_beat (link_self_timeline t))) - 60000000 / (120 :: rat)\<bar> < 1 / 2 + 1 / 1000000 \<and>
     tcp_sent t = tcp_sent (web_node idA) @ [(1, response_header (ok_json blank_response)), (1, bytes ''{\"ok\":true}'')]"
proof -
  have fits: "tcp_accepts (web_node idA) k (length (response_header (ok_json blank_response)))"
    "tcp_accepts (web_node idA) k (length (bytes ''{\"ok\":true}''))" for k
    using ok_answer_fits by simp_all
  have usable: "usable_timeline (link_self_timeline (web_node idA)) (ghost_now (web_node idA))" using node_usable [of idA] by simp
  have ps: "length ([49, 50, 48] :: u8 list) = 3" "concat [tempo_header, [49, 50, 48]] = tempo_header @ [49, 50, 48]"
    "length ([49, 50, 48] :: u8 list) \<le> 15" "length (tempo_header @ [49, 50, 48]) \<le> 4080"
    "atof ([49, 50, 48] @ replicate (16 - length ([49, 50, 48] :: u8 list)) 0) = Fin 120" "(20 :: rat) \<le> 120" "(120 :: rat) \<le> 999"
    using posted_120 by (simp_all add: tempo_header_length)
  from tempo_request [OF tempo_request_whole [OF ps(1)] tempo_header_line web_routes ps(2-7) usable, of 1]
  obtain t where t: "recv_all web_call 1 (map Segment [tempo_header, [49, 50, 48]]) (Some fresh_conn) (web_node idA) = Some (None, t)"
    "s_state_dirty t" "\<bar>of_int (sint (tempo_us_per_beat (link_self_timeline t))) - 60000000 / (120 :: rat)\<bar> < 1 / 2 + 1 / 1000000"
    "tcp_sent t = tcp_sent (web_node idA) @ [(1, response_header (ok_json blank_response))] @ [(1, bytes ''{\"ok\":true}'')]"
    by (elim exE conjE) (simp only: fits if_True)
  show ?thesis
    by (rule exI [of _ t]) (use t(1) in \<open>simp only: t(2-4) list.map append_Cons append_Nil simp_thms\<close>)
qed

theorem nan_tempo_undefined_witness:
  "recv_all web_call 1 [Segment (tempo_header @ bytes ''nan'')] (Some fresh_conn) (web_node idA) = None"
proof -
  have "atof (bytes ''nan'' @ replicate 13 0) = NaN"
    by (simp add: atof_def c_str_def is_space_def split_sign_def starts_with_def bytes_def lower_def Let_def)
  then show ?thesis
    using nan_tempo_undefined [OF tempo_request_whole [of "bytes ''nan''"] tempo_header_line web_routes,
        where ps = "[tempo_header @ bytes ''nan'']" and pcb = 1]
    by (simp add: tempo_header_length)
qed

theorem page_never_sent_witness:
  "\<exists>t hdr. recv_all web_call 1 [Segment page_header] (Some fresh_conn) (web_node idA) = Some (None, t) \<and> tcp_tried t = tcp_tried (web_node idA) + 2 \<and>
     length (tcp_sent t) \<le> Suc (length (tcp_sent (web_node idA)))"
  using page_never_sent [OF page_request_whole page_header_line web_routes, where ps = "[page_header]" and pcb = 1]
  by fastforce

end
