(* ===== verification/Json.thy ===== *)
theory Json
  imports Web_Documents
begin

text \<open>
  The grammar of JSON (RFC 8259) on bytes, and the two documents of the web interface measured by it.
  Strings are copied into a document as they are: with names free of quotation marks, backslashes and
  control characters both documents are JSON; with a name that holds an odd number of quotation marks
  the status document is not.
\<close>

section \<open>Grammar\<close>

text \<open>
  The characters of a string, between its quotation marks (34): no control character, no quotation mark,
  and a backslash (92) only in an escape sequence. That the bytes from 128 on are UTF-8 is not checked.
\<close>

inductive json_chars :: "u8 list \<Rightarrow> bool" where
  End: "json_chars []"
| Plain: "32 \<le> b \<Longrightarrow> b \<noteq> 34 \<Longrightarrow> b \<noteq> 92 \<Longrightarrow> json_chars cs \<Longrightarrow> json_chars (b # cs)"
| Escape: "b \<in> set (bytes ''\"/bfnrt'') \<or> b = 92 \<Longrightarrow> json_chars cs \<Longrightarrow> json_chars (92 # b # cs)"
| Unicode: "list_all is_hex u \<Longrightarrow> length u = 4 \<Longrightarrow> json_chars cs \<Longrightarrow> json_chars (92 # 117 # u @ cs)"

text \<open>A sign, an integer without leading zeros, a fraction and an exponent, of which only the second must be there.\<close>

abbreviation digits :: "u8 list \<Rightarrow> bool" where
  "digits ds \<equiv> ds \<noteq> [] \<and> list_all is_digit ds"

inductive json_number :: "u8 list \<Rightarrow> bool" where
  "sign = [] \<or> sign = [45] \<Longrightarrow> i = [48] \<or> digits i \<and> hd i \<noteq> 48 \<Longrightarrow> f = [] \<or> (\<exists>ds. digits ds \<and> f = 46 # ds) \<Longrightarrow>
   e = [] \<or> (\<exists>x s ds. (x = 69 \<or> x = 101) \<and> (s = [] \<or> s = [43] \<or> s = [45]) \<and> digits ds \<and> e = x # s @ ds) \<Longrightarrow>
   json_number (sign @ i @ f @ e)"

text \<open>White space: tab, line feed, carriage return, space.\<close>

definition json_ws :: "u8 list \<Rightarrow> bool" where
  "json_ws w \<longleftrightarrow> set w \<subseteq> {9, 10, 13, 32}"

text \<open>Values, the members of an object and the elements of an array.\<close>

inductive json :: "u8 list \<Rightarrow> bool"
  and json_members :: "u8 list \<Rightarrow> bool"
  and json_elements :: "u8 list \<Rightarrow> bool" where
  Word: "w \<in> {bytes ''true'', bytes ''false'', bytes ''null''} \<Longrightarrow> json w"
| Number: "json_number n \<Longrightarrow> json n"
| String: "json_chars cs \<Longrightarrow> json (34 # cs @ [34])"
| Object: "json_members ms \<Longrightarrow> json (123 # ms @ [125])"
| Empty_object: "json_ws w \<Longrightarrow> json (123 # w @ [125])"
| Array: "json_elements es \<Longrightarrow> json (91 # es @ [93])"
| Empty_array: "json_ws w \<Longrightarrow> json (91 # w @ [93])"
| Space: "json_ws w \<Longrightarrow> json v \<Longrightarrow> json_ws w' \<Longrightarrow> json (w @ v @ w')"
| Member: "json_ws w \<Longrightarrow> json_chars k \<Longrightarrow> json_ws w' \<Longrightarrow> json v \<Longrightarrow> json_members (w @ 34 # k @ 34 # w' @ 58 # v)"
| Members: "json_ws w \<Longrightarrow> json_chars k \<Longrightarrow> json_ws w' \<Longrightarrow> json v \<Longrightarrow> json_members ms \<Longrightarrow>
    json_members (w @ 34 # k @ 34 # w' @ 58 # v @ 44 # ms)"
| Element: "json v \<Longrightarrow> json_elements v"
| Elements: "json v \<Longrightarrow> json_elements es \<Longrightarrow> json_elements (v @ 44 # es)"

section \<open>Quotation marks\<close>

text \<open>Outside escape sequences the quotation marks of a document come in pairs.\<close>

abbreviation quotes :: "u8 list \<Rightarrow> nat" where
  "quotes bs \<equiv> count_list bs 34"

lemma quotes_append [simp]: "quotes (xs @ ys) = quotes xs + quotes ys"
  by (induction xs) simp_all

lemma quotes_none: "34 \<notin> set bs \<Longrightarrow> quotes bs = 0"
  by (simp add: count_list_0_iff)

lemma json_chars_quotes: "json_chars cs \<Longrightarrow> 92 \<notin> set cs \<Longrightarrow> quotes cs = 0"
  by (induction rule: json_chars.induct) auto

lemma digits_quotes: "list_all is_digit ds \<Longrightarrow> quotes ds = 0"
  by (induction ds) (auto simp: is_digit_def)

lemma json_number_quotes: "json_number n \<Longrightarrow> quotes n = 0"
  by (induction rule: json_number.induct) (auto simp: digits_quotes)

lemma json_ws_quotes: "json_ws w \<Longrightarrow> quotes w = 0"
  by (rule quotes_none) (auto simp: json_ws_def)

lemma json_quotes:
  "json v \<Longrightarrow> 92 \<notin> set v \<Longrightarrow> even (quotes v)"
  "json_members ms \<Longrightarrow> 92 \<notin> set ms \<Longrightarrow> even (quotes ms)"
  "json_elements es \<Longrightarrow> 92 \<notin> set es \<Longrightarrow> even (quotes es)"
proof (induction rule: json_json_members_json_elements.inducts)
  case (Word w)
  then show ?case by (auto simp: bytes_def)
qed (simp_all add: json_chars_quotes json_number_quotes json_ws_quotes)

section \<open>What the formats print\<close>

definition plain_text :: "u8 list \<Rightarrow> bool" where
  "plain_text bs \<longleftrightarrow> list_all (\<lambda>b. 32 \<le> b \<and> b \<noteq> 34 \<and> b \<noteq> 92) bs"

lemma plain_text_append [simp]: "plain_text (xs @ ys) \<longleftrightarrow> plain_text xs \<and> plain_text ys"
  by (simp add: plain_text_def)

lemma plain_text_chars: "plain_text bs \<Longrightarrow> json_chars bs"
  by (induction bs) (auto simp: plain_text_def intro: json_chars.intros)

lemma is_digit_plain: "list_all is_digit ds \<Longrightarrow> plain_text ds"
  by (induction ds) (auto simp: plain_text_def is_digit_def word_le_nat_alt)

lemma is_hex_plain: "list_all is_hex ds \<Longrightarrow> plain_text ds"
  by (induction ds) (auto simp: plain_text_def is_hex_def hex_val_def word_le_nat_alt split: if_splits)

lemma node_id_hex_plain: "plain_text (node_id_hex i)"
  by (intro is_hex_plain) (auto simp: node_id_hex_def list_all_iff hex_digit_facts(3) [OF nibbles(1)] hex_digit_facts(3) [OF nibbles(2)])

lemma unat_digit: "unat (digit n) = 48 + n mod 10"
proof -
  have "48 + n mod 10 < 256" using mod_less_divisor [of 10 n] by linarith
  then show ?thesis by (simp only: digit_def unat_of_nat) simp
qed

lemma is_digit_digit: "is_digit (digit n)"
  using mod_less_divisor [of 10 n] by (simp add: is_digit_def word_le_nat_alt unat_digit)

lemma dec_digits: "digits (dec n)"
proof (induction n rule: dec.induct)
  case (1 n)
  then show ?case by (cases "n < 10") (simp_all add: dec.simps [of n] is_digit_digit)
qed

lemma digit_zero: "m < 10 \<Longrightarrow> digit m = 48 \<longleftrightarrow> m = 0"
  by (simp add: word_unat_eq_iff unat_digit)

lemma dec_zero: "dec 0 = [48]"
  by (simp add: dec.simps [of 0] digit_zero)

lemma dec_hd: "0 < n \<Longrightarrow> hd (dec n) \<noteq> 48"
proof (induction n rule: dec.induct)
  case (1 n)
  show ?case
  proof (cases "n < 10")
    case True
    then show ?thesis using 1(2) by (simp add: dec.simps [of n] digit_zero)
  next
    case False
    then have "hd (dec (n div 10)) \<noteq> 48" by (intro 1(1)) (simp_all add: div_greater_zero_iff)
    then show ?thesis using False dec_digits [of "n div 10"] by (simp add: dec.simps [of n])
  qed
qed

lemma dec_no_leading_zero: "dec n = [48] \<or> digits (dec n) \<and> hd (dec n) \<noteq> 48"
  using dec_zero dec_digits [of n] dec_hd [of n] by (cases "n = 0") simp_all

lemma dec_json: "json (dec n)"
proof (rule Number)
  have "json_number ([] @ dec n @ [] @ [])"
    by (rule json_number.intros) (use dec_no_leading_zero [of n] in simp_all)
  then show "json_number (dec n)" by simp
qed

lemma fmt_f3_text: "json (fmt_f3 (Fin x)) \<and> plain_text (fmt_f3 (Fin x))"
proof -
  define n where "n = nat (round_half_even (\<bar>x\<bar> * 1000))"
  let ?sign = "if x < 0 then [45] else [] :: u8 list" and ?f = "[digit (n div 100), digit (n div 10), digit n]"
  have eq: "fmt_f3 (Fin x) = ?sign @ dec (n div 1000) @ (46 # ?f) @ []" by (simp add: Let_def n_def)
  have "json_number (?sign @ dec (n div 1000) @ (46 # ?f) @ [])"
    by (rule json_number.intros) (use dec_no_leading_zero [of "n div 1000"] in \<open>auto simp: is_digit_digit\<close>)
  moreover have "plain_text ?f" "plain_text (dec (n div 1000))"
    using dec_digits [of "n div 1000"] by (auto intro!: is_digit_plain simp: is_digit_digit)
  moreover have "plain_text ?sign" "plain_text [46]" by (simp_all add: plain_text_def)
  ultimately show ?thesis
    unfolding eq using plain_text_append [of "[46]" ?f] by (auto intro: Number)
qed

section \<open>The documents\<close>

definition member :: "string \<Rightarrow> u8 list \<Rightarrow> u8 list" where
  "member k v = 34 # bytes k @ 34 # 58 # v"

abbreviation quoted :: "u8 list \<Rightarrow> u8 list" where
  "quoted cs \<equiv> 34 # cs @ [34]"

lemma json_ws_Nil: "json_ws []"
  by (simp add: json_ws_def)

lemma json_members_one: "json_chars (bytes k) \<Longrightarrow> json v \<Longrightarrow> json_members (member k v)"
  using Member [OF json_ws_Nil _ json_ws_Nil, of "bytes k" v] by (simp add: member_def)

lemma json_members_more:
  "json_chars (bytes k) \<Longrightarrow> json v \<Longrightarrow> json_members ms \<Longrightarrow> json_members (member k v @ 44 # ms)"
  using Members [OF json_ws_Nil _ json_ws_Nil, of "bytes k" v ms] by (simp add: member_def)

lemma json_quoted: "plain_text cs \<Longrightarrow> json (quoted cs)"
  by (rule String) (rule plain_text_chars)

lemma json_bool: "json (bool_text b)"
  by (rule Word) (simp add: bool_text_def)

lemma json_array: "list_all json ts \<Longrightarrow> json (91 # joined True ts @ [93])"
proof (cases ts)
  case (Cons t us)
  have "json_elements (t @ joined False us)" if "json t" "list_all json us" for t us
    using that
  proof (induction us arbitrary: t)
    case (Cons u us)
    then show ?case by (auto intro: Elements)
  qed (simp add: Element)
  moreover assume "list_all json ts"
  ultimately have "json_elements (t @ joined False us)" using Cons by simp
  from Array [OF this] show ?thesis using Cons by simp
qed (simp add: Empty_array [OF json_ws_Nil, simplified])

lemma peer_entry_members:
  assumes "peer_entry p = Some t"
  shows "\<exists>x. t = 123 # (member ''node_id'' (quoted (node_id_hex (node_id p))) @
    44 # member ''session_id'' (quoted (node_id_hex (session_id p))) @ 44 # member ''tempo_bpm'' (fmt_f3 (Fin x)) @
    44 # member ''endpoint'' (quoted (dotted (mep4_addr p) @ 58 # dec (unat (mep4_port p))))) @ [125]"
proof -
  obtain x where "(if tempo_us_per_beat (timeline p) \<noteq> 0
      then f64_div (Fin 60000000) (f64_of_i64 (tempo_us_per_beat (timeline p))) else Fin 0) = Fin x"
    using tempo_finite [of "tempo_us_per_beat (timeline p)"] by (cases "tempo_us_per_beat (timeline p) = 0") auto
  with assms show ?thesis
    by (intro exI [of _ x]) (auto simp: peer_entry_def Let_def member_def bytes_def split: if_split_asm simp del: fmt_f3.simps)
qed

lemma dotted_plain: "plain_text (dotted a @ 58 # dec p)"
proof -
  have "plain_text (dec n)" for n using dec_digits [of n] by (simp add: is_digit_plain)
  then show ?thesis by (simp add: dotted_def) (simp add: plain_text_def)
qed

lemma literal_keys:
  "json_chars (bytes ''node_id'')" "json_chars (bytes ''session_id'')" "json_chars (bytes ''tempo_bpm'')"
  "json_chars (bytes ''endpoint'')" "json_chars (bytes ''beats'')" "json_chars (bytes ''playing'')"
  "json_chars (bytes ''synced'')" "json_chars (bytes ''name'')" "json_chars (bytes ''tdm'')"
  "json_chars (bytes ''physical'')" "json_chars (bytes ''virtual'')" "json_chars (bytes ''channels_per_port'')"
  "json_chars (bytes ''fs_hz'')" "json_chars (bytes ''peers'')" "json_chars (bytes ''id'')" "json_chars (bytes ''peer'')"
  "json_chars (bytes ''channels'')"
  by (simp_all add: plain_text_chars plain_text_def bytes_def)

lemma peer_entry_json: "peer_entry p = Some t \<Longrightarrow> json t"
proof -
  assume "peer_entry p = Some t"
  from peer_entry_members [OF this] obtain x where t: "t = 123 # (member ''node_id'' (quoted (node_id_hex (node_id p))) @
    44 # member ''session_id'' (quoted (node_id_hex (session_id p))) @ 44 # member ''tempo_bpm'' (fmt_f3 (Fin x)) @
    44 # member ''endpoint'' (quoted (dotted (mep4_addr p) @ 58 # dec (unat (mep4_port p))))) @ [125]" by blast
  show ?thesis unfolding t
    by (intro Object json_members_more json_members_one literal_keys json_quoted node_id_hex_plain dotted_plain
        conjunct1 [OF fmt_f3_text])
qed

lemma channel_entry_json: "channel_entry r = Some t \<Longrightarrow> plain_text (c_str (rem_name r)) \<Longrightarrow> json t"
proof -
  assume c: "channel_entry r = Some t" and "plain_text (c_str (rem_name r))"
  have t: "t = 123 # (member ''id'' (quoted (node_id_hex (rem_channel_id r))) @
      44 # member ''name'' (quoted (c_str (rem_name r))) @ 44 # member ''peer'' (quoted (node_id_hex (rem_peer_id r)))) @ [125]"
    using c by (auto simp: channel_entry_def member_def bytes_def split: if_split_asm)
  show ?thesis unfolding t
    by (intro Object json_members_more json_members_one literal_keys json_quoted node_id_hex_plain) fact
qed

text \<open>The status document as a function of the name it shows.\<close>

lemma status_members:
  "\<exists>bpm beats playing synced. \<forall>ts. json_list (status_head now s) ts =
     123 # (member ''node_id'' (quoted (node_id_hex (link_self_id s))) @
       44 # member ''session_id'' (quoted (node_id_hex (link_self_session s))) @
       44 # member ''tempo_bpm'' (fmt_f3 (Fin bpm)) @ 44 # member ''beats'' (fmt_f3 (Fin beats)) @
       44 # member ''playing'' (bool_text playing) @ 44 # member ''synced'' (bool_text synced) @
       44 # member ''name'' (quoted (c_str (webui_name s))) @
       44 # member ''tdm'' (123 # (member ''physical'' (dec LINK_NUM_PHYSICAL_TDM_PORTS) @
           44 # member ''virtual'' (dec (LINK_NUM_TDM_PORTS - LINK_NUM_PHYSICAL_TDM_PORTS)) @
           44 # member ''channels_per_port'' (dec LINK_TDM_CHANNELS_PER_PORT) @
           44 # member ''fs_hz'' (dec LINK_TDM_FS_HZ)) @ [125]) @
       44 # member ''peers'' (91 # joined True ts @ [93])) @ [125]"
proof -
  define bp where "bp = (if sint (tempo_us_per_beat (link_self_timeline s)) \<le> 0 then 500000 else tempo_us_per_beat (link_self_timeline s))"
  have bp: "0 < sint bp" by (simp add: bp_def)
  then have "bp \<noteq> 0" by auto
  obtain bpm where bpm: "f64_div (Fin 60000000) (f64_of_i64 bp) = Fin bpm" using tempo_finite [OF \<open>bp \<noteq> 0\<close>] by blast
  obtain beats where beats: "f64_add (f64_div (f64_of_i64 (beat_origin_microbeats (link_self_timeline s))) (Fin 1000000))
      (f64_div (f64_of_i64 (now - time_origin_us_ghost (link_self_timeline s))) (f64_of_i64 bp)) = Fin beats"
    using beats_finite [OF bp] by blast
  show ?thesis
    by (intro exI [of _ bpm] exI [of _ beats] exI [of _ "is_playing (link_self_startstop s) \<noteq> 0"]
        exI [of _ "memcmp (id_bytes (link_self_session s)) (id_bytes (link_self_id s)) \<noteq> 0"])
      (simp add: status_head_def Let_def bp_def [symmetric] bpm beats json_list_def member_def bytes_def del: fmt_f3.simps)
qed

lemma status_json:
  assumes "plain_text (c_str (webui_name s))"
  shows "json (json_list (status_head now s) (List.map_filter peer_entry ps))"
proof -
  let ?ts = "List.map_filter peer_entry ps"
  have "list_all json ?ts" using map_filter_set peer_entry_json by (fastforce simp: list_all_iff)
  note peers = json_array [OF this]
  obtain bpm beats playing synced where doc: "json_list (status_head now s) ?ts =
     123 # (member ''node_id'' (quoted (node_id_hex (link_self_id s))) @
       44 # member ''session_id'' (quoted (node_id_hex (link_self_session s))) @
       44 # member ''tempo_bpm'' (fmt_f3 (Fin bpm)) @ 44 # member ''beats'' (fmt_f3 (Fin beats)) @
       44 # member ''playing'' (bool_text playing) @ 44 # member ''synced'' (bool_text synced) @
       44 # member ''name'' (quoted (c_str (webui_name s))) @
       44 # member ''tdm'' (123 # (member ''physical'' (dec LINK_NUM_PHYSICAL_TDM_PORTS) @
           44 # member ''virtual'' (dec (LINK_NUM_TDM_PORTS - LINK_NUM_PHYSICAL_TDM_PORTS)) @
           44 # member ''channels_per_port'' (dec LINK_TDM_CHANNELS_PER_PORT) @
           44 # member ''fs_hz'' (dec LINK_TDM_FS_HZ)) @ [125]) @
       44 # member ''peers'' (91 # joined True ?ts @ [93])) @ [125]"
    using status_members [of now s] by blast
  show ?thesis unfolding doc
    by (intro Object json_members_more json_members_one literal_keys json_quoted node_id_hex_plain assms peers dec_json json_bool
        conjunct1 [OF fmt_f3_text])
qed

lemma channels_json:
  assumes "\<forall>r\<in>set rs. rem_in_use r \<longrightarrow> plain_text (c_str (rem_name r))"
  shows "json (json_list (bytes ''{\"channels\":['') (take k (List.map_filter channel_entry rs)))"
proof -
  let ?ts = "take k (List.map_filter channel_entry rs)"
  have "json t" if t: "t \<in> set ?ts" for t
  proof -
    obtain r where r: "r \<in> set rs" "channel_entry r = Some t" using map_filter_set in_set_takeD [OF t] by metis
    then have "rem_in_use r" by (simp add: channel_entry_def split: if_split_asm)
    with r assms show ?thesis by (blast intro: channel_entry_json)
  qed
  then have "list_all json ?ts" by (simp add: list_all_iff)
  note channels = json_array [OF this]
  have doc: "json_list (bytes ''{\"channels\":['') ?ts = 123 # member ''channels'' (91 # joined True ?ts @ [93]) @ [125]"
    by (simp add: json_list_def member_def bytes_def)
  show ?thesis unfolding doc by (intro Object json_members_one literal_keys channels)
qed

section \<open>A quotation mark in a name\<close>

text \<open>The quotation marks the firmware prints itself are paired, and it prints no backslash.\<close>

abbreviation paired :: "u8 list \<Rightarrow> bool" where
  "paired bs \<equiv> 92 \<notin> set bs \<and> even (quotes bs)"

lemma plain_text_paired: "plain_text bs \<Longrightarrow> paired bs"
  by (auto simp: plain_text_def list_all_iff quotes_none)

lemma member_paired:
  "92 \<notin> set (member k v) \<longleftrightarrow> 92 \<notin> set (bytes k) \<and> 92 \<notin> set v"
  "even (quotes (member k v)) \<longleftrightarrow> even (quotes (bytes k) + quotes v)"
  by (simp_all add: member_def)

lemma literal_keys_paired:
  "paired (bytes ''node_id'')" "paired (bytes ''session_id'')" "paired (bytes ''tempo_bpm'')"
  "paired (bytes ''endpoint'')" "paired (bytes ''beats'')" "paired (bytes ''playing'')"
  "paired (bytes ''synced'')" "paired (bytes ''name'')" "paired (bytes ''tdm'')"
  "paired (bytes ''physical'')" "paired (bytes ''virtual'')" "paired (bytes ''channels_per_port'')"
  "paired (bytes ''fs_hz'')" "paired (bytes ''peers'')"
  by (simp_all add: plain_text_paired plain_text_def bytes_def)

lemma printed_paired:
  "paired (node_id_hex i)" "paired (dec n)" "paired (fmt_f3 (Fin x))" "paired (bool_text b)" "paired (dotted a @ 58 # dec p)"
proof -
  show "paired (node_id_hex i)" by (rule plain_text_paired [OF node_id_hex_plain])
  show "paired (dec n)" using dec_digits [of n] by (intro plain_text_paired is_digit_plain) simp
  show "paired (fmt_f3 (Fin x))" by (rule plain_text_paired [OF conjunct2 [OF fmt_f3_text]])
  show "paired (bool_text b)" by (simp add: bool_text_def bytes_def)
  show "paired (dotted a @ 58 # dec p)" by (rule plain_text_paired [OF dotted_plain])
qed

lemma peer_entry_paired: "peer_entry p = Some t \<Longrightarrow> paired t"
proof -
  assume "peer_entry p = Some t"
  from peer_entry_members [OF this] obtain x where t: "t = 123 # (member ''node_id'' (quoted (node_id_hex (node_id p))) @
    44 # member ''session_id'' (quoted (node_id_hex (session_id p))) @ 44 # member ''tempo_bpm'' (fmt_f3 (Fin x)) @
    44 # member ''endpoint'' (quoted (dotted (mep4_addr p) @ 58 # dec (unat (mep4_port p))))) @ [125]" by blast
  show ?thesis
    using literal_keys_paired printed_paired(1) printed_paired(3) [of x] printed_paired(5) [of "mep4_addr p" "unat (mep4_port p)"]
    unfolding t by (simp add: member_paired del: fmt_f3.simps)
qed

lemma joined_paired: "list_all paired ts \<Longrightarrow> paired (joined first ts)"
  by (induction ts arbitrary: first) auto

lemma status_not_json:
  assumes "92 \<notin> set (c_str (webui_name s))" "odd (quotes (c_str (webui_name s)))"
  shows "\<not> json (json_list (status_head now s) (List.map_filter peer_entry ps))"
proof -
  let ?ts = "List.map_filter peer_entry ps"
  have "list_all paired ?ts" using map_filter_set peer_entry_paired by (fastforce simp: list_all_iff)
  note peers = joined_paired [OF this, of True]
  obtain bpm beats playing synced where doc: "json_list (status_head now s) ?ts =
     123 # (member ''node_id'' (quoted (node_id_hex (link_self_id s))) @
       44 # member ''session_id'' (quoted (node_id_hex (link_self_session s))) @
       44 # member ''tempo_bpm'' (fmt_f3 (Fin bpm)) @ 44 # member ''beats'' (fmt_f3 (Fin beats)) @
       44 # member ''playing'' (bool_text playing) @ 44 # member ''synced'' (bool_text synced) @
       44 # member ''name'' (quoted (c_str (webui_name s))) @
       44 # member ''tdm'' (123 # (member ''physical'' (dec LINK_NUM_PHYSICAL_TDM_PORTS) @
           44 # member ''virtual'' (dec (LINK_NUM_TDM_PORTS - LINK_NUM_PHYSICAL_TDM_PORTS)) @
           44 # member ''channels_per_port'' (dec LINK_TDM_CHANNELS_PER_PORT) @
           44 # member ''fs_hz'' (dec LINK_TDM_FS_HZ)) @ [125]) @
       44 # member ''peers'' (91 # joined True ?ts @ [93])) @ [125]"
    using status_members [of now s] by blast
  have "92 \<notin> set (json_list (status_head now s) ?ts) \<and> odd (quotes (json_list (status_head now s) ?ts))"
    using assms peers literal_keys_paired printed_paired(1) printed_paired(2) printed_paired(4) printed_paired(3) [of bpm] printed_paired(3) [of beats]
    unfolding doc by (simp add: member_paired del: fmt_f3.simps)
  then show ?thesis using json_quotes(1) by blast
qed

end
