(* ===== verification/Main_Runs.thy ===== *)
theory Main_Runs
  imports Main_Invariant Interface_Witnesses Json
begin

text \<open>
  The properties of every run of the firmware, from any boot, under any traffic, and a concrete run for
  which they hold.
\<close>

section \<open>A pass with nothing to do\<close>

text \<open>Nothing arrived, no clock moved, and nobody listens to a local channel.\<close>

definition idle :: "poll_input \<Rightarrow> 'a main_st_scheme \<Rightarrow> bool" where
  "idle w s \<longleftrightarrow> rx_queue (s_net s) = [] \<and> poll_timeouts w = [] \<and> midi_rt_ev s = None \<and>
     eurorack_clk_count s = s_last_clk_count s \<and> eurorack_rst_count s = s_last_rst_count s \<and>
     eurorack_run_count s = s_last_run_count s \<and> run_input s = s_run_level s \<and> unheard s"

lemma unheard_tick: "unheard s \<Longrightarrow> unheard (link_audio_tick s)"
  by (simp add: unheard_def link_audio_tick_local)

lemma serve_unheard:
  assumes "unheard s"
  shows "\<exists>t. serve_port port s = Some t \<and> unheard t"
proof (cases "fst (tdm_frame_pending port s)")
  case False
  then show ?thesis
    using assms by (auto simp: serve_port_def case_prod_beta unheard_def tdm_frame_pending_def tdm_frame_count_def tdm_access_def Let_def)
next
  case True
  let ?u = "snd (tdm_frame_pending port s)"
  have u: "unheard ?u"
    using assms by (simp add: unheard_def tdm_frame_pending_def tdm_frame_count_def tdm_access_def Let_def)
  obtain v where "link_audio_on_tdm_frame port ?u = Some v" "unheard v"
    using frame_unheard [OF u] by blast
  then show ?thesis
    using True by (simp add: serve_port_def case_prod_beta tdm_clear_frame_pending_def tdm_frame_count_def tdm_access_def Let_def unheard_def)
qed

lemma idle_pass:
  assumes "idle w s"
  shows "\<exists>t. loop_pass a w s = Some t"
proof -
  have poll: "net_poll a w s = Some s"
    using assms by (simp add: net_poll_def idle_def netif_litex_input_empty)
  let ?l = "session_tick (link_tick s)"
  have more: "meas_st.more ?l = meas_st.more s"
    using link_ok_trans [OF link_tick_ok [of s] session_tick_ok] by (simp add: link_ok_def)
  let ?t = "link_audio_tick ?l"
  have "unheard ?l" using assms audio_fields_cong [OF more] by (simp add: unheard_def idle_def)
  then have heard: "unheard ?t" by (rule unheard_tick)
  have "audio_st.more ?t = audio_st.more s"
    using link_audio_tick_ok [of ?l] audio_fields_cong(7) [OF more] by (simp add: audio_ok_def)
  note up = midi_fields_cong [OF this]
  have midi: "midi_tick ?t = Some (midi_measure ?t)" using up(1) assms by (simp add: midi_tick_measure idle_def)
  have "midi_st.more (midi_measure ?t) = midi_st.more s" using up(5) by (simp add: midi_measure_def Let_def)
  then have e: "eurorack_clk_count (midi_measure ?t) = eurorack_clk_count s" "s_last_clk_count (midi_measure ?t) = s_last_clk_count s"
    "eurorack_rst_count (midi_measure ?t) = eurorack_rst_count s" "s_last_rst_count (midi_measure ?t) = s_last_rst_count s"
    "eurorack_run_count (midi_measure ?t) = eurorack_run_count s" "s_last_run_count (midi_measure ?t) = s_last_run_count s"
    "eurorack_status (midi_measure ?t) = eurorack_status s" "s_run_level (midi_measure ?t) = s_run_level s"
    by (cases "midi_measure ?t"; cases s; simp)+
  have still: "euro_clock_edge u = Some u" "euro_reset_edge u = u" "euro_run_edge u = Some u"
    if "u = euro_measure (midi_measure ?t)" for u
    using that assms e by (simp_all add: euro_clock_edge_def euro_reset_edge_def euro_run_edge_def idle_def)
  then have euro: "euro_tick (midi_measure ?t) = Some (euro_measure (midi_measure ?t))" by (simp add: euro_tick_def)
  have "unheard (euro_measure (midi_measure ?t))"
    using heard by (simp add: unheard_def euro_measure_def midi_measure_def Let_def)
  then have "\<exists>v. fold_option serve_port ports (euro_measure (midi_measure ?t)) = Some v" for ports
    using fold_option_total [where P = unheard and f = serve_port] serve_unheard by blast
  then show ?thesis by (simp add: loop_pass_def poll midi euro)
qed

lemma c_str_cut: "c_str (xs @ 0 # ys) = c_str xs"
  unfolding c_str_def by (induction xs) auto

section \<open>Properties\<close>

text \<open>
  C6: Every run. From any state the firmware can be in, after any further passes of the loop, whatever
  lwIP delivered and the hardware did, the invariants of all modules hold together (peer table,
  measurement, flags, audio tables and rings, published names, catalogue, MIDI follower, Eurorack
  resolution, routes, response buffer, request buffers, driver with the frames in flight), and the node
  is still the same: its identifier, name and local channels.
\<close>

theorem every_run:
  assumes "reachable a s" "(main_step a)\<^sup>*\<^sup>* s t"
  shows "firmware_inv t \<and> identity t = identity s"
  using assms(2)
proof (induction rule: rtranclp_induct)
  case base
  show ?case using reachable_inv [OF assms(1)] by simp
next
  case (step t u)
  then show ?case using main_step_inv [OF step(2)] by simp
qed

text \<open>
  C23: In every reachable state both documents of the web interface are inside the response buffer and
  complete: the status document has one entry for every peer, in the order of the table; the channel
  list is whole up to 41 channels and never ends within an entry. They are JSON (RFC 8259) if the names in
  them are free of quotation marks, backslashes and control characters; names are not escaped, so the
  status document of a node whose name has an odd number of quotation marks (and no backslash) is not.
\<close>

theorem documents_in_every_state:
  assumes "reachable a s"
  shows "(\<exists>r t. serve_status path body blen resp s = Some (r, t) \<and> unat (body_len r) < 2500 \<and>
      take (unat (body_len r)) (resp_body r) = json_list (status_head (ghost_now s) s) (List.map_filter peer_entry (link_peers s)) \<and>
      (plain_text (c_str (webui_name s)) \<longrightarrow> json (take (unat (body_len r)) (resp_body r))) \<and>
      (92 \<notin> set (c_str (webui_name s)) \<and> odd (quotes (c_str (webui_name s))) \<longrightarrow>
        \<not> json (take (unat (body_len r)) (resp_body r)))) \<and>
    (\<exists>r t k. serve_channels path body blen resp s = Some (r, t) \<and> unat (body_len r) < RESP_BUF \<and>
      take (unat (body_len r)) (resp_body r) =
        json_list (bytes ''{\"channels\":['') (take k (List.map_filter channel_entry (link_audio_remote s))) \<and>
      (length (List.map_filter channel_entry (link_audio_remote s)) \<le> 41 \<longrightarrow>
        length (List.map_filter channel_entry (link_audio_remote s)) \<le> k) \<and>
      ((\<forall>r\<in>set (link_audio_remote s). rem_in_use r \<longrightarrow> plain_text (c_str (rem_name r))) \<longrightarrow>
        json (take (unat (body_len r)) (resp_body r))))"
proof
  have inv: "core_inv s" "web_inv s" "short_names (link_audio_remote s)"
    using reachable_inv [OF assms] by (simp_all add: firmware_inv_def app_inv_def)
  then have buf: "length (s_resp_buf s) = RESP_BUF" "length (c_str (webui_name s)) < 32" "length (link_peers s) = LINK_MAX_PEERS"
    and names: "\<forall>r\<in>set (link_audio_remote s). length (c_str (rem_name r)) < 32"
    by (simp_all add: core_inv_def peers_inv_def web_inv_def short_names_def LINK_AUDIO_NAME_MAX_def)
  show "\<exists>r t. serve_status path body blen resp s = Some (r, t) \<and> unat (body_len r) < 2500 \<and>
      take (unat (body_len r)) (resp_body r) = json_list (status_head (ghost_now s) s) (List.map_filter peer_entry (link_peers s)) \<and>
      (plain_text (c_str (webui_name s)) \<longrightarrow> json (take (unat (body_len r)) (resp_body r))) \<and>
      (92 \<notin> set (c_str (webui_name s)) \<and> odd (quotes (c_str (webui_name s))) \<longrightarrow>
        \<not> json (take (unat (body_len r)) (resp_body r)))"
    using status_document [OF buf] status_json status_not_json by metis
  show "\<exists>r t k. serve_channels path body blen resp s = Some (r, t) \<and> unat (body_len r) < RESP_BUF \<and>
      take (unat (body_len r)) (resp_body r) =
        json_list (bytes ''{\"channels\":['') (take k (List.map_filter channel_entry (link_audio_remote s))) \<and>
      (length (List.map_filter channel_entry (link_audio_remote s)) \<le> 41 \<longrightarrow>
        length (List.map_filter channel_entry (link_audio_remote s)) \<le> k) \<and>
      ((\<forall>r\<in>set (link_audio_remote s). rem_in_use r \<longrightarrow> plain_text (c_str (rem_name r))) \<longrightarrow>
        json (take (unat (body_len r)) (resp_body r)))"
    using channels_document [OF buf(1) names] channels_json by metis
qed

text \<open>
  C30: Anyone on the network can make the status document unreadable: in every reachable state a POST to
  \<open>/api/name\<close> whose first 31 bytes hold an odd number of quotation marks and no backslash is answered with
  success, and the status served next is not JSON, so the script of the page cannot read it.
\<close>

theorem posted_name_breaks_status:
  assumes "reachable a s" "n = min (unat blen) 31" "n \<le> length body"
    "92 \<notin> set (c_str (take n body))" "odd (quotes (c_str (take n body)))"
  shows "\<exists>r t r' t'. post_name path body blen resp s = Some (r, t) \<and> status r = status resp \<and>
    resp_body r = bytes ''{\"ok\":true}'' \<and> c_str (webui_name t) = c_str (take n body) \<and>
    serve_status path' body' blen' resp' t = Some (r', t') \<and> \<not> json (take (unat (body_len r')) (resp_body r'))"
proof -
  let ?t = "s\<lparr>webui_name := take n body @ [0] @ drop (n + 1) (webui_name s)\<rparr>"
  have inv: "core_inv s" "web_inv s"
    using reachable_inv [OF assms(1)] by (simp_all add: firmware_inv_def app_inv_def)
  have name: "c_str (webui_name ?t) = c_str (take n body)" by (simp add: c_str_cut)
  have "length (c_str (take n body)) \<le> length (take n body)" unfolding c_str_def by (rule length_takeWhile_le)
  also have "\<dots> < 32" using assms(2) by simp
  finally have short: "length (c_str (webui_name ?t)) < 32" unfolding name .
  have "link_peers ?t = link_peers s" by simp
  then have buf: "length (s_resp_buf ?t) = RESP_BUF" "length (link_peers ?t) = LINK_MAX_PEERS"
    using inv by (simp_all add: core_inv_def peers_inv_def web_inv_def)
  obtain r' t' where served: "serve_status path' body' blen' resp' ?t = Some (r', t')"
    "take (unat (body_len r')) (resp_body r') = json_list (status_head (ghost_now ?t) ?t) (List.map_filter peer_entry (link_peers ?t))"
    using status_document [OF buf(1) short buf(2)] by blast
  have broken: "\<not> json (take (unat (body_len r')) (resp_body r'))"
    unfolding served(2) using assms(4,5) by (intro status_not_json) (simp_all only: name not_False_eq_True)
  have post: "post_name path body blen resp s = Some (ok_json resp, ?t)"
    using assms(3) unfolding post_name_def Let_def assms(2) [symmetric] by simp
  show ?thesis
    by (rule exI [of _ "ok_json resp"], rule exI [of _ ?t], rule exI [of _ r'], rule exI [of _ t'])
      (use post served(1) broken name in \<open>simp add: ok_json_def\<close>)
qed

section \<open>A run\<close>

definition cold :: main_st where
  "cold = webui_st.extend (web_node idA\<lparr>s_peer_name := bytes ''linkfpga'' @ replicate 24 0\<rparr>)
     (main_st.fields (\<lambda>_. None) quick_mac None)"

lemma power_on_cold: "power_on cold"
proof -
  have "tx_inv cold \<longleftrightarrow> tx_inv (audio_node idA)"
    by (simp add: tx_inv_def) (simp add: cold_def webui_st.extend_def main_st.fields_def interface_node_defs audio_node_defs)
  moreover have "meas cold = zero_state" "s_peer_name cold = bytes ''linkfpga'' @ replicate 24 0"
    "s_resp_buf cold = replicate RESP_BUF 0" "webui_name cold = bytes ''linkfpga'' @ replicate 24 0"
    "s_conns cold = (\<lambda>_. None)" "midi_tx_fifo cold = []" "s_last_count cold = [0, 0]" "s_net cold = quick_mac"
    by (simp_all add: cold_def webui_st.extend_def main_st.fields_def interface_node_defs)
      (simp_all add: audio_node_defs node_def)
  ultimately show ?thesis
    using audio_node_tx [of idA] by (simp add: power_on_def tdm_consts numeral_2_eq_2) (simp add: quick_mac_def slot_consts)
qed

definition warm :: main_st where
  "warm = the (boot 0 [] cold)"

lemma reachable_warm: "reachable 0 warm"
proof -
  have "\<exists>t. boot 0 [] cold = Some t" by (simp add: boot_def Let_def)
  then have "boot 0 [] cold = Some warm" by (auto simp: warm_def)
  with power_on_cold show ?thesis by (rule reachable.Boot)
qed

lemma boot_name:
  assumes "boot a [] s = Some t"
  shows "webui_name t = webui_name s"
proof -
  let ?a = "tdm_init (beat_pulse_init (net_set_rx_callback On_udp_rx (s\<lparr>s_net := net_init (s_net s)\<rparr>)))"
  let ?d = "link_audio_init (link_init ?a)"
  let ?w = "webui_init (http_init (euro_init (midi_init ?d)))"
  have t: "t = link_broadcast_alive_now ?w" using assms by (simp add: boot_def Let_def)
  have "audio_st.more ?d = audio_st.more ?a"
    using link_audio_init_more(1) audio_fields_cong(7) [OF link_init_frame(1) [of ?a]] by metis
  note web = web_fields_cong(2) [OF http_fields_cong(2) [OF euro_fields_cong(2) [OF midi_fields_cong(5) [OF this]]]]
  have "webui_name ?w = webui_name ?d" unfolding webui_routes by (simp add: euro_init_def midi_init_def)
  moreover have "webui_name ?a = webui_name s"
    by (simp add: net_set_rx_callback_def beat_pulse_init_def tdm_init_def flags_write_def Let_def)
  ultimately show ?thesis using web by (simp add: t link_broadcast_alive_now_def host_time_us_eq)
qed

lemma warm_name: "webui_name warm = bytes ''linkfpga'' @ replicate 24 0"
proof -
  have "boot 0 [] cold = Some warm" by (simp add: warm_def boot_def Let_def)
  from boot_name [OF this] show ?thesis
    by (simp add: cold_def webui_st.extend_def main_st.fields_def interface_node_defs)
qed

lemma every_run_witness:
  "firmware_inv (warm\<lparr>netif_ip4 := 7, netif_ip6 := []\<rparr>) \<and> identity (warm\<lparr>netif_ip4 := 7, netif_ip6 := []\<rparr>) = identity warm"
proof -
  have "(main_step 0)\<^sup>*\<^sup>* warm (warm\<lparr>netif_ip4 := 7, netif_ip6 := []\<rparr>)"
    by (rule r_into_rtranclp, rule main_step.Address)
  then show ?thesis by (rule every_run [OF reachable_warm])
qed

lemma documents_in_every_state_witness:
  "\<exists>r t. serve_status [] [] 0 blank_response warm = Some (r, t) \<and> unat (body_len r) < 2500 \<and>
     json (take (unat (body_len r)) (resp_body r))"
proof -
  have "plain_text (c_str (webui_name warm))"
    by (simp add: warm_name c_str_def plain_text_def bytes_def)
  then show ?thesis using documents_in_every_state [OF reachable_warm, of "[]" "[]" 0 blank_response] by blast
qed

text \<open>The name 7" has one quotation mark.\<close>

lemma posted_name_breaks_status_witness:
  "\<exists>r t r' t'. post_name [] [55, 34] 2 blank_response warm = Some (r, t) \<and> resp_body r = bytes ''{\"ok\":true}'' \<and>
     serve_status [] [] 0 blank_response t = Some (r', t') \<and> \<not> json (take (unat (body_len r')) (resp_body r'))"
  using posted_name_breaks_status [OF reachable_warm, where n = 2 and blen = 2 and body = "[55, 34]" and path = "[]" and
      resp = blank_response and path' = "[]" and body' = "[]" and blen' = 0 and resp' = blank_response]
  by (simp add: c_str_def) blast

definition quiet_poll :: poll_input where
  "quiet_poll = \<lparr>poll_alloc = (\<lambda>k len. Some [len]), poll_stack = (\<lambda>k f. ([], True)), poll_timeouts = []\<rparr>"

lemma init_unheard: "unheard (link_audio_init s)"
proof -
  let ?step = "\<lambda>(port, ch) (idx, s). if idx < MAX_LOCAL_CHANNELS then (idx + 1, init_local idx port ch s) else (idx, s)"
  let ?P = "\<lambda>u. length (link_audio_local u) = MAX_LOCAL_CHANNELS \<and> unheard u"
  have local: "?P (init_local idx port ch u)" if "?P u" "idx < MAX_LOCAL_CHANNELS" for idx port ch and u :: "'a audio_st_scheme"
    using that nth_mem [of idx "link_audio_local u"]
    by (auto simp: unheard_def init_local_def random_id_def Let_def host_time_us_eq dest!: in_set_updateD)
  have "?P (snd (fold ?step xs (0, s\<lparr>link_audio_local := replicate MAX_LOCAL_CHANNELS zero_local,
     link_audio_remote := replicate LINK_AUDIO_MAX_REMOTE zero_remote,
     link_audio_subs := replicate LINK_AUDIO_MAX_REMOTE zero_sub\<rparr>)))" for xs
    by (rule fold_inv [where P = "\<lambda>q. ?P (snd q)"]) (auto simp: local split: if_splits, simp add: unheard_def zero_local_def)
  then show ?thesis by (simp add: link_audio_init_def Let_def case_prod_beta unheard_def)
qed

lemma boot_idle:
  assumes "boot a [] s = Some t" "rx_queue (s_net s) = []" "midi_rt_ev s = None" "poll_timeouts w = []"
  shows "idle w t"
proof -
  let ?a = "tdm_init (beat_pulse_init (net_set_rx_callback On_udp_rx (s\<lparr>s_net := net_init (s_net s)\<rparr>)))"
  let ?d = "link_audio_init (link_init ?a)"
  let ?w = "webui_init (http_init (euro_init (midi_init ?d)))"
  have t: "t = link_broadcast_alive_now ?w" using assms(1) by (simp add: boot_def Let_def)
  have "audio_st.more ?d = audio_st.more ?a"
    using link_audio_init_more(1) audio_fields_cong(7) [OF link_init_frame(1) [of ?a]] by metis
  note midi = midi_fields_cong [OF this]
  note main = main_fields_cong [OF web_fields_cong(3) [OF http_fields_cong(2) [OF euro_fields_cong(2) [OF midi(5)]]]]
  have n: "rx_queue (net_init (s_net s)) = []"
    using assms(2) by (simp add: net_init_def netif_litex_bringup_def netif_litex_init_def low_level_init_def writer_ev_clear_def
        lwip_do_def Let_def)
  have a: "midi_rt_ev ?a = None" "rx_queue (s_net ?a) = []"
    using n assms(3) by (simp_all add: net_set_rx_callback_def beat_pulse_init_def tdm_init_def flags_write_def Let_def)
  have "idle w ?w"
    using init_unheard [of "link_init ?a"] a midi(1) main(2) assms(4)
    unfolding webui_routes by (simp add: idle_def unheard_def euro_init_def midi_init_def)
  then show ?thesis by (simp add: t idle_def unheard_def link_broadcast_alive_now_def host_time_us_eq)
qed

end
