(* ===== verification/Sent_Datagrams.thy ===== *)
theory Sent_Datagrams
  imports Main_Runs
begin

text \<open>
  What the firmware puts on the network. Every datagram is built in a local array of the function that
  sends it, without a check of the length: \<open>uint8_t buf[LINK_MAX_MSG_...]\<close> of the protocol whose header
  it writes. \<open>fits d\<close> says that the datagram stays within that array and asks for the discovery port as its source;
  \<open>sends s t\<close> that all datagrams added to the log by a step do.
\<close>

text \<open>The size of the array a message with this header is built in.\<close>

definition message_room :: "u8 list \<Rightarrow> nat" where
  "message_room p =
     (if take 8 p = kProtoHdr then LINK_MAX_MSG_DISCOVERY
      else if take 8 p = kProtoLink then LINK_MAX_MSG_LINK
      else if take 8 p = kProtoAudio then LINK_MAX_MSG_AUDIO else 0)"

definition fits :: "datagram \<Rightarrow> bool" where
  "fits d \<longleftrightarrow> src_port d = LINK_DISCOVERY_PORT \<and> 8 \<le> length (payload d) \<and> length (payload d) \<le> message_room (payload d)"

definition sends :: "'a hw_scheme \<Rightarrow> 'a hw_scheme \<Rightarrow> bool" where
  "sends s t \<longleftrightarrow> (\<exists>ds. sent t = sent s @ ds \<and> (\<forall>d\<in>set ds. fits d))"

lemma sends_silent: "net_log t = net_log s \<Longrightarrow> sends s t"
  by (simp add: sends_def)

lemma sends_refl [simp]: "sends s s"
  by (rule sends_silent) simp

lemma sends_trans [trans]: "sends s t \<Longrightarrow> sends t u \<Longrightarrow> sends s u"
  by (auto simp: sends_def)

lemma sends_logs: "sends s t \<Longrightarrow> net_log s' = net_log s \<Longrightarrow> net_log t' = net_log t \<Longrightarrow> sends s' t'"
  by (simp add: sends_def)

lemma sends_from: "sends u t \<Longrightarrow> net_log s = net_log u \<Longrightarrow> sends s t"
  by (simp add: sends_def)

lemma sends_logged: "fits d \<Longrightarrow> sends s (logged d s)"
  by (simp add: sends_def)

lemma sends_fold:
  assumes step: "\<And>x t. P t \<Longrightarrow> sends t (f x t) \<and> P (f x t)"
  shows "P s \<Longrightarrow> sends s (fold f xs s)"
proof (induction xs arbitrary: s)
  case (Cons x xs)
  have "sends s (f x s)" "P (f x s)" using step [OF Cons.prems] by simp_all
  then show ?case using Cons.IH [of "f x s"] sends_trans [of s "f x s"] by simp
qed simp

lemma fits_sent_to:
  "fits (sent_to a p LINK_DISCOVERY_PORT buf) \<longleftrightarrow> 8 \<le> length buf \<and> length buf \<le> message_room buf"
  by (simp add: fits_def sent_to_def)

text \<open>The three headers are distinct, so each message has the room of its own protocol.\<close>

lemma protocols_distinct: "kProtoLink \<noteq> kProtoHdr" "kProtoAudio \<noteq> kProtoHdr" "kProtoAudio \<noteq> kProtoLink"
  by (simp_all add: kProtoHdr_def kProtoLink_def kProtoAudio_def)

lemma message_room_simps [simp]:
  "message_room (kProtoHdr @ p) = 512" "message_room (kProtoLink @ p) = 512" "message_room (kProtoAudio @ p) = 1200"
  by (simp_all add: message_room_def protocols_distinct LINK_MAX_MSG_DISCOVERY_def LINK_MAX_MSG_LINK_def LINK_MAX_MSG_AUDIO_def)

section \<open>Discovery and measurement\<close>

lemma fits_state: "fits (sent_to a p LINK_DISCOVERY_PORT (encode_msg m True s))"
  by (simp add: fits_sent_to encode_msg_def Let_def tlv_emit_header_def tlv_emit_bytes_entry tlv_entry_def)

lemma fits_ping: "fits (sent_to a p LINK_DISCOVERY_PORT (encode_ping t g h))"
  using length_ping_payload [of t "if h then Some g else None"] by (simp add: fits_sent_to encode_ping_eq)

lemma link_tick_sends: "sends s (link_tick s)"
  using sent_link_tick [of s] by (auto simp: sends_def alive_datagrams_def fits_state split: if_splits)

lemma send_ping_sends: "sends s (send_ping s)"
  using send_ping_sent [of s] by (simp add: sends_def fits_ping)

lemma measurement_start_sends: "sends s (measurement_start a p i cb s)"
  by (auto simp: measurement_start_def intro: sends_from [OF send_ping_sends])

lemma call_completion_silent [simp]: "net_log (call_completion ok x s) = net_log s"
  by (simp add: call_completion_def on_measure_done_session split: option.split completion.split)

lemma measurement_tick_sends: "sends s (measurement_tick s)"
  by (auto simp: measurement_tick_def host_time_us_eq Let_def intro: sends_silent sends_from [OF send_ping_sends])

lemma peer_led_silent [simp]: "net_log (beat_pulse_set_peer_led on s) = net_log s"
  by (simp add: beat_pulse_set_peer_led_def flags_write_def Let_def)

lemma session_tick_sends: "sends s (session_tick s)"
proof -
  define u where "u = measurement_tick s"
  have started: "sends u (case fo of None \<Rightarrow> v | Some f \<Rightarrow> measurement_start (a f) (p f) j cb (v\<lparr>s_active_target_session := k\<rparr>))"
    if "net_log v = net_log u" for fo :: "nat option" and v a p j cb k
    using that by (auto split: option.split intro: sends_silent sends_from [OF measurement_start_sends])
  have stamped: "sends u (v\<lparr>s_last_remeasure_us := r\<rparr>)" if "sends u v" for v r
    by (rule sends_logs [OF that]) simp_all
  have led: "sends u (beat_pulse_set_peer_led on v)" if "sends u v" for on v
    by (rule sends_logs [OF that]) simp_all
  have "sends u (session_tick s)"
    unfolding session_tick_def u_def [symmetric] Let_def host_time_us_eq prod.case
    by (split if_split, intro conjI impI, rule sends_refl, rule led, split if_split, intro conjI impI, rule stamped,
        rule started, simp, rule sends_silent, simp)
  with measurement_tick_sends [of s] show ?thesis unfolding u_def by (rule sends_trans)
qed

lemma session_observe_peer_sends: "sends s (session_observe_peer k s)"
  by (auto simp: session_observe_peer_def Let_def split: option.split intro: sends_from [OF measurement_start_sends])

lemma observe_sends: "sends s (observe k p alive ip port s)"
proof -
  let ?u = "store_peer k (p\<lparr>expires_at_us := host_now s + 5000000\<rparr>) (s\<lparr>n_reads := n_reads s + 2\<rparr>)"
  have observed: "sends s (session_observe_peer k ?u)"
    by (rule sends_logs [OF session_observe_peer_sends]) (simp_all add: store_peer_def)
  have "sends v (send_response ip port v)" for v :: "'a meas_st_scheme"
    by (simp add: send_response_def sends_logged fits_state)
  with observed show ?thesis using sends_trans by (auto simp: observe_def Let_def)
qed

lemma link_handle_rx_sends:
  assumes "link_handle_rx a buf ip port s = Some t"
  shows "sends s t"
  using assms
proof (cases rule: link_handle_rx_cases)
  case (byebye i)
  then show ?thesis by (simp add: sends_silent evict_peer_def split: option.split)
next
  case (state k s' r peer)
  have "net_log s' = net_log s"
    using state(1) by (auto simp: find_or_alloc_peer_def Let_def split: option.splits prod.splits)
  then show ?thesis unfolding state(4) by (intro sends_logs [OF observe_sends]) simp_all
qed simp

lemma accept_pong_sends: "sends s (accept_pong c s)"
  by (auto simp: accept_pong_def host_time_us_eq Let_def case_prod_beta intro: sends_silent sends_from [OF send_ping_sends])

lemma measurement_handle_rx_sends:
  assumes "measurement_handle_rx a buf ip port s = Some t"
  shows "sends s t"
  using assms by (cases rule: measurement_handle_rx_cases) (simp_all add: sends_silent accept_pong_sends)

text \<open>The answer to a PING echoes its payload, cut off where the buffer ends.\<close>

lemma responder_sends: "sends s (measurement_responder_handle_rx buf ip port s)"
proof -
  let ?p = "kProtoLink @ [2] @ tlv_payload (pong_entries (link_self_session s) (ghost_now s))"
  let ?d = "sent_to (ip4_of ip) port LINK_DISCOVERY_PORT (?p @ drop 9 buf)"
  have "sends s (logged ?d (s\<lparr>n_reads := n_reads s + 3\<rparr>))" if "length buf - 9 \<le> 471"
    using that by (intro sends_from [OF sends_logged]) (simp_all add: fits_sent_to)
  then show ?thesis
    by (auto simp: measurement_responder_handle_rx_def Let_def ghost_time_us_eq tlv_emit_entries tlv_emit_bytes_entry
        pong_entries_def LINK_MAX_MSG_LINK_def sends_silent)
qed

section \<open>Audio\<close>

lemma fits_audio:
  "length x \<le> 1180 \<Longrightarrow> fits (sent_to a p LINK_DISCOVERY_PORT (encode_audio_header m ttl s @ x))"
  by (simp add: fits_sent_to encode_audio_header_def)

lemma send_channel_request_sends: "sends s (send_channel_request m ip port i s)"
  by (simp add: send_channel_request_def Let_def sends_logged fits_audio tlv_emit_bytes_entry)

lemma send_pong_sends: "sends s (send_pong ip port t s)"
  by (simp add: send_pong_def Let_def sends_logged fits_audio tlv_emit_entries)

text \<open>
  The announcement is the one message whose length depends on the state: on the names and on the number of
  channels. Both are bounded by the invariants.
\<close>

lemma announce_to_sends:
  assumes "names_inv s" "length (link_audio_local s) = MAX_LOCAL_CHANNELS"
  shows "sends s (announce_to ps first s)"
  using assms
proof (induction ps arbitrary: first s)
  case (Cons p ps)
  let ?buf = "fst (encode_peer_announcement first s)" and ?u = "snd (encode_peer_announcement first s)"
  let ?d = "sent_to (ip4_of (aep4_addr p)) (aep4_port p) LINK_DISCOVERY_PORT ?buf"
  have u: "net_log ?u = net_log s" "link_audio_local ?u = link_audio_local s" "s_peer_name ?u = s_peer_name s"
    by (simp_all add: encode_peer_announcement_def Let_def case_prod_beta host_time_us_eq)
  have "fits ?d"
    using length_announcement(2) [OF Cons.prems] unfolding encode_peer_announcement_eq [OF Cons.prems(1)]
    by (intro fits_audio) simp
  then have "sends s (logged ?d ?u)" by (intro sends_from [OF sends_logged]) (simp_all add: u)
  also have "sends (logged ?d ?u) (announce_to ps False (logged ?d ?u))"
    using Cons.prems u by (intro Cons.IH) (simp_all add: names_inv_def logged_def)
  finally show ?case using Cons.IH [OF Cons.prems] by (simp add: case_prod_beta)
qed simp

lemma rerequest_sends: "sends s (rerequest now k s)"
  by (auto simp: rerequest_def Let_def intro: sends_logs [OF send_channel_request_sends])

lemma link_audio_tick_sends:
  assumes "names_inv s" "audio_inv s"
  shows "sends s (link_audio_tick s)"
proof -
  let ?s = "s\<lparr>n_reads := n_reads s + 2\<rparr>"
  have again: "sends t (fold (rerequest now) ks t)" for now ks and t :: "'a audio_st_scheme"
    by (rule sends_fold [where P = "\<lambda>_. True"]) (simp_all add: rerequest_sends)
  have "names_inv ?s" "length (link_audio_local ?s) = MAX_LOCAL_CHANNELS" using assms by (simp_all add: names_inv_def audio_inv_def)
  then have "sends ?s (announce_to (link_peers s) True ?s)" by (rule announce_to_sends)
  then have "sends s (send_announcements ?s)"
    by (rule sends_logs) (simp_all add: send_announcements_def host_time_us_eq Let_def)
  then have "sends s (fold (rerequest now) ks (send_announcements ?s))" for now ks
    using again sends_trans by blast
  moreover have "sends s (fold (rerequest now) ks ?s)" for now ks
    using sends_from [OF again] by simp
  ultimately show ?thesis by (simp add: link_audio_tick_def host_time_us_eq Let_def)
qed

lemma drop_channels_silent: "drop_channels k v s = Some t \<Longrightarrow> net_log t = net_log s"
  by (induction k v s rule: drop_channels.induct) (auto simp: drop_channel_def split: if_splits)

interpretation aucb_log: tlv_reader handle_aucb_entry "\<lambda>s. net_log s = l" for l
  by unfold_locales (auto simp: handle_aucb_entry_def Let_def bind_eq_Some_conv drop_channels_silent split: if_splits)

lemma note_remote_silent: "net_log (note_remote ctx name i s) = net_log s"
  using note_remote_writes [of ctx name i s] by auto

lemma read_channels_silent: "read_channels k ctx v n s = Some (r, t) \<Longrightarrow> net_log t = net_log s"
proof (induction k arbitrary: v n s)
  case (Suc k)
  then have "t = s \<or> (\<exists>v' n' name i. read_channels k ctx v' n' (note_remote ctx name i s) = Some (r, t))"
    by (auto simp: Let_def split: if_splits)
  then show ?case using Suc.IH note_remote_silent by metis
qed simp

interpretation ann_log: tlv_reader ann_handler "\<lambda>cs. net_log (snd cs) = l" for l
  by unfold_locales
    (auto simp: ann_handler_def Let_def bind_eq_Some_conv case_prod_beta read_channels_silent split: if_splits)

lemma link_audio_handle_rx_sends:
  assumes "link_audio_handle_rx a buf ip port s = Some t"
  shows "sends s t"
  using assms
proof (cases rule: link_audio_handle_rx_cases)
  case (announcement r c u)
  have "net_log u = net_log s" using ann_log.walk_keeps [OF _ announcement(1), of "net_log s"] by simp
  then show ?thesis by (auto simp: announcement(2) intro: sends_silent sends_from [OF send_pong_sends])
next
  case (byes r)
  then show ?thesis using aucb_log.walk_keeps [of s "net_log s"] by (blast intro: sends_silent)
next
  case request
  then show ?thesis
    by (auto simp: handle_channel_request_def bind_eq_Some_conv Let_def intro!: sends_silent split: option.splits)
next
  case audio
  then show ?thesis by (cases rule: handle_audio_buffer_cases) (simp_all add: sends_silent)
qed simp

text \<open>Only full buffers of a channel are sent, so the packet has its 202 bytes.\<close>

lemma send_audio_buffer_for_sends:
  assumes "send_audio_buffer_for k smp s = Some t" "length smp = AUDIO_FRAMES_PER_PKT"
  shows "sends s t"
proof (cases "num_subscribers (link_audio_local s ! k) = 0")
  case True
  with assms(1) show ?thesis by (simp add: send_audio_buffer_for_def Let_def)
next
  case False
  obtain beats where "sent t = sent s @ map (\<lambda>x. sent_to (ip4_of (fst x)) (fst (snd x)) LINK_DISCOVERY_PORT (audio_packet k smp beats s))
       (subscribers (link_audio_local s ! k))"
    by (rule send_audio_packet [OF assms(1) False])
  moreover have "fits (sent_to a p LINK_DISCOVERY_PORT (audio_packet k smp beats s))" for a p
    using length_audio_packet [OF assms(2), of k beats s] unfolding fits_sent_to
    by (simp add: audio_packet_def encode_audio_header_def Let_def)
  ultimately show ?thesis by (auto simp: sends_def)
qed

lemma full_or_not:
  assumes "do { (pos, s) \<leftarrow> (if full then do { s \<leftarrow> (case k of None \<Rightarrow> Some b | Some k \<Rightarrow> send k); Some (0, s) } else Some (p, b));
      Some (write pos s) } = Some t"
  shows "\<exists>pos u. t = write pos u \<and> (u = b \<or> (\<exists>k. send k = Some u))"
  using assms by (auto simp: bind_eq_Some_conv split: if_splits option.splits)

lemma capture_channel_sends:
  assumes "capture_channel port ch s = Some t" "port < LINK_NUM_TDM_PORTS" "ch < LINK_TDM_CHANNELS_PER_PORT" "audio_inv s"
  shows "sends s t"
proof -
  let ?s = "snd (tdm_read_rx (int port) (int ch) s)"
  define buf where "buf = (s_tx_pkt_buf ?s ! port ! ch)[s_tx_pkt_pos ?s ! port ! ch := fst (tdm_read_rx (int port) (int ch) s)]"
  define b where "b = ?s\<lparr>s_tx_pkt_buf := (s_tx_pkt_buf ?s)[port := (s_tx_pkt_buf ?s ! port)[ch := buf]]\<rparr>"
  have s: "net_log ?s = net_log s" "s_tx_pkt_buf ?s = s_tx_pkt_buf s" by (simp_all add: tdm_read_rx_def rx_p_def tdm_access_def)
  then have buf: "length buf = AUDIO_FRAMES_PER_PKT" using assms(2-4) by (simp add: buf_def audio_inv_def tx_inv_def)
  have b: "net_log b = net_log s" by (simp add: b_def s)
  obtain pos u where t: "t = u\<lparr>s_tx_pkt_pos := (s_tx_pkt_pos u)[port := (s_tx_pkt_pos u ! port)[ch := pos]]\<rparr>"
    and u: "u = b \<or> (\<exists>k. send_audio_buffer_for k buf b = Some u)"
    using full_or_not [OF assms(1) [unfolded capture_channel_def Let_def case_prod_beta [of _ "tdm_read_rx (int port) (int ch) s"],
      folded buf_def, folded b_def]] by blast
  have "sends s u"
    using u sends_from [OF send_audio_buffer_for_sends [OF _ buf], of _ b u s] b by (auto intro: sends_silent)
  then show ?thesis by (rule sends_logs) (simp_all add: t)
qed

lemma drain_sub_silent: "net_log (drain_sub port k s) = net_log s"
proof -
  have w: "net_log (tdm_write_tx p c v t) = net_log t" for p c v and t :: "'a audio_st_scheme"
    by (simp add: tdm_write_tx_def tx_p_def)
  show ?thesis by (cases "jbuf_pop (link_audio_subs s ! k)") (auto simp: drain_sub_def Let_def w)
qed

lemma serve_port_sends:
  assumes "serve_port port s = Some t" "audio_inv s"
  shows "sends s t"
proof -
  let ?u = "snd (tdm_frame_pending port s)"
  have u: "net_log ?u = net_log s" "audio_inv ?u"
    using assms(2) by (simp_all add: tdm_frame_pending_def tdm_frame_count_def tdm_access_def Let_def audio_inv_def tx_inv_def)
  show ?thesis
  proof (cases "fst (tdm_frame_pending port s)")
    case False
    with assms(1) u show ?thesis by (simp add: serve_port_def case_prod_beta sends_silent)
  next
    case True
    then obtain v where v: "link_audio_on_tdm_frame port ?u = Some v" "t = tdm_clear_frame_pending port v"
      using assms(1) by (auto simp: serve_port_def case_prod_beta bind_eq_Some_conv)
    have "sends ?u v"
    proof (cases "LINK_NUM_TDM_PORTS \<le> port")
      case False
      then obtain w where w: "fold_option (capture_channel port) [0..<LINK_TDM_CHANNELS_PER_PORT] ?u = Some w"
        "v = fold (drain_sub port) [0..<LINK_AUDIO_MAX_REMOTE] w"
        using v(1) by (auto simp: link_audio_on_tdm_frame_def bind_eq_Some_conv)
      have "sends ?u w \<and> audio_inv w"
      proof (rule fold_option_inv [OF _ _ w(1)])
        show "sends ?u y \<and> audio_inv y"
          if "ch \<in> set [0..<LINK_TDM_CHANNELS_PER_PORT]" "sends ?u x \<and> audio_inv x" "capture_channel port ch x = Some y" for ch x y
          using that False capture_channel_sends [OF that(3)] capture_channel_ok [OF that(3)] sends_trans [of ?u x y]
          by (simp add: audio_ok_def)
      qed (simp add: u)
      moreover have "net_log v = net_log w"
        unfolding w(2) by (rule fold_inv [where P = "\<lambda>x. net_log x = net_log w"]) (simp_all add: drain_sub_silent)
      ultimately show ?thesis using sends_logs by blast
    qed (use v(1) in \<open>simp add: link_audio_on_tdm_frame_def\<close>)
    then show ?thesis
      unfolding v(2) by (rule sends_logs) (simp_all add: u tdm_clear_frame_pending_def tdm_frame_count_def tdm_access_def Let_def)
  qed
qed

section \<open>Clock inputs\<close>

lemma retimed_silent [simp]: "net_log (retimed tml ss n s) = net_log s"
  by (simp add: retimed_def)

lemma setters_silent:
  "link_set_local_tempo bpm s = Some t \<Longrightarrow> net_log t = net_log s" "link_set_play p s = Some t \<Longrightarrow> net_log t = net_log s"
  by (auto dest!: link_set_local_tempo_SomeD link_set_play_SomeD)

lemma midi_tick_silent: "midi_tick s = Some t \<Longrightarrow> net_log t = net_log s"
  by (erule midi_tick_cases; elim disjE exE) (simp_all add: midi_measure_def Let_def)

lemma euro_tick_silent:
  assumes "euro_tick s = Some t"
  shows "net_log t = net_log s"
proof -
  obtain u where u: "euro_clock_edge (euro_measure s) = Some u" "euro_run_edge (euro_reset_edge u) = Some t"
    using assms by (auto simp: euro_tick_def bind_eq_Some_conv)
  have "net_log (euro_measure s) = net_log s" by (simp add: euro_measure_def Let_def)
  moreover have "net_log u = net_log (euro_measure s)"
    using u(1) by (auto simp: euro_clock_edge_def Let_def dest!: setters_silent split: if_splits)
  moreover have "net_log (euro_reset_edge u) = net_log u"
    by (simp add: euro_reset_edge_def Let_def ghost_time_us_eq)
  moreover have "net_log t = net_log (euro_reset_edge u)"
    using u(2) by (auto simp: euro_run_edge_def Let_def dest!: setters_silent split: if_splits)
  ultimately show ?thesis by simp
qed

section \<open>Web server\<close>

lemma http_send_response_silent: "http_send_response pcb r s = Some t \<Longrightarrow> net_log t = net_log s"
  by (auto simp: http_send_response_def tcp_write_def Let_def split: if_splits)

lemma unsubscribe_sends: "sends s (snd (link_audio_unsubscribe i s))"
  by (auto simp: link_audio_unsubscribe_def Let_def split: option.split intro: sends_logs [OF send_channel_request_sends])

lemma subscribe_silent: "net_log (snd (link_audio_subscribe port ch i s)) = net_log s"
  by (simp add: link_audio_subscribe_def Let_def split: option.split)

text \<open>Only giving up a subscription makes a handler send; everything else is announced by a later tick.\<close>

lemma web_call_sends:
  assumes "web_call h path body blen resp s = Some (r, t)"
  shows "sends s t"
proof (cases h)
  case post_subscribe_fn
  obtain m where m: "Some (case m of None \<Rightarrow> (failed ''subscribe failed'' resp, s)
      | Some (port, slot, hex) \<Rightarrow> (case hex_to_id hex of None \<Rightarrow> (failed ''subscribe failed'' resp, s)
          | Some i \<Rightarrow> let (r, s) = link_audio_subscribe port slot i s in
              (if r = 0 then ok_json resp else failed ''subscribe failed'' resp, s))) = Some (r, t)"
    using assms unfolding post_subscribe_fn web_call.simps post_subscribe_def by (auto simp only: bind_eq_Some_conv)
  have "t = s \<or> (\<exists>p c i. t = snd (link_audio_subscribe p c i s))"
    using m by (auto simp: case_prod_beta split: option.splits)
  then show ?thesis by (auto simp: subscribe_silent intro: sends_silent)
next
  case post_unsubscribe_fn
  with assms have "t = s \<or> (\<exists>i. t = snd (link_audio_unsubscribe i s))"
    by (auto simp: post_unsubscribe_def bind_eq_Some_conv case_prod_beta Let_def split: option.splits)
  then show ?thesis using unsubscribe_sends by auto
qed (use assms in \<open>auto simp: serve_index_def serve_status_def serve_channels_def post_name_def post_tempo_def post_play_def
    post_stop_def ghost_time_us_eq bind_eq_Some_conv Let_def intro!: sends_silent dest!: setters_silent split: if_splits\<close>)

lemma dispatch_sends: "dispatch web_call pcb cs s = Some t \<Longrightarrow> sends s t"
  by (auto simp: dispatch_def Let_def bind_eq_Some_conv split: if_splits option.splits
      intro: sends_silent http_send_response_silent sends_logs [OF web_call_sends])

lemma on_recv_sends: "on_recv web_call pcb ev cs s = Some (c, t) \<Longrightarrow> sends s t"
  by (cases ev) (auto simp: on_recv_def bind_eq_Some_conv Let_def split: if_splits
      intro: sends_silent http_send_response_silent dispatch_sends)

section \<open>The loop\<close>

lemma on_udp_rx_sends:
  assumes "on_udp_rx a ip sport dport buf s = Some t"
  shows "sends s t"
proof -
  consider "t = s" | "link_handle_rx a buf ip sport s = Some t"
    | "do { s \<leftarrow> measurement_handle_rx a buf ip sport s; Some (measurement_responder_handle_rx buf ip sport s) } = Some t"
    | "link_audio_handle_rx a buf ip sport s = Some t"
    using if_chain [OF assms [unfolded on_udp_rx_def]] by blast
  then show ?thesis
  proof cases
    case 3
    then obtain u where "measurement_handle_rx a buf ip sport s = Some u" "t = measurement_responder_handle_rx buf ip sport u"
      by (auto simp: bind_eq_Some_conv)
    then show ?thesis using sends_trans [OF measurement_handle_rx_sends responder_sends] by blast
  qed (simp_all add: link_handle_rx_sends link_audio_handle_rx_sends)
qed

lemma net_deliver_sends:
  assumes "net_deliver a ev s = Some t"
  shows "sends s t"
proof (cases ev)
  case (Udp data addr port)
  show ?thesis
  proof (cases "s_user_cb s")
    case None
    with assms Udp show ?thesis by (simp add: udp_rx_handler_def)
  next
    case (Some cb)
    then have "s_user_cb s = Some On_udp_rx" by (cases cb) simp
    with assms Udp have "t = s \<or> (\<exists>ip. on_udp_rx a ip port LINK_DISCOVERY_PORT data s = Some t)"
      by (auto simp: udp_rx_handler_def Let_def split: if_splits)
    then show ?thesis using on_udp_rx_sends by auto
  qed
next
  case (Tcp_recv pcb e)
  with assms obtain c u where "t = s \<or> on_recv web_call pcb e (the (s_conns s pcb)) s = Some (c, u) \<and> t = u\<lparr>s_conns := (s_conns u)(pcb := c)\<rparr>"
    by (auto simp: bind_eq_Some_conv split: option.splits)
  then show ?thesis using sends_logs [OF on_recv_sends, of pcb e "the (s_conns s pcb)" s c u s t] by auto
qed (use assms in \<open>auto simp: bind_eq_Some_conv intro: sends_silent\<close>)

lemma fold_deliver_sends: "fold_option (net_deliver a) evs s = Some t \<Longrightarrow> sends s t"
  by (rule fold_option_inv [where P = "sends s" and f = "net_deliver a"])
    (auto intro: sends_trans net_deliver_sends)

lemma ethernet_input_sends:
  assumes "ethernet_input a stack p n s = Some (e, n', s')"
  shows "sends s s'"
proof -
  obtain evs where "fold_option (net_deliver a) evs (s\<lparr>s_net := n\<rparr>) = Some s'"
    using assms by (auto simp: ethernet_input_def Let_def case_prod_beta bind_eq_Some_conv)
  from fold_deliver_sends [OF this] show ?thesis by (rule sends_logs) simp_all
qed

lemma input_frame_sends:
  assumes "input_frame alloc (ethernet_input a stack) f n s = Some (n', s')"
  shows "sends s s'"
proof -
  have "s' = s \<or> (\<exists>p m e m'. ethernet_input a stack p m s = Some (e, m', s'))"
    using assms by (auto simp: input_frame_def Let_def bind_eq_Some_conv split: option.splits if_splits)
  then show ?thesis using ethernet_input_sends by auto
qed

lemma net_poll_sends:
  assumes "net_poll a w s = Some t"
  shows "sends s t"
proof -
  let ?step = "\<lambda>f (n, s). map_option (apfst writer_ev_clear) (input_frame (poll_alloc w) (ethernet_input a (poll_stack w)) f n s)"
  obtain n u where u: "netif_litex_input (poll_alloc w) (ethernet_input a (poll_stack w)) (s_net s) s = Some (n, u)"
    and t: "fold_option (net_deliver a) (poll_timeouts w) (u\<lparr>s_net := n\<rparr>) = Some t"
    using assms by (auto simp: net_poll_def bind_eq_Some_conv)
  have "sends s (snd (n, u))"
  proof (rule fold_option_inv [where P = "\<lambda>q. sends s (snd q)"])
    show "fold_option ?step (rx_queue (s_net s)) (s_net s, s) = Some (n, u)"
      using u unfolding netif_litex_input_fold [OF ethernet_input_queue] .
    show "sends s (snd r)" if "sends s (snd q)" "?step f q = Some r" for f q r
      using that input_frame_sends sends_trans by (fastforce simp: apfst_def map_prod_def split: prod.splits)
  qed simp
  then show ?thesis using sends_trans [OF _ sends_from [OF fold_deliver_sends [OF t]]] by simp
qed

lemma loop_pass_ticks:
  assumes "loop_pass a w s = Some t" "firmware_inv s"
  obtains s1 where "net_poll a w s = Some s1" "sends (link_tick s1) t"
proof -
  obtain s1 s3 s4 where s1: "net_poll a w s = Some s1" and s3: "midi_tick (link_audio_tick (session_tick (link_tick s1))) = Some s3"
    and s4: "euro_tick s3 = Some s4" and t: "fold_option serve_port [0..<LINK_NUM_TDM_PORTS] s4 = Some t"
    using assms(1) by (auto simp: loop_pass_def bind_eq_Some_conv Let_def)
  have inv1: "app_inv s1" using net_poll_inv [OF s1 assms(2)] by (simp add: firmware_inv_def)
  let ?l = "session_tick (link_tick s1)"
  have l: "app_ok s1 ?l" by (rule app_ok_trans [OF app_ok_link app_ok_link]) (rule link_tick_ok session_tick_ok)+
  then have inv: "names_inv ?l" "audio_inv ?l" using inv1 by (simp_all add: app_ok_def app_inv_def)
  have "app_ok s1 (link_audio_tick ?l)" by (rule app_ok_trans [OF l app_ok_audio [OF link_audio_tick_ok]])
  from app_ok_trans [OF app_ok_trans [OF this midi_tick_app [OF s3]] euro_tick_app [OF s4]]
  have inv4: "app_inv s4" using inv1 by (simp add: app_ok_def)
  have "sends s4 t \<and> app_inv t"
  proof (rule fold_option_inv [where P = "\<lambda>v. sends s4 v \<and> app_inv v", OF _ _ t])
    show "sends s4 v \<and> app_inv v" if "sends s4 u \<and> app_inv u" "serve_port port u = Some v" for port u v
      using that serve_port_sends [OF that(2)] serve_port_app [OF that(2)] sends_trans [of s4 u v]
      by (simp add: app_ok_def app_inv_def [of u])
  qed (simp add: inv4)
  note session_tick_sends
  also note link_audio_tick_sends [OF inv]
  also have "sends (link_audio_tick ?l) s4"
    by (rule sends_silent) (simp add: midi_tick_silent [OF s3] euro_tick_silent [OF s4])
  also have "sends s4 t" using \<open>sends s4 t \<and> app_inv t\<close> ..
  finally show thesis using that s1 by blast
qed

lemma loop_pass_sends: "loop_pass a w s = Some t \<Longrightarrow> firmware_inv s \<Longrightarrow> sends s t"
  by (erule loop_pass_ticks) (auto intro: sends_trans [OF net_poll_sends] sends_trans [OF link_tick_sends])

lemma main_step_sends: "main_step a s t \<Longrightarrow> firmware_inv s \<Longrightarrow> sends s t"
  by (erule main_stepE) (auto intro: loop_pass_sends sends_silent)

lemma run_sends:
  assumes "reachable a s" "(main_step a)\<^sup>*\<^sup>* s t"
  shows "sends s t"
proof -
  have "sends s t \<and> firmware_inv t"
    using assms(2)
  proof (induction rule: rtranclp_induct)
    case base
    show ?case using reachable_inv [OF assms(1)] by simp
  next
    case (step t u)
    then show ?case using main_step_sends [OF step(2)] main_step_inv [OF step(2)] sends_trans by blast
  qed
  then show ?thesis ..
qed

text \<open>What fits is received whole: it has one of the three headers, and \<^verbatim>\<open>net.c\<close> takes up to 1500 bytes.\<close>

lemma on_udp_rx_headers:
  "on_udp_rx b ip port dport (kProtoHdr @ p) u = link_handle_rx b (kProtoHdr @ p) ip port u"
  "on_udp_rx b ip port dport (kProtoLink @ p) u = do {
     u \<leftarrow> measurement_handle_rx b (kProtoLink @ p) ip port u;
     Some (measurement_responder_handle_rx (kProtoLink @ p) ip port u)
   }"
  "on_udp_rx b ip port dport (kProtoAudio @ p) u = link_audio_handle_rx b (kProtoAudio @ p) ip port u"
  by (simp_all add: on_udp_rx_def memcmp_eq_0) (simp_all add: kProtoHdr_def kProtoLink_def kProtoAudio_def)

lemma fits_cases:
  assumes "fits d"
  obtains (discovery) p where "payload d = kProtoHdr @ p" "length (payload d) \<le> 512"
    | (link) p where "payload d = kProtoLink @ p" "length (payload d) \<le> 512"
    | (audio) p where "payload d = kProtoAudio @ p" "length (payload d) \<le> 1200"
proof -
  have room: "8 \<le> length (payload d)" "length (payload d) \<le> message_room (payload d)"
    and split: "payload d = take 8 (payload d) @ drop 8 (payload d)"
    using assms by (simp_all add: fits_def)
  consider "take 8 (payload d) = kProtoHdr" | "take 8 (payload d) = kProtoLink" | "take 8 (payload d) = kProtoAudio"
    using room by (auto simp: message_room_def split: if_splits)
  then show thesis
  proof cases
    case 1
    with split have "payload d = kProtoHdr @ drop 8 (payload d)" by simp
    then show thesis using discovery room(2) message_room_simps(1) by metis
  next
    case 2
    with split have "payload d = kProtoLink @ drop 8 (payload d)" by simp
    then show thesis using link room(2) message_room_simps(2) by metis
  next
    case 3
    with split have "payload d = kProtoAudio @ drop 8 (payload d)" by simp
    then show thesis using audio room(2) message_room_simps(3) by metis
  qed
qed

lemma fits_dispatched:
  assumes "fits d"
  shows "udp_rx_handler (Some (on_udp_rx b)) lport (Some (payload d)) (Src4 ip) port u =
    (if take 8 (payload d) = kProtoHdr then link_handle_rx b (payload d) (lwip_htonl ip) port u
     else if take 8 (payload d) = kProtoLink then do {
       u \<leftarrow> measurement_handle_rx b (payload d) (lwip_htonl ip) port u;
       Some (measurement_responder_handle_rx (payload d) (lwip_htonl ip) port u)
     }
     else link_audio_handle_rx b (payload d) (lwip_htonl ip) port u)"
  using assms
proof (cases rule: fits_cases)
  case (discovery p)
  then show ?thesis unfolding discovery(1) by (simp add: udp_rx_handler_def on_udp_rx_headers Let_def)
next
  case (link p)
  then show ?thesis unfolding link(1) by (simp add: udp_rx_handler_def on_udp_rx_headers protocols_distinct Let_def)
next
  case (audio p)
  then show ?thesis unfolding audio(1) by (simp add: udp_rx_handler_def on_udp_rx_headers protocols_distinct Let_def)
qed

section \<open>Property\<close>

text \<open>
  C8: In every run, whatever is received and whatever the clocks do, every datagram the firmware sends asks
  for the discovery port as its source, stays within the array it was built in (512 bytes for discovery and measurement,
  1200 for audio), and reaches the handler of its protocol at any other node of this firmware.
\<close>

theorem datagrams_fit:
  assumes "reachable a s" "(main_step a)\<^sup>*\<^sup>* s t"
  shows "\<exists>ds. sent t = sent s @ ds \<and> (\<forall>d\<in>set ds. src_port d = LINK_DISCOVERY_PORT \<and>
    length (payload d) \<le> message_room (payload d) \<and>
    (\<forall>b ip port u. udp_rx_handler (Some (on_udp_rx b)) LINK_DISCOVERY_PORT (Some (payload d)) (Src4 ip) port u =
      (if take 8 (payload d) = kProtoHdr then link_handle_rx b (payload d) (lwip_htonl ip) port u
       else if take 8 (payload d) = kProtoLink then do {
         u \<leftarrow> measurement_handle_rx b (payload d) (lwip_htonl ip) port u;
         Some (measurement_responder_handle_rx (payload d) (lwip_htonl ip) port u)
       }
       else link_audio_handle_rx b (payload d) (lwip_htonl ip) port u)))"
proof -
  have "sends s t" using run_sends [OF assms] .
  then obtain ds where ds: "sent t = sent s @ ds" "\<forall>d\<in>set ds. fits d" by (auto simp: sends_def)
  show ?thesis
  proof (intro exI [of _ ds] conjI ballI)
    fix d
    assume "d \<in> set ds"
    with ds(2) have d: "fits d" by blast
    then show "src_port d = LINK_DISCOVERY_PORT" "length (payload d) \<le> message_room (payload d)" by (simp_all add: fits_def)
  qed (use ds fits_dispatched in blast)+
qed

section \<open>The first broadcast\<close>

lemma boot_alive:
  assumes "boot a [] s = Some t"
  shows "host_clk t = host_clk s" "s_last_bcast_us t = 0" "s_state_dirty t"
proof -
  let ?a = "tdm_init (beat_pulse_init (net_set_rx_callback On_udp_rx (s\<lparr>s_net := net_init (s_net s)\<rparr>)))"
  let ?d = "link_audio_init (link_init ?a)"
  let ?w = "webui_init (http_init (euro_init (midi_init ?d)))"
  have t: "t = link_broadcast_alive_now ?w" using assms by (simp add: boot_def Let_def)
  have prng: "host_clk (snd (prng_bytes n u)) = host_clk u" for n and u :: "'b link_st_scheme"
    by (induction n arbitrary: u) (simp_all add: prng_byte_def Let_def case_prod_beta host_time_us_eq)
  have "host_clk (core ?d) = host_clk (link_init ?a)" "s_last_bcast_us (core ?d) = s_last_bcast_us (link_init ?a)"
    unfolding link_audio_init_core by (simp_all add: core_def meas_st.truncate_def)
  then have d: "host_clk ?d = host_clk (link_init ?a)" "s_last_bcast_us ?d = s_last_bcast_us (link_init ?a)"
    by (simp_all add: core_def meas_st.truncate_def)
  have l: "host_clk (link_init ?a) = host_clk s" "s_last_bcast_us (link_init ?a) = 0"
    by (simp_all add: link_init_def Let_def case_prod_beta host_time_us_eq ghost_time_us_eq prng beat_pulse_load_timeline_def
        flags_write_def) (simp_all add: tdm_init_def beat_pulse_init_def net_set_rx_callback_def flags_write_def Let_def)
  have w: "host_clk ?w = host_clk ?d" "s_last_bcast_us ?w = s_last_bcast_us ?d"
    unfolding webui_routes by (simp_all add: euro_init_def midi_init_def)
  show "host_clk t = host_clk s" "s_last_bcast_us t = 0" "s_state_dirty t"
    using d l w by (simp_all add: t link_broadcast_alive_now_def host_time_us_eq)
qed

text \<open>A node whose clock stands at one second announces itself in its first pass.\<close>

lemma datagrams_fit_witness:
  "\<exists>s t ds. reachable 0 s \<and> loop_pass 0 quiet_poll s = Some t \<and> sent t = sent s @ alive_datagrams s @ ds \<and>
     (\<forall>d\<in>set (alive_datagrams s). length (payload d) \<le> message_room (payload d))"
proof -
  let ?cold = "cold\<lparr>s_net := quick_mac\<lparr>rx_queue := []\<rparr>, host_clk := \<lambda>_. 1000000\<rparr>"
  have power: "power_on ?cold" using power_on_cold by (simp add: power_on_def tx_inv_def) (simp add: quick_mac_def slot_consts)
  obtain s where boot: "boot 0 [] ?cold = Some s" by (simp add: boot_def Let_def)
  have s: "reachable 0 s" using power boot by (rule reachable.Boot)
  have "midi_rt_ev cold = None"
    by (simp add: cold_def webui_st.extend_def main_st.fields_def interface_node_defs)
  then have idle: "idle quiet_poll s" by (intro boot_idle [OF boot]) (simp_all add: quiet_poll_def)
  then obtain t where t: "loop_pass 0 quiet_poll s = Some t" using idle_pass by blast
  have "host_now s = 1000000" unfolding host_now_def boot_alive(1) [OF boot] by (simp add: join_words_same)
  then have "alive_now s" using boot_alive [OF boot] by (simp add: alive_now_def bcast_due_def)
  moreover obtain s1 where s1: "net_poll 0 quiet_poll s = Some s1" and rest: "sends (link_tick s1) t"
    by (rule loop_pass_ticks [OF t reachable_inv [OF s]])
  moreover have "s1 = s"
    using s1 idle by (simp add: net_poll_def idle_def netif_litex_input_empty)
  ultimately obtain ds where ds: "sent t = sent s @ alive_datagrams s @ ds"
    by (auto simp: sends_def sent_link_tick)
  have "(main_step 0)\<^sup>*\<^sup>* s t" using t by (blast intro: main_step.Pass)
  from datagrams_fit [OF s this] ds
  have "\<forall>d\<in>set (alive_datagrams s). length (payload d) \<le> message_room (payload d)" by auto
  with s t ds show ?thesis by blast
qed

end
