(* ===== verification/Spec2Isabelle.thy ===== *)
theory Spec2Isabelle
  imports Witnesses Sent_Datagrams
begin

text \<open>
  LinkFPGA: an Ableton Link node in an FPGA. This development models the firmware, the C program under
  \<^verbatim>\<open>src/firmware\<close> that runs on the soft core, and proves what makes it correct.

  \<^bold>\<open>The program.\<close> One endless loop (\<^verbatim>\<open>main.c\<close>) polls the network and then runs the tick of every module.
  \<^verbatim>\<open>link.c\<close> keeps the table of peers and announces the node. \<^verbatim>\<open>session.c\<close> decides which session it belongs
  to; for that \<^verbatim>\<open>measurement.c\<close> measures the offset between the clocks of two nodes with PINGs, which
  \<^verbatim>\<open>measurement_responder.c\<close> answers. \<^verbatim>\<open>ghost_time.c\<close> is the clock and \<^verbatim>\<open>beat_pulse.c\<close> the pulse generator.
  \<^verbatim>\<open>link_audio.c\<close> announces, requests and streams audio channels between the network and the TDM ports of
  \<^verbatim>\<open>tdm.c\<close>. \<^verbatim>\<open>midi.c\<close> and \<^verbatim>\<open>eurorack.c\<close> follow an external clock. \<^verbatim>\<open>http_server.c\<close> and \<^verbatim>\<open>webui.c\<close> are the
  admin page. \<^verbatim>\<open>net.c\<close> and \<^verbatim>\<open>netif_litex.c\<close> connect all of it to lwIP and the Ethernet MAC. The modules share
  global variables and call each other directly; there are no threads and no interrupts.

  \<^bold>\<open>The state.\<close> Each module adds its registers and static variables to one extensible record:
  \<open>hw\<close>, \<open>beat_pulse_st\<close>, \<open>link_st\<close>, \<open>session_st\<close>, \<open>meas_st\<close>, \<open>tdm_st\<close>, \<open>audio_st\<close>, \<open>midi_st\<close>, \<open>euro_st\<close>, \<open>http_st\<close>,
  \<open>webui_st\<close>, \<open>main_st\<close>. A function of a module is a definition of the same name over any extension of its
  module's record, so that it cannot touch what the modules above own. The fields and constants carry
  the names of the source.

  \<^bold>\<open>Conventions.\<close> C integers are words of their width and wrap; \<open>int64_t\<close> is a 64-bit word read with \<open>sint\<close>.
  \<open>double\<close> is \<open>f64\<close> (theory Float64): rationals rounded to binary64 after each operation, with infinities and
  NaN. Arrays are lists of the declared length, C strings lists of bytes. A result \<open>None\<close> stands for leaving
  the defined behaviour of C: a read behind a received datagram or a buffer, or the conversion of a
  \<open>double\<close> that does not fit. In the theories Tlv and Netif it also stands for a loop that never ends
  (\<open>tlv_walk_rv32\<close>, \<open>wait_ready\<close>, \<open>netif_litex_input\<close> are partial functions), and the properties say when
  that happens. No definition uses fuel: every other loop is structural or has a proved measure.

  \<^bold>\<open>What is outside.\<close> lwIP, the MAC and the gateware are not C code of this repository. They are parameters:
  the counter is any sequence of values (\<open>host_clk\<close>), one per access, and so are the TDM registers; lwIP's
  answers to transmissions and writes are functions in the state; what it makes of a frame is an argument
  of a pass of the loop. Where the code relies on them, the documented behaviour is a named hypothesis:
  \<open>mac_contract\<close> (the ready bit of the MAC), \<open>alloc_contract\<close> (buffers as long as asked for) and \<open>lwip_ports\<close>
  (who may hold a local port), each with an instance that satisfies it.

  \<^bold>\<open>The theories, from the bottom.\<close>

  \<^item> Prelude: words, C division, table scans, identifiers, and \<open>slot_table\<close>, the interface of the firmware's
    flat tables, interpreted for the peers and for the remote channels.
  \<^item> Tlv (\<^verbatim>\<open>tlv.h\<close>, \<^verbatim>\<open>tlv.c\<close>): accessors, encoders and the walker, once on lists and once as the loop over
    wrapping 32-bit pointers. The two agree where no size wraps; a wrapping size makes the loop hang.
    \<open>tlv_reader\<close> is the interface of the callbacks, interpreted for every protocol.
  \<^item> Hardware (\<^verbatim>\<open>ghost_time.c\<close>, \<^verbatim>\<open>net.c\<close>): time registers and transmission; \<open>datagram_sender\<close> is the interface the
    modules send through. Beat_Pulse (\<^verbatim>\<open>beat_pulse.c\<close>, types of \<^verbatim>\<open>link.h\<close>).
  \<^item> Link_State, Discovery, Timeline (\<^verbatim>\<open>link.c\<close>): encoders, tick and pruning; the receive path and what two
    nodes exchange, also when a message is malformed; the two setters with their arithmetic, exact for every tempo a clock can show.
    Peer_Map: the table of peers as a finite map, with what a datagram and a tick do to the map.
  \<^item> Session_Election, Session (\<^verbatim>\<open>session.c\<close>): when a measured session is joined and which timeline is
    adopted; when a measurement is started. Measurement (both measurement files) and Median (\<^verbatim>\<open>median.c\<close>): the
    exchange, its accuracy, that it ends, and the quickselect, refined to the sorted list.
    Convergence: two nodes and a network between them, from the first ALIVE to the joined session. It takes
    at most 101 rounds of PING and PONG, because a measurement ends with a hundred values and every answered round adds at
    least one; \<open>newcomer\<close>, \<open>preferable\<close> and \<open>timely\<close> say which node is heard, that its session wins the
    election and that the answers come within the round trip assumed. The rounds assume delivery and take
    the port the answers come from as a parameter: with any port but the announced one nothing happens.
  \<^item> Tdm, Audio_State, Link_Audio (\<^verbatim>\<open>tdm.c\<close>, \<^verbatim>\<open>link_audio.h\<close>, \<^verbatim>\<open>link_audio.c\<close>): ports, rings, subscribers, messages.
    Audio_Inv: every operation keeps the tables well formed. Audio_Frames: what one TDM frame moves from the
    ports to the packets and from the rings to the ports. Audio_Exchange, Announcements: what one node
    sends and another stores. Audio_Path puts these together: the way of a sample from a port of one node
    to a port of another, over the sixty-four frames of a packet. Subscriptions: from the call to the entry
    at the owner of the channel, and its renewal; a second subscription to a channel stays silent.
  \<^item> Float64, Midi, Eurorack (\<^verbatim>\<open>midi.c\<close>, \<^verbatim>\<open>eurorack.c\<close>): the followers: each edge is acted on once, and what
    it does.
  \<^item> Ctext, Http_Server, Http_Segments, Webui, Web_Documents, Json, Web_Requests (\<^verbatim>\<open>http_server.c\<close>, \<^verbatim>\<open>webui.c\<close>): the C
    library's text functions, server and handlers; the segmentation of a request does not matter, the
    documents fit their buffer, the routes reach their handlers. Json has the grammar of RFC 8259: the
    documents satisfy it if no name needs escaping.
  \<^item> Netif, Net_Stack (\<^verbatim>\<open>netif_litex.c\<close>, \<^verbatim>\<open>net.c\<close>): the driver over the slot memory, with frames in flight; the
    bring-up as the sequence of its calls; the transmission call by call, with the port a datagram leaves from.
  \<^item> Frames, Main_Loop, Main_Invariant, Main_Runs, Sent_Datagrams (\<^verbatim>\<open>main.c\<close>): \<open>boot\<close>, \<open>loop_pass\<close>, and the step relation
    \<open>main_step\<close>, in which the hardware and lwIP move between passes. \<open>reachable\<close> states satisfy \<open>firmware_inv\<close>,
    the invariants of all modules together; Main_Runs has the properties of every run.
    Sent_Datagrams: no message is longer than the array it is built in, whatever the state, and each one sent
    is taken by the handler of its protocol at another node.
  \<^item> Witnesses, Audio_Witnesses, Interface_Witnesses: concrete nodes at which the hypotheses hold.

  \<^bold>\<open>Bounds.\<close> The build is the default one of \<^verbatim>\<open>config.h\<close>: two TDM ports of sixteen channels. A handler's walk over
  a message is the list version; by \<open>rv32_walk_refines\<close> it is what the 32-bit loop does unless a size
  wraps. One call of the MIDI or Eurorack tick sees its inputs still. The frames handled by one pass of
  the receive loop are those that become pending before it ends: a MAC that always has a further one
  would keep the firmware in it.

  \<^bold>\<open>Not modelled.\<close> The messages printed on the console; the start-up code and link script (\<^verbatim>\<open>crt0.S\<close>,
  \<^verbatim>\<open>linker.ld\<close>); the options of \<^verbatim>\<open>lwipopts.h\<close> beyond the size of the send buffer, because they configure a
  library outside the repository; lwIP's own use of the driver inside TCP (retransmissions are events of
  the timers); the control blocks lwIP keeps for TCP; the gateware and the build scripts, which are Python.
  The datagrams the modules send are kept in a log and not turned into frames: that is lwIP's work.
\<close>

end
